(* ===== verification/Prelude.thy ===== *)
theory Prelude
  imports Main "HOL-Library.Word"
begin

text \<open>
  What the components share: the C integer types of the 64-bit RISC-V target, the faults a
  run of the kernel can end in, a result type for fallible code with its sequencing operator,
  the arithmetic macros of \<^verbatim>\<open>machine/bits.h\<close>, and the generic lemmas on words, lists and
  results that the component proofs rewrite with.
\<close>

unbundle bit_operations_syntax

section \<open>Types\<close>

type_synonym u8 = "8 word"
type_synonym u16 = "16 word"
type_synonym u32 = "32 word"
type_synonym u64 = "64 word"

text \<open>
  How a run ends without returning to its caller: a failed \<^verbatim>\<open>assert\<close> or \<^verbatim>\<open>kassert\<close>, a
  \<^verbatim>\<open>panic\<close> or \<^verbatim>\<open>die\<close>, an access outside of the object a pointer points into, a spinlock taken
  by the hart that holds it already, a trap that comes back at the same instruction for ever, a
  page loop whose counter wraps past the end of the address space, an undefined operation of C,
  an exhausted bound of a model's recursion, and the intended end of the run (\<^verbatim>\<open>shutdown\<close>,
  \<^verbatim>\<open>poweroff\<close>).
\<close>

datatype fault =
    Assertion
  | Panic string
  | BadAccess
  | Deadlock
  | Livelock
  | AddrWrap
  | Undefined
  | OutOfFuel
  | Shutdown u64

type_synonym 'a res = "fault + 'a"

definition bind_res :: "'a res \<Rightarrow> ('a \<Rightarrow> 'b res) \<Rightarrow> 'b res" where
  "bind_res m k = (case m of Inl e \<Rightarrow> Inl e | Inr x \<Rightarrow> k x)"

definition kassert :: "bool \<Rightarrow> 'a res \<Rightarrow> 'a res" where
  "kassert c k = (if c then k else Inl Assertion)"

section \<open>Collections of rewrite rules\<close>

named_theorems res_simps \<open>rules for results and assertions\<close>
named_theorems frame_simps \<open>fields an operation leaves alone\<close>

lemma bind_res_Inl [simp, res_simps]: "bind_res (Inl e) k = Inl e"
  by (simp add: bind_res_def)

lemma bind_res_Inr [simp, res_simps]: "bind_res (Inr x) k = k x"
  by (simp add: bind_res_def)

lemma bind_res_eq_Inr: "bind_res m k = Inr y \<longleftrightarrow> (\<exists>x. m = Inr x \<and> k x = Inr y)"
  by (cases m) simp_all

lemma bind_res_eq_Inl:
  "bind_res m k = Inl e \<longleftrightarrow> m = Inl e \<or> (\<exists>x. m = Inr x \<and> k x = Inl e)"
  by (cases m) auto

lemma bind_res_assoc: "bind_res (bind_res m f) g = bind_res m (\<lambda>x. bind_res (f x) g)"
  by (cases m) simp_all

lemma bind_res_cong [fundef_cong]:
  "m = m' \<Longrightarrow> (\<And>x. m' = Inr x \<Longrightarrow> k x = k' x) \<Longrightarrow> bind_res m k = bind_res m' k'"
  by (cases m') simp_all

lemma kassert_True [simp, res_simps]: "kassert True k = k"
  by (simp add: kassert_def)

lemma kassert_False [simp, res_simps]: "kassert False k = Inl Assertion"
  by (simp add: kassert_def)

lemma kassert_eq_Inr: "kassert c k = Inr y \<longleftrightarrow> c \<and> k = Inr y"
  by (simp add: kassert_def)

section \<open>Macros of bits.h\<close>

text \<open>
  \<^verbatim>\<open>ROUNDUP\<close> and \<^verbatim>\<open>ROUNDDOWN\<close> are used on unsigned 64-bit values; the subtraction wraps for
  an argument of 0, as in C. \<^verbatim>\<open>EXTRACT_FIELD\<close> and \<^verbatim>\<open>INSERT_FIELD\<close> divide and multiply by the
  lowest bit of the mask.
\<close>

definition ROUNDUP :: "u64 \<Rightarrow> u64 \<Rightarrow> u64" where
  "ROUNDUP a b = ((a - 1) div b + 1) * b"

definition ROUNDDOWN :: "u64 \<Rightarrow> u64 \<Rightarrow> u64" where
  "ROUNDDOWN a b = a div b * b"

definition EXTRACT_FIELD :: "u64 \<Rightarrow> u64 \<Rightarrow> u64" where
  "EXTRACT_FIELD val which = (val AND which) div (which AND NOT (which - 1))"

definition INSERT_FIELD :: "u64 \<Rightarrow> u64 \<Rightarrow> u64 \<Rightarrow> u64" where
  "INSERT_FIELD val which fieldval =
     (val AND NOT which) OR (fieldval * (which AND NOT (which - 1)))"

section \<open>Little-endian memory\<close>

text \<open>The length of an instruction, by its two low bits.\<close>

definition insn_len :: "u64 \<Rightarrow> u64" where
  "insn_len insn = (if insn AND 3 < 3 then 2 else 4)"

text \<open>Byte memory and the loads and stores of wider values the target's \<^verbatim>\<open>lwu\<close>, \<^verbatim>\<open>ld\<close>,
  \<^verbatim>\<open>sw\<close> and \<^verbatim>\<open>sd\<close> make.\<close>

definition le_word :: "u8 list \<Rightarrow> 'a::len word" where
  "le_word bs = foldr (\<lambda>b w. ucast b OR push_bit 8 w) bs 0"

definition load32 :: "(u64 \<Rightarrow> u8) \<Rightarrow> u64 \<Rightarrow> u32" where
  "load32 m a = le_word (map (\<lambda>i. m (a + i)) [0, 1, 2, 3])"

definition load64 :: "(u64 \<Rightarrow> u8) \<Rightarrow> u64 \<Rightarrow> u64" where
  "load64 m a = le_word (map (\<lambda>i. m (a + i)) [0, 1, 2, 3, 4, 5, 6, 7])"

section \<open>Error numbers\<close>

text \<open>Negated error numbers of \<^verbatim>\<open>errno.h\<close> as the \<^verbatim>\<open>long\<close> a system call returns.\<close>

definition EBADF :: u64 where "EBADF = 9"
definition ENOMEM :: u64 where "ENOMEM = 12"
definition EACCES :: u64 where "EACCES = 13"
definition EINVAL :: u64 where "EINVAL = 22"
definition ENOSYS :: u64 where "ENOSYS = 38"

lemmas errno_defs = EBADF_def ENOMEM_def EACCES_def EINVAL_def ENOSYS_def

section \<open>Words\<close>

lemma unat_add_no_wrap: "unat (a::'a::len word) + unat b < 2 ^ LENGTH('a) \<Longrightarrow> unat (a + b) = unat a + unat b"
  by (simp add: unat_add_lem)

lemma unat_sub_no_wrap: "b \<le> (a::'a::len word) \<Longrightarrow> unat (a - b) = unat a - unat b"
  by (simp add: unat_sub)

lemma word_neq_0_unat: "(a::'a::len word) \<noteq> 0 \<longleftrightarrow> 0 < unat a"
  by (simp add: unat_gt_0)

text \<open>The remainder of a word by a power of two is its low bits.\<close>

lemma word_and_mask_0_iff: "(a::u64) AND 4095 = 0 \<longleftrightarrow> 4096 dvd unat a"
proof -
  have m: "(4095::u64) = mask 12" by (simp add: mask_eq_exp_minus_1)
  show ?thesis using and_mask_dvd_nat [of 12 a] by (simp add: m)
qed

lemma sint_nonneg_unat: "0 \<le> sint (w::'a::len word) \<Longrightarrow> int (unat w) = sint w"
proof -
  assume nn: "0 \<le> sint w"
  have "sint w < 2 ^ (LENGTH('a) - 1)" by (rule sint_lt)
  also have "(2::int) ^ (LENGTH('a) - 1) \<le> 2 ^ LENGTH('a)" by (rule power_increasing) auto
  finally have "take_bit LENGTH('a) (sint w) = sint w"
    using nn by (simp add: take_bit_int_eq_self)
  then show ?thesis by (simp add: uint_sint)
qed

lemma sint_small: "unat (w::'a::len word) < 2 ^ (LENGTH('a) - 1) \<Longrightarrow> sint w = int (unat w)"
proof -
  assume "unat w < 2 ^ (LENGTH('a) - 1)"
  then have "int (unat w) < int (2 ^ (LENGTH('a) - 1))" by (simp only: of_nat_less_iff)
  then have lt: "uint w < 2 ^ (LENGTH('a) - Suc 0)" by simp
  have "- (2 ^ (LENGTH('a) - Suc 0)) \<le> uint w"
    by (rule order_trans [of _ 0]) simp_all
  with lt have "signed_take_bit (LENGTH('a) - Suc 0) (uint w) = uint w"
    by (intro signed_take_bit_int_eq_self)
  then show ?thesis by (simp add: sint_uint)
qed

end
