(* ===== verification/Pk_File.thy ===== *)
theory Pk_File
  imports Prelude
begin

text \<open>
  The file layer of the proxy kernel: the host interface of \<^verbatim>\<open>pk/frontend.c\<close> and the
  reference-counted table of open files of \<^verbatim>\<open>pk/file.c\<close>.

  A \<^verbatim>\<open>file_t*\<close> is an index into \<^verbatim>\<open>files\<close>, the null pointer is \<^const>\<open>None\<close>. The host is code
  outside of the repository and a parameter of the model: a function from the requests sent so
  far and the eight words of \<^verbatim>\<open>magic_mem\<close> to the word it leaves in \<^verbatim>\<open>magic_mem[0]\<close> and the
  bytes of physical memory it stores. The proxy kernel runs on one hart (\<^verbatim>\<open>boot_other_hart\<close>
  stalls the others), so an atomic read-modify-write is one step of the state and a
  compare-and-swap loop succeeds at its first attempt.
\<close>

section \<open>State\<close>

record file_t =
  kfd :: u32
  refcnt :: u32

type_synonym request = "u64 list"

type_synonym host = "request list \<Rightarrow> request \<Rightarrow> u64 \<times> (u64 \<rightharpoonup> u8)"

record kstate =
  files :: "file_t list"
  fds :: "nat option list"
  requests :: "request list"
  pmem :: "u64 \<Rightarrow> u8"
  first_free_paddr :: u64

definition MAX_FDS :: nat where "MAX_FDS = 128"
definition MAX_FILES :: nat where "MAX_FILES = 128"

definition empty_file :: file_t where
  "empty_file = \<lparr>kfd = -1, refcnt = 0\<rparr>"

definition DRAM_BASE :: u64 where "DRAM_BASE = 0x80000000"

section \<open>System call numbers\<close>

definition SYS_exit :: u64 where "SYS_exit = 93"
definition SYS_read :: u64 where "SYS_read = 63"
definition SYS_write :: u64 where "SYS_write = 64"
definition SYS_openat :: u64 where "SYS_openat = 56"
definition SYS_close :: u64 where "SYS_close = 57"
definition SYS_lseek :: u64 where "SYS_lseek = 62"
definition SYS_fstat :: u64 where "SYS_fstat = 80"
definition SYS_pread :: u64 where "SYS_pread = 67"
definition SYS_pwrite :: u64 where "SYS_pwrite = 68"
definition SYS_ftruncate :: u64 where "SYS_ftruncate = 46"

definition AT_FDCWD :: u32 where "AT_FDCWD = -100"

definition IS_ERR_VALUE :: "u64 \<Rightarrow> bool" where
  "IS_ERR_VALUE x \<longleftrightarrow> -4096 \<le> x"

section \<open>The host interface\<close>

definition va2pa :: "'a kstate_scheme \<Rightarrow> u64 \<Rightarrow> u64" where
  "va2pa s va = (if DRAM_BASE \<le> va then va else va + first_free_paddr s)"

definition patch_mem :: "(u64 \<rightharpoonup> u8) \<Rightarrow> (u64 \<Rightarrow> u8) \<Rightarrow> u64 \<Rightarrow> u8" where
  "patch_mem w m a = (case w a of None \<Rightarrow> m a | Some b \<Rightarrow> b)"

definition frontend_syscall ::
  "host \<Rightarrow> u64 \<Rightarrow> u64 \<Rightarrow> u64 \<Rightarrow> u64 \<Rightarrow> u64 \<Rightarrow> u64 \<Rightarrow> u64 \<Rightarrow> u64 \<Rightarrow>
   'a kstate_scheme \<Rightarrow> u64 \<times> 'a kstate_scheme" where
  "frontend_syscall host n a0 a1 a2 a3 a4 a5 a6 s =
     (let magic_mem = [n, a0, a1, a2, a3, a4, a5, a6];
          (ret, w) = host (requests s) magic_mem
      in (ret, s\<lparr>requests := requests s @ [magic_mem], pmem := patch_mem w (pmem s)\<rparr>))"

text \<open>\<^verbatim>\<open>shutdown\<close> asks the host to end the simulation and never returns.\<close>

definition shutdown :: "u32 \<Rightarrow> 'b res" where
  "shutdown code = Inl (Shutdown (scast code))"

section \<open>Reference counts\<close>

definition set_refcnt :: "nat \<Rightarrow> u32 \<Rightarrow> 'a kstate_scheme \<Rightarrow> 'a kstate_scheme" where
  "set_refcnt f c s = s\<lparr>files := (files s)[f := (files s ! f)\<lparr>refcnt := c\<rparr>]\<rparr>"

definition set_kfd :: "nat \<Rightarrow> u32 \<Rightarrow> 'a kstate_scheme \<Rightarrow> 'a kstate_scheme" where
  "set_kfd f k s = s\<lparr>files := (files s)[f := (files s ! f)\<lparr>kfd := k\<rparr>]\<rparr>"

definition file_incref :: "nat \<Rightarrow> 'a kstate_scheme \<Rightarrow> 'a kstate_scheme res" where
  "file_incref f s =
     (if f < length (files s) then
        let prev = refcnt (files s ! f); s' = set_refcnt f (prev + 1) s
        in kassert (0 < prev) (Inr s')
      else Inl BadAccess)"

definition file_decref :: "host \<Rightarrow> nat \<Rightarrow> 'a kstate_scheme \<Rightarrow> 'a kstate_scheme res" where
  "file_decref host f s =
     (if f < length (files s) then
        let prev = refcnt (files s ! f); s' = set_refcnt f (prev - 1) s
        in if prev = 2 then
             let k = kfd (files s' ! f); s'' = set_refcnt f 0 s'
             in Inr (snd (frontend_syscall host SYS_close (scast k) 0 0 0 0 0 0 s''))
           else Inr s'
      else Inl BadAccess)"

text \<open>The two table scans: the first index from \<^verbatim>\<open>i\<close> on that satisfies the test.\<close>

fun find_from :: "nat \<Rightarrow> ('b \<Rightarrow> bool) \<Rightarrow> 'b list \<Rightarrow> nat option" where
  "find_from i P [] = None"
| "find_from i P (x # xs) = (if P x then Some i else find_from (Suc i) P xs)"

definition file_get_free :: "'a kstate_scheme \<Rightarrow> nat option \<times> 'a kstate_scheme" where
  "file_get_free s =
     (case find_from 0 (\<lambda>f. refcnt f = 0) (files s) of
        None \<Rightarrow> (None, s)
      | Some f \<Rightarrow> (Some f, set_refcnt f 2 s))"

definition file_dup :: "nat \<Rightarrow> 'a kstate_scheme \<Rightarrow> (u32 \<times> 'a kstate_scheme) res" where
  "file_dup f s =
     (case find_from 0 (\<lambda>p. p = None) (fds s) of
        None \<Rightarrow> Inr (-1, s)
      | Some i \<Rightarrow>
          bind_res (file_incref f (s\<lparr>fds := (fds s)[i := Some f]\<rparr>))
            (\<lambda>s'. Inr (of_nat i, s')))"

definition file_init_one :: "nat \<Rightarrow> 'a kstate_scheme \<Rightarrow> 'a kstate_scheme res" where
  "file_init_one i s =
     (case file_get_free s of
        (None, _) \<Rightarrow> Inl BadAccess
      | (Some f, s1) \<Rightarrow> bind_res (file_dup f (set_kfd f (of_nat i) s1)) (\<lambda>(_, s2). Inr s2))"

definition file_init :: "'a kstate_scheme \<Rightarrow> 'a kstate_scheme res" where
  "file_init s =
     bind_res (file_init_one 0 s) (\<lambda>s. bind_res (file_init_one 1 s) (file_init_one 2))"

definition file_get :: "u32 \<Rightarrow> 'a kstate_scheme \<Rightarrow> nat option \<times> 'a kstate_scheme" where
  "file_get fd s =
     (if sint fd < 0 \<or> int MAX_FDS \<le> sint fd then (None, s)
      else case fds s ! unat fd of
             None \<Rightarrow> (None, s)
           | Some f \<Rightarrow>
               (let old_cnt = refcnt (files s ! f)
                in if old_cnt = 0 then (None, s)
                   else (Some f, set_refcnt f (old_cnt + 1) s)))"

section \<open>Opening and closing\<close>

text \<open>
  An opened file, or the error pointer \<^verbatim>\<open>ERR_PTR(x)\<close>. The name is a string in memory that may
  have to be paged in: \<^verbatim>\<open>strlen\<close> is an argument, a step of the state.
\<close>

type_synonym 's measure = "u64 \<Rightarrow> 's \<Rightarrow> (u64 \<times> 's) res"

definition file_openat ::
  "host \<Rightarrow> ('a kstate_scheme) measure \<Rightarrow> u32 \<Rightarrow> u64 \<Rightarrow> u32 \<Rightarrow> u32 \<Rightarrow> 'a kstate_scheme \<Rightarrow>
   ((u64 + nat) \<times> 'a kstate_scheme) res" where
  "file_openat host slen dirfd fn flags mode s =
     (case file_get_free s of
        (None, s1) \<Rightarrow> Inr (Inl (- ENOMEM), s1)
      | (Some f, s1) \<Rightarrow>
          bind_res (slen fn s1)
            (\<lambda>(n, s1). let (ret, s2) = frontend_syscall host SYS_openat (scast dirfd)
                   (va2pa s1 fn) (n + 1) (scast flags) (scast mode) 0 0 s1
             in if 0 \<le> sint ret then Inr (Inr f, set_kfd f (ucast ret) s2)
                else bind_res (file_decref host f s2) (\<lambda>s3. Inr (Inl ret, s3))))"

definition file_open ::
  "host \<Rightarrow> ('a kstate_scheme) measure \<Rightarrow> u64 \<Rightarrow> u32 \<Rightarrow> u32 \<Rightarrow> 'a kstate_scheme \<Rightarrow>
   ((u64 + nat) \<times> 'a kstate_scheme) res" where
  "file_open host slen fn flags mode s = file_openat host slen AT_FDCWD fn flags mode s"

definition fd_close :: "host \<Rightarrow> u32 \<Rightarrow> 'a kstate_scheme \<Rightarrow> (u32 \<times> 'a kstate_scheme) res" where
  "fd_close host fd s =
     (case file_get fd s of
        (None, s1) \<Rightarrow> Inr (-1, s1)
      | (Some f, s1) \<Rightarrow>
          (let old = fds s1 ! unat fd;
               s2 = (if old = Some f then s1\<lparr>fds := (fds s1)[unat fd := None]\<rparr> else s1)
           in bind_res (file_decref host f s2)
                (\<lambda>s3. if old \<noteq> Some f then Inr (-1, s3)
                      else bind_res (file_decref host f s3) (\<lambda>s4. Inr (0, s4)))))"

section \<open>Transfers\<close>

text \<open>
  \<^verbatim>\<open>populate_mapping\<close> belongs to \<^verbatim>\<open>pk/mmap.c\<close>, which calls back into this file; the
  transfers take it as an argument.
\<close>

type_synonym 's populate = "u64 \<Rightarrow> u64 \<Rightarrow> u32 \<Rightarrow> 's \<Rightarrow> 's res"

definition PROT_READ :: u32 where "PROT_READ = 1"
definition PROT_WRITE :: u32 where "PROT_WRITE = 2"
definition PROT_EXEC :: u32 where "PROT_EXEC = 4"

definition file_read ::
  "host \<Rightarrow> ('a kstate_scheme) populate \<Rightarrow> nat \<Rightarrow> u64 \<Rightarrow> u64 \<Rightarrow> 'a kstate_scheme \<Rightarrow>
   (u64 \<times> 'a kstate_scheme) res" where
  "file_read host populate f buf n s =
     bind_res (populate buf n PROT_WRITE s)
       (\<lambda>s. Inr (frontend_syscall host SYS_read (scast (kfd (files s ! f))) (va2pa s buf) n 0 0 0 0 s))"

definition file_pread ::
  "host \<Rightarrow> ('a kstate_scheme) populate \<Rightarrow> nat \<Rightarrow> u64 \<Rightarrow> u64 \<Rightarrow> u64 \<Rightarrow> 'a kstate_scheme \<Rightarrow>
   (u64 \<times> 'a kstate_scheme) res" where
  "file_pread host populate f buf n offset s =
     bind_res (populate buf n PROT_WRITE s)
       (\<lambda>s. Inr (frontend_syscall host SYS_pread (scast (kfd (files s ! f))) (va2pa s buf) n offset 0 0 0 s))"

definition file_write ::
  "host \<Rightarrow> ('a kstate_scheme) populate \<Rightarrow> nat \<Rightarrow> u64 \<Rightarrow> u64 \<Rightarrow> 'a kstate_scheme \<Rightarrow>
   (u64 \<times> 'a kstate_scheme) res" where
  "file_write host populate f buf n s =
     bind_res (populate buf n PROT_READ s)
       (\<lambda>s. Inr (frontend_syscall host SYS_write (scast (kfd (files s ! f))) (va2pa s buf) n 0 0 0 0 s))"

definition file_pwrite ::
  "host \<Rightarrow> ('a kstate_scheme) populate \<Rightarrow> nat \<Rightarrow> u64 \<Rightarrow> u64 \<Rightarrow> u64 \<Rightarrow> 'a kstate_scheme \<Rightarrow>
   (u64 \<times> 'a kstate_scheme) res" where
  "file_pwrite host populate f buf n offset s =
     bind_res (populate buf n PROT_READ s)
       (\<lambda>s. Inr (frontend_syscall host SYS_pwrite (scast (kfd (files s ! f))) (va2pa s buf) n offset 0 0 0 s))"

section \<open>File status\<close>

text \<open>
  The host fills a \<^verbatim>\<open>struct frontend_stat\<close> in a buffer of the kernel's stack, whose address
  is the argument \<^verbatim>\<open>sb\<close>; \<^verbatim>\<open>copy_stat\<close> copies its fields to the C library's \<^verbatim>\<open>struct stat\<close>.
\<close>

record frontend_stat =
  fs_dev :: u64
  fs_ino :: u64
  fs_mode :: u32
  fs_nlink :: u32
  fs_uid :: u32
  fs_gid :: u32
  fs_rdev :: u64
  fs_size :: u64
  fs_blksize :: u32
  fs_blocks :: u64
  fs_atime :: u64
  fs_mtime :: u64
  fs_ctime :: u64

record stat =
  st_dev :: u64
  st_ino :: u64
  st_mode :: u32
  st_nlink :: u32
  st_uid :: u32
  st_gid :: u32
  st_rdev :: u64
  st_size :: u64
  st_blksize :: u32
  st_blocks :: u64
  st_atime :: u64
  st_mtime :: u64
  st_ctime :: u64

definition read_frontend_stat :: "(u64 \<Rightarrow> u8) \<Rightarrow> u64 \<Rightarrow> frontend_stat" where
  "read_frontend_stat m a =
     \<lparr>fs_dev = load64 m a, fs_ino = load64 m (a + 8),
      fs_mode = load32 m (a + 16), fs_nlink = load32 m (a + 20),
      fs_uid = load32 m (a + 24), fs_gid = load32 m (a + 28),
      fs_rdev = load64 m (a + 32), fs_size = load64 m (a + 48),
      fs_blksize = load32 m (a + 56), fs_blocks = load64 m (a + 64),
      fs_atime = load64 m (a + 72), fs_mtime = load64 m (a + 88), fs_ctime = load64 m (a + 104)\<rparr>"

definition copy_stat :: "frontend_stat \<Rightarrow> stat" where
  "copy_stat src =
     \<lparr>st_dev = fs_dev src, st_ino = fs_ino src, st_mode = fs_mode src, st_nlink = fs_nlink src,
      st_uid = fs_uid src, st_gid = fs_gid src, st_rdev = fs_rdev src, st_size = fs_size src,
      st_blksize = fs_blksize src, st_blocks = fs_blocks src, st_atime = fs_atime src,
      st_mtime = fs_mtime src, st_ctime = fs_ctime src\<rparr>"

definition file_stat ::
  "host \<Rightarrow> u64 \<Rightarrow> nat \<Rightarrow> 'a kstate_scheme \<Rightarrow> (u32 \<times> stat) \<times> 'a kstate_scheme" where
  "file_stat host sb f s =
     (let (ret, s1) = frontend_syscall host SYS_fstat (scast (kfd (files s ! f))) (va2pa s sb) 0 0 0 0 0 s
      in ((ucast ret, copy_stat (read_frontend_stat (pmem s1) (va2pa s1 sb))), s1))"

definition file_truncate ::
  "host \<Rightarrow> nat \<Rightarrow> u64 \<Rightarrow> 'a kstate_scheme \<Rightarrow> u32 \<times> 'a kstate_scheme" where
  "file_truncate host f len s =
     (let (ret, s1) = frontend_syscall host SYS_ftruncate (scast (kfd (files s ! f))) len 0 0 0 0 0 s
      in (ucast ret, s1))"

definition file_lseek ::
  "host \<Rightarrow> nat \<Rightarrow> u64 \<Rightarrow> u32 \<Rightarrow> 'a kstate_scheme \<Rightarrow> u64 \<times> 'a kstate_scheme" where
  "file_lseek host f ptr dir s =
     frontend_syscall host SYS_lseek (scast (kfd (files s ! f))) ptr (scast dir) 0 0 0 0 s"

section \<open>Frame and lookup facts\<close>

lemma set_refcnt_frame [simp, frame_simps]:
  "fds (set_refcnt f c s) = fds s"
  "requests (set_refcnt f c s) = requests s"
  "pmem (set_refcnt f c s) = pmem s"
  "first_free_paddr (set_refcnt f c s) = first_free_paddr s"
  "length (files (set_refcnt f c s)) = length (files s)"
  by (simp_all add: set_refcnt_def)

lemma set_kfd_frame [simp, frame_simps]:
  "fds (set_kfd f k s) = fds s"
  "requests (set_kfd f k s) = requests s"
  "pmem (set_kfd f k s) = pmem s"
  "first_free_paddr (set_kfd f k s) = first_free_paddr s"
  "length (files (set_kfd f k s)) = length (files s)"
  by (simp_all add: set_kfd_def)

lemma set_refcnt_set_refcnt [simp]: "set_refcnt f c (set_refcnt f d s) = set_refcnt f c s"
  by (cases "f < length (files s)") (simp_all add: set_refcnt_def list_update_beyond)

lemma set_refcnt_fds [simp]: "set_refcnt f c s\<lparr>fds := x\<rparr> = set_refcnt f c (s\<lparr>fds := x\<rparr>)"
  by (simp add: set_refcnt_def)

lemma refcnt_set_refcnt [simp]:
  "g < length (files s) \<Longrightarrow>
   refcnt (files (set_refcnt f c s) ! g) = (if g = f then c else refcnt (files s ! g))"
  by (simp add: set_refcnt_def)

lemma kfd_set_refcnt [simp]:
  "g < length (files s) \<Longrightarrow> kfd (files (set_refcnt f c s) ! g) = kfd (files s ! g)"
  by (cases "g = f") (simp_all add: set_refcnt_def)

lemma refcnt_set_kfd [simp]:
  "g < length (files s) \<Longrightarrow> refcnt (files (set_kfd f k s) ! g) = refcnt (files s ! g)"
  by (cases "g = f") (simp_all add: set_kfd_def)

lemma kfd_set_kfd [simp]:
  "g < length (files s) \<Longrightarrow>
   kfd (files (set_kfd f k s) ! g) = (if g = f then k else kfd (files s ! g))"
  by (simp add: set_kfd_def)

lemma frontend_syscall_frame [simp, frame_simps]:
  "files (snd (frontend_syscall host n a0 a1 a2 a3 a4 a5 a6 s)) = files s"
  "fds (snd (frontend_syscall host n a0 a1 a2 a3 a4 a5 a6 s)) = fds s"
  "first_free_paddr (snd (frontend_syscall host n a0 a1 a2 a3 a4 a5 a6 s)) = first_free_paddr s"
  "requests (snd (frontend_syscall host n a0 a1 a2 a3 a4 a5 a6 s)) =
     requests s @ [[n, a0, a1, a2, a3, a4, a5, a6]]"
  by (simp_all add: frontend_syscall_def Let_def split: prod.splits)

lemma fst_frontend_syscall [simp]:
  "fst (frontend_syscall host n a0 a1 a2 a3 a4 a5 a6 s) =
     fst (host (requests s) [n, a0, a1, a2, a3, a4, a5, a6])"
  by (simp add: frontend_syscall_def Let_def split: prod.splits)

lemma find_from_Some:
  "find_from i P xs = Some j \<longleftrightarrow>
     i \<le> j \<and> j < i + length xs \<and> P (xs ! (j - i)) \<and> (\<forall>k. i \<le> k \<and> k < j \<longrightarrow> \<not> P (xs ! (k - i)))"
proof (induction i P xs rule: find_from.induct)
  case (1 i P)
  then show ?case by auto
next
  case (2 i P x xs)
  show ?case
  proof (cases "P x")
    case True
    have "\<lbrakk>i < j; \<forall>k. i \<le> k \<and> k < j \<longrightarrow> \<not> P ((x # xs) ! (k - i))\<rbrakk> \<Longrightarrow> False"
      using True by (metis diff_self_eq_0 le_refl nth_Cons_0)
    with True show ?thesis by (fastforce simp: nth_Cons split: nat.splits)
  next
    case False
    have eq: "(x # xs) ! (k - i) = xs ! (k - Suc i)" if "Suc i \<le> k" for k
      using that by (simp add: nth_Cons' )
    have all: "(\<forall>k. i \<le> k \<and> k < j \<longrightarrow> \<not> P ((x # xs) ! (k - i))) \<longleftrightarrow>
          (\<forall>k. Suc i \<le> k \<and> k < j \<longrightarrow> \<not> P (xs ! (k - Suc i)))" (is "?l = ?r")
    proof
      assume ?l then show ?r by (metis Suc_leD eq)
    next
      assume r: ?r
      show ?l
      proof (intro allI impI)
        fix k assume "i \<le> k \<and> k < j"
        then show "\<not> P ((x # xs) ! (k - i))"
          using r False eq [of k] by (cases "k = i") auto
      qed
    qed
    show ?thesis
      using False "2.IH" [OF False] eq [of j] all
      by (cases "i = j") (auto simp: not_less_eq_eq)
  qed
qed

lemma find_from_None: "find_from i P xs = None \<longleftrightarrow> (\<forall>x \<in> set xs. \<not> P x)"
  by (induction i P xs rule: find_from.induct) auto

section \<open>The reference-count invariant\<close>

definition nrefs :: "'a kstate_scheme \<Rightarrow> nat \<Rightarrow> nat" where
  "nrefs s f = count_list (fds s) (Some f)"

text \<open>
  Every descriptor points to an entry of the table. The count of an entry is 0 when nobody
  refers to it, and otherwise one more than the number of its references: those of descriptors,
  and the \<^verbatim>\<open>b f\<close> references that kernel code holds (the reference \<^verbatim>\<open>file_openat\<close> and
  \<^verbatim>\<open>file_get\<close> return, and those of mapped regions).
\<close>

definition file_ok :: "'a kstate_scheme \<Rightarrow> nat \<Rightarrow> nat \<Rightarrow> bool" where
  "file_ok s b f \<longleftrightarrow>
     unat (refcnt (files s ! f)) = (if nrefs s f + b = 0 then 0 else 1 + nrefs s f + b)"

definition file_inv :: "(nat \<Rightarrow> nat) \<Rightarrow> 'a kstate_scheme \<Rightarrow> bool" where
  "file_inv b s \<longleftrightarrow>
     length (files s) = MAX_FILES \<and> length (fds s) = MAX_FDS \<and>
     (\<forall>p \<in> set (fds s). case p of None \<Rightarrow> True | Some f \<Rightarrow> f < MAX_FILES) \<and>
     (\<forall>f < MAX_FILES. file_ok s (b f) f)"

lemma nrefs_frame [simp]:
  "nrefs (set_refcnt f c s) g = nrefs s g"
  "nrefs (set_kfd f k s) g = nrefs s g"
  "nrefs (snd (frontend_syscall host n a0 a1 a2 a3 a4 a5 a6 s)) g = nrefs s g"
  by (simp_all add: nrefs_def)

lemma count_list_update:
  "i < length xs \<Longrightarrow>
   count_list (xs[i := y]) x + (if xs ! i = x then 1 else 0) =
   count_list xs x + (if y = x then 1 else 0)"
proof (induction xs arbitrary: i)
  case Nil
  then show ?case by simp
next
  case (Cons z zs)
  show ?case
  proof (cases i)
    case 0
    then show ?thesis by simp
  next
    case (Suc j)
    with Cons.prems Cons.IH [of j] show ?thesis by (simp split: if_splits)
  qed
qed

lemma nrefs_open_slot:
  "i < length (fds s) \<Longrightarrow> fds s ! i = None \<Longrightarrow>
   nrefs (s\<lparr>fds := (fds s)[i := Some f]\<rparr>) g = nrefs s g + (if g = f then 1 else 0)"
  using count_list_update [of i "fds s" "Some f" "Some g"] by (auto simp: nrefs_def)

lemma nrefs_close_slot:
  "i < length (fds s) \<Longrightarrow> fds s ! i = Some f \<Longrightarrow>
   nrefs s g = nrefs (s\<lparr>fds := (fds s)[i := None]\<rparr>) g + (if g = f then 1 else 0)"
  using count_list_update [of i "fds s" None "Some g"] by (auto simp: nrefs_def split: if_splits)

lemma nrefs_pos: "i < length (fds s) \<Longrightarrow> fds s ! i = Some f \<Longrightarrow> 0 < nrefs s f"
  unfolding nrefs_def by (metis count_list_0_iff gr0I nth_mem)

lemma file_inv_lengths:
  "file_inv b s \<Longrightarrow> length (files s) = MAX_FILES"
  "file_inv b s \<Longrightarrow> length (fds s) = MAX_FDS"
  by (simp_all add: file_inv_def)

lemma file_inv_ok: "file_inv b s \<Longrightarrow> f < MAX_FILES \<Longrightarrow> file_ok s (b f) f"
  by (simp add: file_inv_def)

lemma file_inv_fd:
  assumes inv: "file_inv b s" and i: "i < MAX_FDS" and fd: "fds s ! i = Some f"
  shows "f < MAX_FILES" and "0 < nrefs s f" and "unat (refcnt (files s ! f)) = 1 + nrefs s f + b f"
proof -
  from inv i have len: "i < length (fds s)" by (simp add: file_inv_def)
  then have "Some f \<in> set (fds s)" using fd by (metis nth_mem)
  with inv show f: "f < MAX_FILES" by (auto simp: file_inv_def)
  show pos: "0 < nrefs s f" by (rule nrefs_pos [OF len fd])
  from file_inv_ok [OF inv f] pos show "unat (refcnt (files s ! f)) = 1 + nrefs s f + b f"
    by (simp add: file_ok_def)
qed

text \<open>How the invariant moves when one count changes, or one descriptor.\<close>

lemma file_inv_set_refcnt:
  assumes "file_inv b s" and "f < MAX_FILES"
    and "unat c = (if nrefs s f + n = 0 then 0 else 1 + nrefs s f + n)"
  shows "file_inv (b(f := n)) (set_refcnt f c s)"
  using assms by (auto simp: file_inv_def file_ok_def)

lemma file_inv_set_kfd [simp]: "file_inv b (set_kfd f k s) \<longleftrightarrow> file_inv b s"
  by (auto simp: file_inv_def file_ok_def)

lemma file_inv_frontend [simp]:
  "file_inv b (snd (frontend_syscall host n a0 a1 a2 a3 a4 a5 a6 s)) \<longleftrightarrow> file_inv b s"
  by (auto simp: file_inv_def file_ok_def)

lemma file_inv_clear_slot:
  assumes inv: "file_inv b s" and i: "i < MAX_FDS" and fd: "fds s ! i = Some f"
  shows "file_inv (b(f := Suc (b f))) (s\<lparr>fds := (fds s)[i := None]\<rparr>)"
proof -
  have len: "i < length (fds s)" using inv i by (simp add: file_inv_def)
  show ?thesis
    unfolding file_inv_def
  proof (intro conjI ballI allI impI)
    fix p assume "p \<in> set (fds (s\<lparr>fds := (fds s)[i := None]\<rparr>))"
    then show "case p of None \<Rightarrow> True | Some g \<Rightarrow> g < MAX_FILES"
      using inv by (auto simp: file_inv_def dest!: subsetD [OF set_update_subset_insert])
  next
    fix g assume g: "g < MAX_FILES"
    from file_inv_ok [OF inv g] nrefs_close_slot [OF len fd, of g]
    show "file_ok (s\<lparr>fds := (fds s)[i := None]\<rparr>) ((b(f := Suc (b f))) g) g"
      by (auto simp: file_ok_def split: if_splits)
  qed (use inv in \<open>simp_all add: file_inv_def\<close>)
qed

lemma file_inv_fill_slot:
  assumes inv: "file_inv b s" and i: "i < MAX_FDS" and fd: "fds s ! i = None"
    and f: "f < MAX_FILES" and b: "b f = Suc n"
  shows "file_inv (b(f := n)) (s\<lparr>fds := (fds s)[i := Some f]\<rparr>)"
proof -
  have len: "i < length (fds s)" using inv i by (simp add: file_inv_def)
  show ?thesis
    unfolding file_inv_def
  proof (intro conjI ballI allI impI)
    fix p assume "p \<in> set (fds (s\<lparr>fds := (fds s)[i := Some f]\<rparr>))"
    then show "case p of None \<Rightarrow> True | Some g \<Rightarrow> g < MAX_FILES"
      using inv f by (auto simp: file_inv_def dest!: subsetD [OF set_update_subset_insert])
  next
    fix g assume g: "g < MAX_FILES"
    from file_inv_ok [OF inv g] nrefs_open_slot [OF len fd, of f g] b
    show "file_ok (s\<lparr>fds := (fds s)[i := Some f]\<rparr>) ((b(f := n)) g) g"
      by (auto simp: file_ok_def split: if_splits)
  qed (use inv in \<open>simp_all add: file_inv_def\<close>)
qed

section \<open>Every operation keeps the invariant\<close>

lemma u32_Suc: "unat (c::u32) + 1 < 2 ^ 32 \<Longrightarrow> unat (c + 1) = unat c + 1"
  by (simp add: unat_word_ariths)

lemma u32_pred: "0 < unat (c::u32) \<Longrightarrow> unat (c - 1) = unat c - 1"
proof -
  assume "0 < unat c"
  then have "1 \<le> c" by (simp add: word_le_nat_alt)
  from unat_sub_no_wrap [OF this] show ?thesis by simp
qed

lemma file_inv_borrow:
  assumes inv: "file_inv b s" and f: "f < MAX_FILES" and live: "refcnt (files s ! f) \<noteq> 0"
    and room: "unat (refcnt (files s ! f)) + 1 < 2 ^ 32"
  shows "file_inv (b(f := Suc (b f))) (set_refcnt f (refcnt (files s ! f) + 1) s)"
proof (rule file_inv_set_refcnt [OF inv f])
  from file_inv_ok [OF inv f] live u32_Suc [OF room]
  show "unat (refcnt (files s ! f) + 1) =
      (if nrefs s f + Suc (b f) = 0 then 0 else 1 + nrefs s f + Suc (b f))"
    by (auto simp: file_ok_def word_neq_0_unat split: if_splits)
qed

lemma file_incref_live:
  assumes "file_inv b s" and "f < MAX_FILES" and "refcnt (files s ! f) \<noteq> 0"
  shows "file_incref f s = Inr (set_refcnt f (refcnt (files s ! f) + 1) s)"
  using assms by (simp add: file_incref_def file_inv_def Let_def kassert_def word_neq_0_unat word_less_nat_alt)

text \<open>Giving a reference back: the last one releases the entry and closes the host's file.\<close>

definition dropped :: "host \<Rightarrow> nat \<Rightarrow> nat \<Rightarrow> 'a kstate_scheme \<Rightarrow> 'a kstate_scheme" where
  "dropped host f n s =
     (if n = 1 then snd (frontend_syscall host SYS_close (scast (kfd (files s ! f))) 0 0 0 0 0 0
                          (set_refcnt f 0 s))
      else set_refcnt f (refcnt (files s ! f) - 1) s)"

lemma file_decref_dropped:
  assumes inv: "file_inv b s" and f: "f < MAX_FILES" and bor: "0 < b f"
  shows "file_decref host f s = Inr (dropped host f (nrefs s f + b f) s)"
    and "file_inv (b(f := b f - 1)) (dropped host f (nrefs s f + b f) s)"
proof -
  let ?c = "refcnt (files s ! f)"
  have len: "f < length (files s)" using inv f by (simp add: file_inv_def)
  from file_inv_ok [OF inv f] bor have c: "unat ?c = 1 + nrefs s f + b f"
    by (simp add: file_ok_def)
  have c2: "?c = 2 \<longleftrightarrow> nrefs s f + b f = 1"
  proof -
    have "?c = 2 \<longleftrightarrow> unat ?c = 2" by (simp add: word_unat_eq_iff)
    with c show ?thesis by linarith
  qed
  show "file_decref host f s = Inr (dropped host f (nrefs s f + b f) s)"
    using len c2 by (auto simp: file_decref_def dropped_def Let_def)
  show "file_inv (b(f := b f - 1)) (dropped host f (nrefs s f + b f) s)"
  proof (cases "nrefs s f + b f = 1")
    case True
    with bor have "nrefs s f = 0" and "b f - 1 = 0" by auto
    then show ?thesis
      using file_inv_set_refcnt [OF inv f, of 0 0] True by (simp add: dropped_def)
  next
    case False
    then show ?thesis
      unfolding dropped_def if_not_P [OF False]
      using c bor u32_pred [of ?c] by (intro file_inv_set_refcnt [OF inv f]) auto
  qed
qed

lemma dropped_frame [simp]:
  "fds (dropped host f n s) = fds s"
  "first_free_paddr (dropped host f n s) = first_free_paddr s"
  "length (files (dropped host f n s)) = length (files s)"
  "nrefs (dropped host f n s) g = nrefs s g"
  "g < length (files s) \<Longrightarrow> kfd (files (dropped host f n s) ! g) = kfd (files s ! g)"
  "requests (dropped host f n s) = requests s @
     (if n = 1 then [[SYS_close, scast (kfd (files s ! f)), 0, 0, 0, 0, 0, 0]] else [])"
  by (simp_all add: dropped_def nrefs_def)

lemma file_get_Some:
  assumes "file_get fd s = (Some f, s')"
  shows "unat fd < MAX_FDS" and "fds s ! unat fd = Some f"
    and "s' = set_refcnt f (refcnt (files s ! f) + 1) s" and "refcnt (files s ! f) \<noteq> 0"
proof -
  from assms have nn: "0 \<le> sint fd" "sint fd < int MAX_FDS"
    by (auto simp: file_get_def split: if_splits)
  have "int (unat fd) = sint fd"
    using nn(1) by (rule sint_nonneg_unat)
  with nn show "unat fd < MAX_FDS" by linarith
qed (use assms in \<open>auto simp: file_get_def Let_def split: if_splits option.splits\<close>)

lemma file_get_live:
  assumes inv: "file_inv b s" and fd: "unat fd < MAX_FDS" and f: "fds s ! unat fd = Some f"
  shows "file_get fd s = (Some f, set_refcnt f (refcnt (files s ! f) + 1) s)"
proof -
  have sfd: "sint fd = int (unat fd)"
    by (rule sint_small) (use fd in \<open>simp add: MAX_FDS_def\<close>)
  have rng: "\<not> (sint fd < 0 \<or> int MAX_FDS \<le> sint fd)" using fd sfd by linarith
  show ?thesis
    unfolding file_get_def if_not_P [OF rng]
    using file_inv_fd [OF inv fd f] f by (auto simp: Let_def)
qed

lemma file_get_inv:
  assumes inv: "file_inv b s" and r: "file_get fd s = (Some f, s')"
    and room: "unat (refcnt (files s ! f)) + 1 < 2 ^ 32"
  shows "file_inv (b(f := Suc (b f))) s'" and "f < MAX_FILES"
proof -
  note g = file_get_Some [OF r]
  show f: "f < MAX_FILES" by (rule file_inv_fd(1) [OF inv g(1,2)])
  show "file_inv (b(f := Suc (b f))) s'"
    unfolding g(3) by (rule file_inv_borrow [OF inv f g(4) room])
qed

lemma file_get_None: "file_get fd s = (None, s') \<Longrightarrow> s' = s"
  by (auto simp: file_get_def Let_def split: if_splits option.splits)

lemma file_get_free_Some:
  assumes "file_get_free s = (Some f, s')"
  shows "f < length (files s)" and "refcnt (files s ! f) = 0" and "s' = set_refcnt f 2 s"
  using assms by (auto simp: file_get_free_def find_from_Some split: option.splits)

lemma file_get_free_inv:
  assumes inv: "file_inv b s" and r: "file_get_free s = (Some f, s')"
  shows "f < MAX_FILES" and "nrefs s f = 0" and "b f = 0" and "file_inv (b(f := 1)) s'"
    and "refcnt (files s' ! f) = 2"
proof -
  note g = file_get_free_Some [OF r]
  from g(1) inv show f: "f < MAX_FILES" by (simp add: file_inv_def)
  from file_inv_ok [OF inv f] g(2) show n: "nrefs s f = 0" and "b f = 0"
    by (auto simp: file_ok_def split: if_splits)
  from g(1) show "refcnt (files s' ! f) = 2" by (simp add: g(3))
  show "file_inv (b(f := 1)) s'"
    unfolding g(3) by (rule file_inv_set_refcnt [OF inv f]) (simp add: n)
qed

lemma file_dup_Some:
  assumes inv: "file_inv b s" and f: "f < MAX_FILES" and live: "refcnt (files s ! f) \<noteq> 0"
    and i: "find_from 0 (\<lambda>p. p = None) (fds s) = Some i"
  shows "file_dup f s = Inr (of_nat i, set_refcnt f (refcnt (files s ! f) + 1)
           (s\<lparr>fds := (fds s)[i := Some f]\<rparr>))"
  using assms
  by (simp add: file_dup_def file_incref_def file_inv_def word_neq_0_unat kassert_def Let_def
      word_less_nat_alt)

lemma file_dup_inv:
  assumes inv: "file_inv b s" and f: "f < MAX_FILES" and live: "refcnt (files s ! f) \<noteq> 0"
    and room: "unat (refcnt (files s ! f)) + 1 < 2 ^ 32"
    and r: "file_dup f s = Inr (i, s')"
  shows "file_inv b s'"
proof (cases "find_from 0 (\<lambda>p. p = None) (fds s)")
  case None
  with r inv show ?thesis by (simp add: file_dup_def)
next
  case (Some j)
  then have j: "j < MAX_FDS" and nj: "fds s ! j = None"
    using inv by (simp_all add: find_from_Some file_inv_def)
  let ?t = "set_refcnt f (refcnt (files s ! f) + 1) s"
  from file_dup_Some [OF inv f live Some] r
  have s': "s' = ?t\<lparr>fds := (fds ?t)[j := Some f]\<rparr>" by simp
  have "file_inv ((b(f := Suc (b f)))(f := b f)) s'"
    unfolding s'
    by (rule file_inv_fill_slot [OF file_inv_borrow [OF inv f live room]]) (use j nj f in simp_all)
  then show ?thesis by simp
qed

lemma fd_close_open:
  assumes inv: "file_inv b s" and fd: "unat fd < MAX_FDS" and f: "fds s ! unat fd = Some f"
    and room: "unat (refcnt (files s ! f)) + 1 < 2 ^ 32"
  defines "s1 \<equiv> s\<lparr>fds := (fds s)[unat fd := None]\<rparr>"
  shows "fd_close host fd s = Inr (0, dropped host f (nrefs s f + b f) s1)"
    and "file_inv b (dropped host f (nrefs s f + b f) s1)"
proof -
  let ?c = "refcnt (files s ! f)"
  let ?b1 = "b(f := Suc (b f))" and ?b2 = "b(f := Suc (Suc (b f)))"
  note c = file_inv_fd [OF inv fd f]
  have len: "f < length (files s)" using inv c(1) by (simp add: file_inv_def)
  have live: "?c \<noteq> 0" using c(3) by auto
  have lenfd: "unat fd < length (fds s)" using inv fd by (simp add: file_inv_def)
  have n1: "nrefs s f = nrefs s1 f + 1"
    using nrefs_close_slot [OF lenfd f, of f] by (simp add: s1_def)
  have inv1: "file_inv ?b1 s1"
    unfolding s1_def by (rule file_inv_clear_slot [OF inv fd f])
  have c1: "refcnt (files s1 ! f) = ?c" by (simp add: s1_def)
  have inv2: "file_inv ?b2 (set_refcnt f (?c + 1) s1)"
    using file_inv_borrow [OF inv1 c(1)] live room by (simp add: c1)
  have ne: "?c + 1 \<noteq> 2" using c(2,3) by auto
  have d: "file_decref host f s1 = Inr (dropped host f (nrefs s f + b f) s1)"
    using file_decref_dropped(1) [OF inv1 c(1)] n1 by simp
  note get = file_get_live [OF inv fd f]
  have "file_decref host f (set_refcnt f (?c + 1) s1) = Inr s1"
  proof -
    have "set_refcnt f ?c s1 = s1"
      by (simp add: set_refcnt_def s1_def)
    then show ?thesis using len ne by (simp add: file_decref_def Let_def s1_def)
  qed
  then show "fd_close host fd s = Inr (0, dropped host f (nrefs s f + b f) s1)"
    using d f by (simp add: fd_close_def get s1_def Let_def)
  have "?b1(f := ?b1 f - 1) = b" by auto
  then show "file_inv b (dropped host f (nrefs s f + b f) s1)"
    using file_decref_dropped(2) [OF inv1 c(1), of host] n1 by simp
qed

section \<open>Boot\<close>

definition boot_kstate :: "(u64 \<Rightarrow> u8) \<Rightarrow> u64 \<Rightarrow> kstate" where
  "boot_kstate m ffp =
     \<lparr>files = replicate MAX_FILES empty_file, fds = replicate MAX_FDS None, requests = [],
      pmem = m, first_free_paddr = ffp\<rparr>"

text \<open>The state after \<^verbatim>\<open>file_init\<close>: the three standard streams.\<close>

definition std_kstate :: "(u64 \<Rightarrow> u8) \<Rightarrow> u64 \<Rightarrow> kstate" where
  "std_kstate m ffp =
     \<lparr>files = [\<lparr>kfd = 0, refcnt = 3\<rparr>, \<lparr>kfd = 1, refcnt = 3\<rparr>, \<lparr>kfd = 2, refcnt = 3\<rparr>] @
        replicate 125 empty_file,
      fds = [Some 0, Some 1, Some 2] @ replicate 125 None, requests = [],
      pmem = m, first_free_paddr = ffp\<rparr>"

lemma replicate_128: "replicate 128 x = x # x # x # replicate 125 x"
  by (simp add: numeral_eq_Suc)

lemma replicate_125: "replicate 125 x = x # replicate 124 x"
  by (simp add: numeral_eq_Suc)

lemma file_init_boot: "file_init (boot_kstate m ffp) = Inr (std_kstate m ffp)"
  by (simp add: file_init_def file_init_one_def file_get_free_def file_dup_def file_incref_def
      boot_kstate_def std_kstate_def set_refcnt_def set_kfd_def MAX_FILES_def MAX_FDS_def
      replicate_128 empty_file_def Let_def)

lemma std_kstate_inv: "file_inv (\<lambda>f. if f < 3 then 1 else 0) (std_kstate m ffp)"
proof -
  have cnt: "count_list (replicate n None) (Some f) = 0" for n and f :: nat
    by (induction n) auto
  have nth: "([a, b, c] @ replicate 125 e) ! f =
        (if f = 0 then a else if f = 1 then b else if f = 2 then c else e)"
    if "f < 128" for f :: nat and a b c e :: file_t
  proof -
    consider "f = 0" | "f = 1" | "f = 2" | "3 \<le> f" by linarith
    then show ?thesis using that by cases (auto simp: nth_append)
  qed
  show ?thesis
    unfolding file_inv_def file_ok_def nrefs_def std_kstate_def
    by (auto simp: MAX_FILES_def MAX_FDS_def nth [simplified] cnt empty_file_def)
qed

section \<open>Properties\<close>

text \<open>
  (C3) \<^verbatim>\<open>file_dup\<close> installs the file at the lowest free descriptor, leaves every other
  descriptor as it was, and a \<^verbatim>\<open>file_get\<close> of the returned number yields that file; with no
  free descriptor it returns -1 and changes nothing.
\<close>

theorem file_dup_lowest_free:
  assumes inv: "file_inv b s" and f: "f < MAX_FILES" and live: "refcnt (files s ! f) \<noteq> 0"
    and room: "unat (refcnt (files s ! f)) + 1 < 2 ^ 32"
  shows "(None \<notin> set (fds s) \<and> file_dup f s = Inr (-1, s)) \<or>
    (\<exists>i s'. file_dup f s = Inr (of_nat i, s') \<and> i < MAX_FDS \<and> fds s ! i = None \<and>
       (\<forall>k < i. fds s ! k \<noteq> None) \<and> fds s' = (fds s)[i := Some f] \<and>
       fst (file_get (of_nat i) s') = Some f \<and> requests s' = requests s)"
proof (cases "find_from 0 (\<lambda>p. p = None) (fds s)")
  case None
  then have "None \<notin> set (fds s)" by (auto simp: find_from_None)
  with None show ?thesis by (simp add: file_dup_def)
next
  case (Some i)
  then have i: "i < length (fds s)" "fds s ! i = None" "\<forall>k < i. fds s ! k \<noteq> None"
    by (simp_all add: find_from_Some)
  let ?s' = "set_refcnt f (refcnt (files s ! f) + 1) (s\<lparr>fds := (fds s)[i := Some f]\<rparr>)"
  have i128: "i < MAX_FDS" using i inv by (simp add: file_inv_def)
  note r = file_dup_Some [OF inv f live Some]
  have ui: "unat (of_nat i :: u32) = i"
    using i128 by (simp add: MAX_FDS_def unat_of_nat take_bit_nat_eq_self)
  have "file_inv b ?s'" by (rule file_dup_inv [OF inv f live room r])
  then have "fst (file_get (of_nat i) ?s') = Some f"
    using file_get_live [of b ?s' "of_nat i" f] i128 i by (simp add: ui)
  with r i128 i show ?thesis by auto
qed

theorem file_dup_lowest_free_witness:
  "\<exists>i s'. file_dup 0 (std_kstate (\<lambda>_. 0) 0) = Inr (of_nat i, s') \<and>
      fst (file_get (of_nat i) s') = Some 0"
proof -
  have "0 < MAX_FILES" by (simp add: MAX_FILES_def)
  moreover have "refcnt (files (std_kstate (\<lambda>_. 0) 0) ! 0) = 3" by (simp add: std_kstate_def)
  moreover have "None \<in> set (fds (std_kstate (\<lambda>_. 0) 0))" by (simp add: std_kstate_def)
  ultimately show ?thesis
    using file_dup_lowest_free [OF std_kstate_inv [of "\<lambda>_. 0" 0], of 0] by auto
qed

text \<open>
  (C12) Closing an open descriptor frees it, returns 0 and keeps the reference-count invariant;
  the host is asked to close its file exactly when the descriptor held the last reference.
\<close>

theorem fd_close_releases_last:
  assumes inv: "file_inv b s" and fd: "unat fd < MAX_FDS" and f: "fds s ! unat fd = Some f"
    and room: "unat (refcnt (files s ! f)) + 1 < 2 ^ 32"
  shows "\<exists>s'. fd_close host fd s = Inr (0, s') \<and> fds s' = (fds s)[unat fd := None] \<and>
           file_inv b s' \<and>
           requests s' = requests s @
             (if nrefs s f + b f = 1
              then [[SYS_close, scast (kfd (files s ! f)), 0, 0, 0, 0, 0, 0]] else [])"
  using fd_close_open [OF inv fd f room, of host] by auto

theorem fd_close_releases_last_witness:
  "\<exists>s'. fd_close (\<lambda>_ _. (0, Map.empty)) 1 (std_kstate (\<lambda>_. 0) 0) = Inr (0, s') \<and>
      requests s' = []"
proof -
  have fd: "unat (1::u32) < MAX_FDS" by (simp add: MAX_FDS_def)
  have f: "fds (std_kstate (\<lambda>_. 0) 0) ! unat (1::u32) = Some 1" by (simp add: std_kstate_def)
  have r: "unat (refcnt (files (std_kstate (\<lambda>_. 0) 0) ! 1)) + 1 < 2 ^ 32"
    by (simp add: std_kstate_def)
  have n: "nrefs (std_kstate (\<lambda>_. 0) 0) 1 \<noteq> 0"
    by (simp add: nrefs_def std_kstate_def)
  show ?thesis
    using fd_close_releases_last [OF std_kstate_inv [of "\<lambda>_. 0" 0] fd f r, of "\<lambda>_ _. (0, Map.empty)"] n
    by (auto simp: std_kstate_def)
qed

text \<open>
  (C34) When the host refuses to open a file, \<^verbatim>\<open>file_openat\<close> returns the host's error and frees
  the table entry, and it sends a close request for whatever host descriptor the entry held
  before: that number belongs to an earlier file, not to the failed open. (The name is in memory:
  measuring it changes nothing.)
\<close>

theorem file_openat_error_closes_stale:
  assumes inv: "file_inv b s" and gf: "file_get_free s = (Some f, s1)" and slen: "slen fn s1 = Inr (n, s1)"
    and req: "req = [SYS_openat, scast dirfd, va2pa s fn, n + 1, scast flags, scast mode, 0, 0]"
    and neg: "sint (fst (host (requests s) req)) < 0"
  shows "\<exists>s'. file_openat host slen dirfd fn flags mode s = Inr (Inl (fst (host (requests s) req)), s') \<and>
     refcnt (files s' ! f) = 0 \<and>
     requests s' = requests s @ [req, [SYS_close, scast (kfd (files s ! f)), 0, 0, 0, 0, 0, 0]]"
proof -
  note g = file_get_free_Some [OF gf]
  have va: "va2pa s1 a = va2pa s a" for a by (simp add: g(3) va2pa_def)
  have rq: "requests s1 = requests s" by (simp add: g(3))
  show ?thesis
    using neg g(1)
    by (simp add: file_openat_def gf slen prod.case_eq_if Let_def file_decref_def va rq req [symmetric])
       (simp add: g(3))
qed

theorem file_openat_error_closes_stale_witness:
  "\<exists>s'. file_openat (\<lambda>_ _. (-2, Map.empty)) (\<lambda>_ s. Inr (1, s)) AT_FDCWD 16 0 0
        (std_kstate (\<lambda>_. 0) 0) = Inr (Inl (-2), s') \<and>
     last (requests s') = [SYS_close, -1, 0, 0, 0, 0, 0, 0]"
proof -
  let ?s = "std_kstate (\<lambda>_. 0) 0"
  have gf: "file_get_free ?s = (Some 3, set_refcnt 3 2 ?s)"
    by (simp add: file_get_free_def std_kstate_def empty_file_def replicate_125 numeral_3_eq_3)
  have k: "kfd (files ?s ! 3) = -1"
    by (simp add: std_kstate_def empty_file_def replicate_125)
  show ?thesis
    using file_openat_error_closes_stale
      [OF std_kstate_inv [of "\<lambda>_. 0" 0] gf, of "\<lambda>_ s. Inr (1, s)" 16 1 _ AT_FDCWD 0 0 "\<lambda>_ _. (-2, Map.empty)"] k
    by auto
qed

end
