(* ===== verification/Pk_Vm.thy ===== *)
theory Pk_Vm
  imports Pk_File
begin

text \<open>
  The virtual-memory manager of the proxy kernel, \<^verbatim>\<open>pk/mmap.c\<close>: three-level page tables, the
  table of mapped regions (\<^verbatim>\<open>vmr_t\<close>), page faults, and the system calls on mappings.

  Page-table pages live in \<^verbatim>\<open>pt_mem\<close>, a memory of 64-bit entries by byte address; the bytes of
  user pages live in \<^verbatim>\<open>pmem\<close> at their physical address. An entry of the page table that is not
  zero and has \<^verbatim>\<open>PTE_V\<close> clear is the address of a region. The functions whose name starts with
  two underscores in C carry the suffix \<^verbatim>\<open>_locked\<close> when an unlocked function of the same name
  exists, and lose the underscores otherwise. The translation cache is not modelled:
  \<^verbatim>\<open>flush_tlb\<close> does nothing.
\<close>

section \<open>State\<close>

record vmr_t =
  v_addr :: u64
  v_length :: u64
  v_file :: "nat option"
  v_offset :: u64
  v_refcnt :: u32
  v_prot :: u32

record elf_info =
  phent :: u32
  phnum :: u32
  is_supervisor :: u32
  phdr :: u64
  phdr_size :: u64
  bias :: u64
  entry :: u64
  brk_min :: u64
  brk :: u64
  brk_max :: u64
  mmap_max :: u64
  stack_top :: u64
  time0 :: u64
  cycle0 :: u64
  instret0 :: u64

text \<open>\<^verbatim>\<open>vmrs_page\<close> is the address of the page of regions, 0 while \<^verbatim>\<open>vmrs\<close> is null.\<close>

record vmstate = kstate +
  pt_mem :: "u64 \<Rightarrow> u64"
  root_page_table :: u64
  vmrs_page :: u64
  vmrs :: "vmr_t list"
  first_free_page :: u64
  next_free_page :: u64
  free_pages :: u64
  demand_paging :: bool
  current :: elf_info
  vm_lock :: bool
  satp :: u64

definition RISCV_PGSHIFT :: nat where "RISCV_PGSHIFT = 12"
definition RISCV_PGSIZE :: u64 where "RISCV_PGSIZE = 4096"
definition RISCV_PGLEVEL_BITS :: nat where "RISCV_PGLEVEL_BITS = 9"
definition VA_BITS :: nat where "VA_BITS = 39"

definition PTE_V :: u64 where "PTE_V = 0x001"
definition PTE_R :: u64 where "PTE_R = 0x002"
definition PTE_W :: u64 where "PTE_W = 0x004"
definition PTE_X :: u64 where "PTE_X = 0x008"
definition PTE_U :: u64 where "PTE_U = 0x010"
definition PTE_A :: u64 where "PTE_A = 0x040"
definition PTE_D :: u64 where "PTE_D = 0x080"
definition PTE_PPN_SHIFT :: nat where "PTE_PPN_SHIFT = 10"

definition MAP_PRIVATE :: u32 where "MAP_PRIVATE = 0x2"
definition MAP_FIXED :: u32 where "MAP_FIXED = 0x10"
definition MAP_ANONYMOUS :: u32 where "MAP_ANONYMOUS = 0x20"
definition MAP_POPULATE :: u32 where "MAP_POPULATE = 0x8000"

lemmas pg_defs = RISCV_PGSHIFT_def RISCV_PGSIZE_def RISCV_PGLEVEL_BITS_def VA_BITS_def
lemmas pte_defs = PTE_V_def PTE_R_def PTE_W_def PTE_X_def PTE_U_def PTE_A_def PTE_D_def
  PTE_PPN_SHIFT_def
lemmas prot_defs = PROT_READ_def PROT_WRITE_def PROT_EXEC_def
lemmas map_defs = MAP_PRIVATE_def MAP_FIXED_def MAP_ANONYMOUS_def MAP_POPULATE_def

text \<open>The number of 40-byte regions in one page.\<close>

definition vmr_size :: u64 where "vmr_size = 40"
definition MAX_VMR :: nat where "MAX_VMR = 102"

definition zero_vmr :: vmr_t where
  "zero_vmr = \<lparr>v_addr = 0, v_length = 0, v_file = None, v_offset = 0, v_refcnt = 0, v_prot = 0\<rparr>"

section \<open>Loops over pages\<close>

text \<open>
  \<^verbatim>\<open>for (uintptr_t a = ...; a < e; a += RISCV_PGSIZE)\<close>. Where the counter would wrap, the run
  ends in \<^const>\<open>AddrWrap\<close>.
\<close>

function page_loop :: "(u64 \<Rightarrow> 's \<Rightarrow> 's res) \<Rightarrow> u64 \<Rightarrow> u64 \<Rightarrow> 's \<Rightarrow> 's res" where
  "page_loop body e a s =
     (if a < e then
        bind_res (body a s)
          (\<lambda>s'. if a + RISCV_PGSIZE < a then Inl AddrWrap
                else page_loop body e (a + RISCV_PGSIZE) s')
      else Inr s)"
  by pat_completeness auto

lemma pgsize_step: "\<not> a + RISCV_PGSIZE < a \<Longrightarrow> unat (a + RISCV_PGSIZE) = unat a + 4096"
proof -
  assume "\<not> a + RISCV_PGSIZE < a"
  then have "a \<le> a + RISCV_PGSIZE" by simp
  then have "unat (a + RISCV_PGSIZE) = unat a + unat RISCV_PGSIZE" by (rule unat_plus_simple [THEN iffD1])
  then show ?thesis by (simp add: RISCV_PGSIZE_def)
qed

termination page_loop
proof (relation "measure (\<lambda>(body, e, a, s). unat e - unat a)", goal_cases)
  case 1
  show ?case by simp
next
  case (2 body e a s s')
  then show ?case using pgsize_step [of a] by (simp add: word_less_nat_alt)
qed

declare page_loop.simps [simp del]

section \<open>Pages, regions, page-table entries\<close>

definition page_alloc :: "vmstate \<Rightarrow> (u64 \<times> vmstate) res" where
  "page_alloc s =
     kassert (next_free_page s \<noteq> free_pages s)
       (let addr = first_free_page s + RISCV_PGSIZE * next_free_page s
        in Inr (addr, s\<lparr>next_free_page := next_free_page s + 1,
                        pt_mem := (\<lambda>a. if a - addr < RISCV_PGSIZE then 0 else pt_mem s a)\<rparr>))"

definition spinlock_lock :: "vmstate \<Rightarrow> vmstate res" where
  "spinlock_lock s = (if vm_lock s then Inl Deadlock else Inr (s\<lparr>vm_lock := True\<rparr>))"

definition spinlock_unlock :: "vmstate \<Rightarrow> vmstate" where
  "spinlock_unlock s = s\<lparr>vm_lock := False\<rparr>"

definition locked :: "(vmstate \<Rightarrow> ('b \<times> vmstate) res) \<Rightarrow> vmstate \<Rightarrow> ('b \<times> vmstate) res" where
  "locked op s =
     bind_res (spinlock_lock s) (\<lambda>s. bind_res (op s) (\<lambda>(r, s). Inr (r, spinlock_unlock s)))"

definition vmrs_init :: "vmstate \<Rightarrow> vmstate res" where
  "vmrs_init s =
     (if vmrs_page s = 0 then
        bind_res (spinlock_lock s)
          (\<lambda>s. bind_res
            (if vmrs_page s = 0
             then bind_res (page_alloc s)
                    (\<lambda>(page, s). Inr (s\<lparr>vmrs_page := page, vmrs := replicate MAX_VMR zero_vmr\<rparr>))
             else Inr s)
            (\<lambda>s. Inr (spinlock_unlock s)))
      else Inr s)"

definition vmr_alloc ::
  "u64 \<Rightarrow> u64 \<Rightarrow> nat option \<Rightarrow> u64 \<Rightarrow> u32 \<Rightarrow> u32 \<Rightarrow> vmstate \<Rightarrow> (nat option \<times> vmstate) res" where
  "vmr_alloc addr len file offset cnt prot s =
     bind_res (vmrs_init s)
       (\<lambda>s. case find_from 0 (\<lambda>v. v_refcnt v = 0) (vmrs s) of
          None \<Rightarrow> Inr (None, s)
        | Some i \<Rightarrow>
            bind_res (case file of None \<Rightarrow> Inr s | Some f \<Rightarrow> file_incref f s)
              (\<lambda>s. Inr (Some i,
                 s\<lparr>vmrs := (vmrs s)[i := \<lparr>v_addr = addr, v_length = len, v_file = file,
                     v_offset = offset, v_refcnt = cnt, v_prot = prot\<rparr>]\<rparr>)))"

definition vmr_decref :: "host \<Rightarrow> nat \<Rightarrow> u32 \<Rightarrow> vmstate \<Rightarrow> vmstate res" where
  "vmr_decref host i dec s =
     (let v = vmrs s ! i;
          c = v_refcnt v - dec;
          s1 = s\<lparr>vmrs := (vmrs s)[i := v\<lparr>v_refcnt := c\<rparr>]\<rparr>
      in if c = 0 then
           (case v_file v of None \<Rightarrow> Inr s1 | Some f \<Rightarrow> file_decref host f s1)
         else Inr s1)"

text \<open>A region's address as a page-table entry, and the region an entry points to.\<close>

definition vmr_ptr :: "vmstate \<Rightarrow> nat \<Rightarrow> u64" where
  "vmr_ptr s i = vmrs_page s + vmr_size * of_nat i"

definition vmr_of :: "vmstate \<Rightarrow> u64 \<Rightarrow> nat res" where
  "vmr_of s p =
     (let i = unat ((p - vmrs_page s) div vmr_size)
      in if i < length (vmrs s) \<and> vmr_ptr s i = p then Inr i else Inl BadAccess)"

definition pte_ppn :: "u64 \<Rightarrow> u64" where
  "pte_ppn pte = drop_bit PTE_PPN_SHIFT pte"

definition ppn :: "u64 \<Rightarrow> u64" where
  "ppn addr = drop_bit RISCV_PGSHIFT addr"

definition pt_idx :: "u64 \<Rightarrow> nat \<Rightarrow> u64" where
  "pt_idx addr level =
     drop_bit (RISCV_PGLEVEL_BITS * level + RISCV_PGSHIFT) addr AND (push_bit RISCV_PGLEVEL_BITS 1 - 1)"

definition pte_create :: "u64 \<Rightarrow> u64 \<Rightarrow> u64" where
  "pte_create n type = push_bit PTE_PPN_SHIFT n OR PTE_V OR type"

definition ptd_create :: "u64 \<Rightarrow> u64" where
  "ptd_create n = pte_create n PTE_V"

definition set_pte :: "u64 \<Rightarrow> u64 \<Rightarrow> vmstate \<Rightarrow> vmstate" where
  "set_pte p e s = s\<lparr>pt_mem := (pt_mem s)(p := e)\<rparr>"

section \<open>Page-table walks\<close>

text \<open>
  The loop of \<^verbatim>\<open>__walk_internal\<close> from level \<^verbatim>\<open>i\<close> and table \<^verbatim>\<open>t\<close> down: the address of the leaf
  entry (\<^const>\<open>Inr\<close>) or of the first entry that is not valid (\<^const>\<open>Inl\<close>).
\<close>

fun walk_loop :: "(u64 \<Rightarrow> u64) \<Rightarrow> u64 \<Rightarrow> nat \<Rightarrow> u64 \<Rightarrow> u64 + u64" where
  "walk_loop m addr 0 t = Inr (t + 8 * pt_idx addr 0)"
| "walk_loop m addr (Suc i) t =
     (let p = t + 8 * pt_idx addr (Suc i)
      in if m p AND PTE_V = 0 then Inl p
         else walk_loop m addr i (push_bit RISCV_PGSHIFT (pte_ppn (m p))))"

definition walk_internal :: "u64 \<Rightarrow> vmstate \<Rightarrow> u64 + u64" where
  "walk_internal addr s =
     walk_loop (pt_mem s) addr ((VA_BITS - RISCV_PGSHIFT) div RISCV_PGLEVEL_BITS - 1)
       (root_page_table s)"

definition walk :: "u64 \<Rightarrow> vmstate \<Rightarrow> u64 option" where
  "walk addr s = (case walk_internal addr s of Inl _ \<Rightarrow> None | Inr p \<Rightarrow> Some p)"

text \<open>
  \<^verbatim>\<open>__walk_create\<close> and \<^verbatim>\<open>__continue_walk_create\<close> call each other once per missing table; a walk
  meets at most two.
\<close>

fun walk_create_fuel :: "nat \<Rightarrow> u64 \<Rightarrow> vmstate \<Rightarrow> (u64 \<times> vmstate) res" where
  "walk_create_fuel 0 addr s = Inl OutOfFuel"
| "walk_create_fuel (Suc n) addr s =
     (case walk_internal addr s of
        Inr p \<Rightarrow> Inr (p, s)
      | Inl p \<Rightarrow>
          bind_res (page_alloc s)
            (\<lambda>(page, s1). walk_create_fuel n addr (set_pte p (ptd_create (ppn page)) s1)))"

definition walk_create :: "u64 \<Rightarrow> vmstate \<Rightarrow> (u64 \<times> vmstate) res" where
  "walk_create = walk_create_fuel 3"

definition va_avail :: "u64 \<Rightarrow> vmstate \<Rightarrow> bool" where
  "va_avail vaddr s = (case walk vaddr s of None \<Rightarrow> True | Some pte \<Rightarrow> pt_mem s pte = 0)"

text \<open>\<^verbatim>\<open>__vm_alloc\<close>: the inner loop scans a candidate range downwards from its last page.\<close>

function scan_down :: "vmstate \<Rightarrow> u64 \<Rightarrow> u64 \<Rightarrow> u64 res" where
  "scan_down s first a =
     (if first < a \<and> va_avail a s then
        if a < RISCV_PGSIZE then Inl AddrWrap else scan_down s first (a - RISCV_PGSIZE)
      else Inr a)"
  by pat_completeness auto

termination scan_down
proof (relation "measure (\<lambda>(s, first, a). unat a)", goal_cases)
  case 1
  show ?case by simp
next
  case (2 s first a)
  then have "RISCV_PGSIZE \<le> a" by simp
  from unat_sub_no_wrap [OF this] 2 show ?case
    by (simp add: RISCV_PGSIZE_def word_less_nat_alt)
qed

function vm_alloc_loop :: "vmstate \<Rightarrow> u64 \<Rightarrow> u64 \<Rightarrow> u64 \<Rightarrow> u64 res" where
  "vm_alloc_loop s npage e a =
     (if a \<le> e then
        if \<not> va_avail a s then
          if a + RISCV_PGSIZE < a then Inl AddrWrap else vm_alloc_loop s npage e (a + RISCV_PGSIZE)
        else
          bind_res (scan_down s a (a + (npage - 1) * RISCV_PGSIZE))
            (\<lambda>a'. if a < a' then
                    if a' + RISCV_PGSIZE < a' then Inl AddrWrap
                    else vm_alloc_loop s npage e (a' + RISCV_PGSIZE)
                  else Inr a')
      else Inr 0)"
  by pat_completeness auto

termination vm_alloc_loop
proof (relation "measure (\<lambda>(s, npage, e, a). 2 ^ 64 - unat a)", goal_cases)
  case 1
  show ?case by simp
next
  case (2 s npage e a)
  have "unat a < 2 ^ 64" using unsigned_less [of a, where 'a = nat] by simp
  with 2 show ?case using pgsize_step [of a] by simp
next
  case (3 s npage e a a')
  have "unat a < 2 ^ 64" using unsigned_less [of a, where 'a = nat] by simp
  with 3 show ?case using pgsize_step [of a'] by (simp add: word_less_nat_alt)
qed

declare scan_down.simps [simp del] vm_alloc_loop.simps [simp del]

definition vm_alloc :: "u64 \<Rightarrow> vmstate \<Rightarrow> u64 res" where
  "vm_alloc npage s =
     (let start = brk (current s); e = mmap_max (current s) - npage * RISCV_PGSIZE
      in vm_alloc_loop s npage e start)"

section \<open>Page faults\<close>

definition prot_to_type :: "u32 \<Rightarrow> bool \<Rightarrow> u64" where
  "prot_to_type prot user =
     (let pte = 0;
          pte = (if prot AND PROT_READ \<noteq> 0 then pte OR PTE_R OR PTE_A else pte);
          pte = (if prot AND PROT_WRITE \<noteq> 0 then pte OR PTE_W OR PTE_D else pte);
          pte = (if prot AND PROT_EXEC \<noteq> 0 then pte OR PTE_X OR PTE_A else pte);
          pte = (if pte = 0 then PTE_R else pte)
      in if user then pte OR PTE_U else pte)"

definition valid_user_range :: "u64 \<Rightarrow> u64 \<Rightarrow> vmstate \<Rightarrow> bool" where
  "valid_user_range vaddr len s =
     (if vaddr + len < vaddr then False else vaddr + len \<le> mmap_max (current s))"

text \<open>
  A kernel access to virtual memory: the hardware translates it when the entry is valid, has
  \<^verbatim>\<open>PTE_R\<close>, and \<^verbatim>\<open>PTE_W\<close> for a store (an entry with \<^verbatim>\<open>PTE_W\<close> alone is reserved and faults).
  Otherwise it traps to \<^verbatim>\<open>handle_page_fault\<close>, the argument \<^verbatim>\<open>handler\<close>, and is repeated.
\<close>

definition accessible :: "u64 \<Rightarrow> u32 \<Rightarrow> vmstate \<Rightarrow> bool" where
  "accessible a prot s =
     (case walk a s of
        None \<Rightarrow> False
      | Some p \<Rightarrow> pt_mem s p AND PTE_V \<noteq> 0 \<and> pt_mem s p AND PTE_R \<noteq> 0 \<and>
                  (prot AND PROT_WRITE \<noteq> 0 \<longrightarrow> pt_mem s p AND PTE_W \<noteq> 0))"

type_synonym handler = "u64 \<Rightarrow> u32 \<Rightarrow> vmstate \<Rightarrow> (u32 \<times> vmstate) res"

definition touch :: "handler \<Rightarrow> u32 \<Rightarrow> u64 \<Rightarrow> vmstate \<Rightarrow> vmstate res" where
  "touch handler prot a s =
     (if accessible a prot s then Inr s
      else bind_res (handler a (if prot AND PROT_WRITE \<noteq> 0 then PROT_WRITE else PROT_READ) s)
             (\<lambda>(ret, s). if ret \<noteq> 0 then Inl (Panic ''segfault'')
                         else if accessible a prot s then Inr s else Inl Livelock))"

definition populate_with :: "handler \<Rightarrow> vmstate populate" where
  "populate_with handler start n prot =
     page_loop (touch handler prot) (start + n) (ROUNDDOWN start RISCV_PGSIZE)"

definition memset0 :: "u64 \<Rightarrow> u64 \<Rightarrow> vmstate \<Rightarrow> vmstate" where
  "memset0 pa n s = s\<lparr>pmem := (\<lambda>a. if a - pa < n then 0 else pmem s a)\<rparr>"

text \<open>The branch of \<^verbatim>\<open>__handle_page_fault\<close> for an entry that points to a region.\<close>

definition page_in :: "host \<Rightarrow> vmstate populate \<Rightarrow> u64 \<Rightarrow> u64 \<Rightarrow> vmstate \<Rightarrow> vmstate res" where
  "page_in host populate vaddr pte s =
     bind_res (vmr_of s (pt_mem s pte))
       (\<lambda>i. let n = drop_bit RISCV_PGSHIFT vaddr + first_free_paddr s div RISCV_PGSIZE;
                pa = push_bit RISCV_PGSHIFT n;
                v = vmrs s ! i;
                s1 = set_pte pte (pte_create n (prot_to_type (PROT_READ OR PROT_WRITE) False)) s
            in bind_res
                 (case v_file v of
                    Some f \<Rightarrow>
                      (let flen = min RISCV_PGSIZE (v_length v - (vaddr - v_addr v))
                       in bind_res
                            (file_pread host populate f vaddr flen (vaddr - v_addr v + v_offset v) s1)
                            (\<lambda>(ret, s2). kassert (0 < sint ret)
                               (Inr (if sint ret < 4096
                                     then memset0 (pa + ret) (RISCV_PGSIZE - ret) s2 else s2))))
                  | None \<Rightarrow> Inr (memset0 pa RISCV_PGSIZE s1))
                 (\<lambda>s2. bind_res (vmr_decref host i 1 s2)
                    (\<lambda>s3. Inr (set_pte pte
                       (pte_create n (prot_to_type (v_prot (vmrs s3 ! i)) True)) s3))))"

text \<open>The bound is on the nesting of page faults, one inside the handling of another.\<close>

fun handle_page_fault_fuel :: "nat \<Rightarrow> host \<Rightarrow> handler" where
  "handle_page_fault_fuel 0 host vaddr prot s = Inl OutOfFuel"
| "handle_page_fault_fuel (Suc n) host vaddr prot s =
     (let vpn = drop_bit RISCV_PGSHIFT vaddr;
          va = push_bit RISCV_PGSHIFT vpn
      in case walk va s of
           None \<Rightarrow> Inr (-1, s)
         | Some pte \<Rightarrow>
             if pt_mem s pte = 0 \<or> \<not> valid_user_range va 1 s then Inr (-1, s)
             else
               bind_res
                 (if pt_mem s pte AND PTE_V = 0 then
                    page_in host
                      (populate_with (\<lambda>a p. locked (handle_page_fault_fuel n host a p))) va pte s
                  else Inr s)
                 (\<lambda>s1. let perms = pte_create 0 (prot_to_type prot True)
                       in if pt_mem s1 pte AND perms \<noteq> perms then Inr (-1, s1) else Inr (0, s1)))"

definition handle_page_fault_locked :: "host \<Rightarrow> handler" where
  "handle_page_fault_locked = handle_page_fault_fuel 2"

definition handle_page_fault :: "host \<Rightarrow> handler" where
  "handle_page_fault host vaddr prot = locked (handle_page_fault_locked host vaddr prot)"

definition populate_mapping :: "host \<Rightarrow> vmstate populate" where
  "populate_mapping host = populate_with (handle_page_fault host)"

section \<open>Mapping and unmapping\<close>

definition munmap_page :: "host \<Rightarrow> u64 \<Rightarrow> vmstate \<Rightarrow> vmstate res" where
  "munmap_page host a s =
     (case walk a s of
        None \<Rightarrow> Inr s
      | Some pte \<Rightarrow>
          if pt_mem s pte = 0 then Inr s
          else
            bind_res
              (if pt_mem s pte AND PTE_V = 0
               then bind_res (vmr_of s (pt_mem s pte)) (\<lambda>i. vmr_decref host i 1 s)
               else Inr s)
              (\<lambda>s1. Inr (set_pte pte 0 s1)))"

definition do_munmap_locked :: "host \<Rightarrow> u64 \<Rightarrow> u64 \<Rightarrow> vmstate \<Rightarrow> vmstate res" where
  "do_munmap_locked host addr len = page_loop (munmap_page host) (addr + len) addr"

definition mmap_page :: "host \<Rightarrow> nat \<Rightarrow> u64 \<Rightarrow> vmstate \<Rightarrow> vmstate res" where
  "mmap_page host v a s =
     bind_res (walk_create a s)
       (\<lambda>(pte, s1).
          bind_res (if pt_mem s1 pte \<noteq> 0 then do_munmap_locked host a RISCV_PGSIZE s1 else Inr s1)
            (\<lambda>s2. Inr (set_pte pte (vmr_ptr s2 v) s2)))"

definition fault_page :: "host \<Rightarrow> u32 \<Rightarrow> u64 \<Rightarrow> vmstate \<Rightarrow> vmstate res" where
  "fault_page host prot a s =
     bind_res (handle_page_fault_locked host a prot s) (\<lambda>(ret, s). kassert (ret = 0) (Inr s))"

text \<open>The part of \<^verbatim>\<open>__do_mmap\<close> after the address is chosen, then the whole.\<close>

definition mmap_at ::
  "host \<Rightarrow> u64 \<Rightarrow> u64 \<Rightarrow> u64 \<Rightarrow> u32 \<Rightarrow> u32 \<Rightarrow> nat option \<Rightarrow> u64 \<Rightarrow> vmstate \<Rightarrow> (u64 \<times> vmstate) res" where
  "mmap_at host addr len npage prot flags f offset s =
     bind_res (vmr_alloc addr len f offset (ucast npage) prot s)
       (\<lambda>(r, s). case r of
          None \<Rightarrow> Inr (-1, s)
        | Some v \<Rightarrow>
            bind_res (page_loop (mmap_page host v) (addr + len) addr s)
              (\<lambda>s. bind_res
                 (if \<not> demand_paging s \<or> flags AND MAP_POPULATE \<noteq> 0
                  then page_loop (fault_page host prot) (addr + len) addr s else Inr s)
                 (\<lambda>s. Inr (addr, s))))"

definition do_mmap_locked ::
  "host \<Rightarrow> u64 \<Rightarrow> u64 \<Rightarrow> u32 \<Rightarrow> u32 \<Rightarrow> nat option \<Rightarrow> u64 \<Rightarrow> vmstate \<Rightarrow> (u64 \<times> vmstate) res" where
  "do_mmap_locked host addr len prot flags f offset s =
     (let npage = (len - 1) div RISCV_PGSIZE + 1
      in if flags AND MAP_FIXED \<noteq> 0 then
           if addr AND (RISCV_PGSIZE - 1) \<noteq> 0 \<or> \<not> valid_user_range addr len s then Inr (-1, s)
           else mmap_at host addr len npage prot flags f offset s
         else
           bind_res (vm_alloc npage s)
             (\<lambda>addr. if addr = 0 then Inr (-1, s)
                     else mmap_at host addr len npage prot flags f offset s))"

definition do_munmap :: "host \<Rightarrow> u64 \<Rightarrow> u64 \<Rightarrow> vmstate \<Rightarrow> (u64 \<times> vmstate) res" where
  "do_munmap host addr len s =
     (if addr AND (RISCV_PGSIZE - 1) \<noteq> 0 \<or> \<not> valid_user_range addr len s then Inr (- EINVAL, s)
      else locked (\<lambda>s. bind_res (do_munmap_locked host addr len s) (\<lambda>s. Inr (0, s))) s)"

definition set_current :: "(elf_info \<Rightarrow> elf_info) \<Rightarrow> vmstate \<Rightarrow> vmstate" where
  "set_current upd s = s\<lparr>current := upd (current s)\<rparr>"

definition do_mmap ::
  "host \<Rightarrow> u64 \<Rightarrow> u64 \<Rightarrow> u32 \<Rightarrow> u32 \<Rightarrow> u32 \<Rightarrow> u64 \<Rightarrow> vmstate \<Rightarrow> (u64 \<times> vmstate) res" where
  "do_mmap host addr len prot flags fd offset s =
     (if flags AND MAP_PRIVATE = 0 \<or> len = 0 \<or> offset AND (RISCV_PGSIZE - 1) \<noteq> 0
      then Inr (- EINVAL, s)
      else
        let (f, s1) = (if flags AND MAP_ANONYMOUS = 0 then file_get fd s else (None, s))
        in if flags AND MAP_ANONYMOUS = 0 \<and> f = None then Inr (- EBADF, s1)
           else
             bind_res
               (locked (\<lambda>s. bind_res (do_mmap_locked host addr len prot flags f offset s)
                  (\<lambda>(addr, s). Inr (addr,
                     if addr < brk_max (current s) then set_current (brk_max_update (\<lambda>_. addr)) s
                     else s))) s1)
               (\<lambda>(addr, s). bind_res (case f of None \<Rightarrow> Inr s | Some f \<Rightarrow> file_decref host f s)
                  (\<lambda>s. Inr (addr, s))))"

section \<open>Program break, protection, initialisation\<close>

definition do_brk_locked :: "host \<Rightarrow> u64 \<Rightarrow> vmstate \<Rightarrow> (u64 \<times> vmstate) res" where
  "do_brk_locked host addr s =
     (let newbrk = (if addr < brk_min (current s) then brk_min (current s)
                    else if brk_max (current s) < addr then brk_max (current s) else addr);
          s1 = (if brk (current s) = 0
                then set_current (brk_update (\<lambda>_. ROUNDUP (brk_min (current s)) RISCV_PGSIZE)) s
                else s);
          newbrk_page = ROUNDUP newbrk RISCV_PGSIZE;
          b = brk (current s1)
      in bind_res
           (if newbrk_page < b then do_munmap_locked host newbrk_page (b - newbrk_page) s1
            else if b < newbrk_page then
              bind_res (do_mmap_locked host b (newbrk_page - b) (-1)
                          (MAP_FIXED OR MAP_PRIVATE OR MAP_ANONYMOUS) None 0 s1)
                (\<lambda>(r, s). kassert (r = b) (Inr s))
            else Inr s1)
           (\<lambda>s. Inr (newbrk, set_current (brk_update (\<lambda>_. newbrk_page)) s)))"

definition do_brk :: "host \<Rightarrow> u64 \<Rightarrow> vmstate \<Rightarrow> (u64 \<times> vmstate) res" where
  "do_brk host addr = locked (do_brk_locked host addr)"

definition do_mremap :: "u64 \<Rightarrow> u64 \<Rightarrow> u64 \<Rightarrow> u32 \<Rightarrow> u64" where
  "do_mremap addr old_size new_size flags = - ENOSYS"

text \<open>One page of \<^verbatim>\<open>do_mprotect\<close>: \<^const>\<open>Inl\<close> is the error the loop stops with.\<close>

definition mprotect_page :: "u32 \<Rightarrow> u64 \<Rightarrow> vmstate \<Rightarrow> (u64 + vmstate) res" where
  "mprotect_page prot a s =
     (case walk a s of
        None \<Rightarrow> Inr (Inl (- ENOMEM))
      | Some pte \<Rightarrow>
          let e = pt_mem s pte
          in if e = 0 then Inr (Inl (- ENOMEM))
             else if e AND PTE_V = 0 then
               bind_res (vmr_of s e)
                 (\<lambda>i. let v = vmrs s ! i
                      in if (v_prot v XOR prot) AND NOT (v_prot v) \<noteq> 0 then Inr (Inl (- EACCES))
                         else Inr (Inr (s\<lparr>vmrs := (vmrs s)[i := v\<lparr>v_prot := prot\<rparr>]\<rparr>)))
             else if e AND PTE_U = 0 \<or> (prot AND PROT_READ \<noteq> 0 \<and> e AND PTE_R = 0) \<or>
                     (prot AND PROT_WRITE \<noteq> 0 \<and> e AND PTE_W = 0) \<or>
                     (prot AND PROT_EXEC \<noteq> 0 \<and> e AND PTE_X = 0)
             then Inr (Inl (- EACCES))
             else Inr (Inr (set_pte pte (pte_create (pte_ppn e) (prot_to_type prot True)) s)))"

function mprotect_loop :: "u32 \<Rightarrow> u64 \<Rightarrow> u64 \<Rightarrow> vmstate \<Rightarrow> (u64 \<times> vmstate) res" where
  "mprotect_loop prot e a s =
     (if a < e then
        bind_res (mprotect_page prot a s)
          (\<lambda>r. case r of
             Inl err \<Rightarrow> Inr (err, s)
           | Inr s' \<Rightarrow> if a + RISCV_PGSIZE < a then Inl AddrWrap
                       else mprotect_loop prot e (a + RISCV_PGSIZE) s')
      else Inr (0, s))"
  by pat_completeness auto

termination mprotect_loop
proof (relation "measure (\<lambda>(prot, e, a, s). unat e - unat a)", goal_cases)
  case 1
  show ?case by simp
next
  case (2 prot e a s r s')
  then show ?case using pgsize_step [of a] by (simp add: word_less_nat_alt)
qed

declare mprotect_loop.simps [simp del]

definition do_mprotect :: "u64 \<Rightarrow> u64 \<Rightarrow> u32 \<Rightarrow> vmstate \<Rightarrow> (u64 \<times> vmstate) res" where
  "do_mprotect addr len prot s =
     (if addr AND (RISCV_PGSIZE - 1) \<noteq> 0 then Inr (- EINVAL, s)
      else locked (mprotect_loop prot (addr + len) addr) s)"

fun map_kernel_loop :: "nat \<Rightarrow> u64 \<Rightarrow> u64 \<Rightarrow> u32 \<Rightarrow> vmstate \<Rightarrow> vmstate res" where
  "map_kernel_loop 0 a offset prot s = Inr s"
| "map_kernel_loop (Suc n) a offset prot s =
     bind_res (walk_create a s)
       (\<lambda>(pte, s). map_kernel_loop n (a + RISCV_PGSIZE) offset prot
          (set_pte pte (pte_create (drop_bit RISCV_PGSHIFT (a + offset)) (prot_to_type prot False)) s))"

definition map_kernel_range :: "u64 \<Rightarrow> u64 \<Rightarrow> u64 \<Rightarrow> u32 \<Rightarrow> vmstate \<Rightarrow> vmstate res" where
  "map_kernel_range vaddr paddr len prot s =
     (let n = ROUNDUP len RISCV_PGSIZE div RISCV_PGSIZE; offset = paddr - vaddr
      in map_kernel_loop (unat n) vaddr offset prot s)"

definition SATP_MODE_CHOICE :: u64 where
  "SATP_MODE_CHOICE = INSERT_FIELD 0 0xF000000000000000 8"

text \<open>
  \<^verbatim>\<open>mem_size\<close> and the linker's \<^verbatim>\<open>_end\<close> are arguments; the result is the top of the kernel
  stack.
\<close>

definition pk_vm_init :: "host \<Rightarrow> u64 \<Rightarrow> u64 \<Rightarrow> vmstate \<Rightarrow> (u64 \<times> vmstate) res" where
  "pk_vm_init host memory_size end_addr s =
     (let mem_size = min memory_size 0x80000000;
          mem_pages = drop_bit RISCV_PGSHIFT mem_size;
          fp = max 8 (drop_bit (RISCV_PGLEVEL_BITS - 1) mem_pages);
          ffpage = ROUNDUP end_addr RISCV_PGSIZE;
          s = s\<lparr>free_pages := fp, first_free_page := ffpage,
                first_free_paddr := ffpage + fp * RISCV_PGSIZE\<rparr>
      in bind_res (page_alloc s) (\<lambda>(root, s).
         bind_res (map_kernel_range DRAM_BASE DRAM_BASE (first_free_paddr s - DRAM_BASE)
                     (PROT_READ OR PROT_WRITE OR PROT_EXEC) (s\<lparr>root_page_table := root\<rparr>)) (\<lambda>s.
         let top = min DRAM_BASE (mem_size - (first_free_paddr s - DRAM_BASE));
             s = set_current (\<lambda>c. c\<lparr>brk_max := top, mmap_max := top\<rparr>) s;
             stack_size = min (drop_bit 5 mem_pages) 2048 * RISCV_PGSIZE
         in bind_res (do_mmap_locked host (mmap_max (current s) - stack_size) stack_size
                        (PROT_READ OR PROT_WRITE OR PROT_EXEC)
                        (MAP_PRIVATE OR MAP_ANONYMOUS OR MAP_FIXED) None 0 s) (\<lambda>(stack_bottom, s).
            kassert (stack_bottom \<noteq> -1)
              (let s = set_current (stack_top_update (\<lambda>_. stack_bottom + stack_size)) s;
                   s = s\<lparr>satp := drop_bit RISCV_PGSHIFT (root_page_table s) OR SATP_MODE_CHOICE\<rparr>
               in bind_res (page_alloc s) (\<lambda>(page, s). Inr (page + RISCV_PGSIZE, s)))))))"

end
