(* ===== verification/Pk_Paging.thy ===== *)
theory Pk_Paging
  imports Pk_Vm
begin

text \<open>
  The page tables of \<^verbatim>\<open>pk/mmap.c\<close> as a map from page numbers to entries. A page number is the
  triple of its 9-bit table indices; \<^verbatim>\<open>tbl\<close> follows a path of indices from the root. The
  invariant \<^verbatim>\<open>pt_ok\<close> says that tables are distinct pages of the pool; under it a walk is a
  lookup, the store through a walked pointer is a point update, and \<^verbatim>\<open>__walk_create\<close> adds
  tables without changing any entry.
\<close>

section \<open>Slots of tables\<close>

type_synonym idx = "9 word"

definition idx9 :: "u64 \<Rightarrow> nat \<Rightarrow> idx" where
  "idx9 a l = ucast (drop_bit (9 * l + 12) a)"

lemma pt_idx_ucast: "pt_idx a l = ucast (idx9 a l)"
proof -
  have m: "(511::u64) = mask 9" by (simp add: mask_eq_exp_minus_1)
  show ?thesis
    unfolding pt_idx_def idx9_def pg_defs
    by (simp add: m flip: take_bit_eq_mask) (simp add: unsigned_ucast_eq)
qed

definition slot :: "u64 \<Rightarrow> idx \<Rightarrow> u64" where
  "slot t i = t + 8 * ucast i"

definition aligned :: "u64 \<Rightarrow> bool" where
  "aligned t \<longleftrightarrow> 4096 dvd unat t"

lemma aligned_room:
  assumes "aligned t" shows "unat t + 4096 \<le> 2 ^ 64"
proof -
  obtain q where q: "unat t = 4096 * q" using assms by (auto simp: aligned_def)
  have "unat t < 2 ^ 64" using unsigned_less [of t, where 'a = nat] by simp
  with q have "q < 2 ^ 52" by simp
  then show ?thesis using q by simp
qed

lemma idx_less: "unat (i::idx) < 512"
  using unsigned_less [of i, where 'a = nat] by simp

lemma unat_slot_off: "unat (8 * ucast (i::idx) :: u64) = 8 * unat i"
  using idx_less [of i] by (simp add: unat_word_ariths unsigned_ucast_eq take_bit_nat_eq_self)

lemma unat_slot:
  assumes "aligned t" shows "unat (slot t i) = unat t + 8 * unat i"
proof -
  have "unat t + 8 * unat i < 2 ^ 64"
    using aligned_room [OF assms] idx_less [of i] by simp
  then show ?thesis by (simp add: slot_def unat_add_no_wrap unat_slot_off)
qed

lemma slot_page:
  assumes "aligned t" shows "unat (slot t i) div 4096 = unat t div 4096"
proof -
  show ?thesis
    using assms idx_less [of i] by (auto simp: unat_slot aligned_def elim!: dvdE)
qed

lemma aligned_div_eq: "aligned t \<Longrightarrow> aligned t' \<Longrightarrow> unat t div 4096 = unat t' div 4096 \<longleftrightarrow> t = t'"
  by (auto simp: aligned_def word_unat_eq_iff elim!: dvdE)

lemma slot_eq_iff:
  assumes "aligned t" and "aligned t'"
  shows "slot t i = slot t' i' \<longleftrightarrow> t = t' \<and> i = i'"
proof
  assume eq: "slot t i = slot t' i'"
  then have "unat t div 4096 = unat t' div 4096" using assms by (metis slot_page)
  then have t: "t = t'" using assms by (simp add: aligned_div_eq)
  with eq have "unat (slot t i) = unat (slot t i')" by simp
  then have "unat i = unat i'" using assms by (simp add: unat_slot)
  with t show "t = t' \<and> i = i'" by (simp add: word_unat_eq_iff)
qed auto

lemma slot_in_page:
  assumes "aligned t" and "aligned q"
  shows "slot t i - q < 4096 \<longleftrightarrow> t = q"
proof
  assume "t = q"
  with idx_less [of i] show "slot t i - q < 4096"
    by (simp add: slot_def word_less_nat_alt unat_slot_off)
next
  assume d: "slot t i - q < 4096"
  define d' where "d' = slot t i - q"
  have "unat d' < 4096" using d by (simp add: d'_def word_less_nat_alt)
  moreover have "unat q + 4096 \<le> 2 ^ 64" by (rule aligned_room [OF assms(2)])
  ultimately have "unat (q + d') = unat q + unat d'" by (simp add: unat_add_no_wrap)
  then have "unat (slot t i) = unat q + unat d'" by (simp add: d'_def)
  then have "unat (slot t i) div 4096 = unat q div 4096"
    using assms(2) \<open>unat d' < 4096\<close> by (auto simp: aligned_def elim!: dvdE)
  then show "t = q" using assms by (simp add: slot_page aligned_div_eq)
qed

lemma ptd_page:
  assumes "aligned g"
  shows "push_bit RISCV_PGSHIFT (pte_ppn (ptd_create (ppn g))) = g"
    and "ptd_create (ppn g) AND PTE_V \<noteq> 0"
proof -
  have low: "12 \<le> n" if n: "bit g n" for n
  proof -
    have "g AND 4095 = 0" using assms by (simp add: aligned_def word_and_mask_0_iff)
    moreover have "(4095::u64) = mask 12" by (simp add: mask_eq_exp_minus_1)
    ultimately have "take_bit 12 g = 0" by (simp add: take_bit_eq_mask)
    then have "\<not> bit (take_bit 12 g) n" by simp
    with n show ?thesis by (simp add: bit_take_bit_iff)
  qed
  show "push_bit RISCV_PGSHIFT (pte_ppn (ptd_create (ppn g))) = g"
    unfolding pte_ppn_def ptd_create_def ppn_def pte_create_def pte_defs pg_defs
    by (rule bit_word_eqI) (auto simp: bit_simps dest: low, metis le_add_diff_inverse low)
  show "ptd_create (ppn g) AND PTE_V \<noteq> 0"
  proof
    assume "ptd_create (ppn g) AND PTE_V = 0"
    then have "bit (ptd_create (ppn g) AND PTE_V) 0 = bit (0::u64) 0" by simp
    then show False
      by (simp add: ptd_create_def pte_create_def pte_defs bit_simps)
  qed
qed

section \<open>Following a path of indices\<close>

text \<open>A path lists its indices from the last to the first.\<close>

fun tbl :: "(u64 \<Rightarrow> u64) \<Rightarrow> u64 \<Rightarrow> idx list \<Rightarrow> u64 option" where
  "tbl m r [] = Some r"
| "tbl m r (i # p) =
     (case tbl m r p of
        None \<Rightarrow> None
      | Some t \<Rightarrow>
          if m (slot t i) AND PTE_V = 0 then None
          else Some (push_bit RISCV_PGSHIFT (pte_ppn (m (slot t i)))))"

type_synonym vpn = "idx \<times> idx \<times> idx"

definition key :: "u64 \<Rightarrow> vpn" where
  "key a = (idx9 a 2, idx9 a 1, idx9 a 0)"

fun leaf_tbl :: "vmstate \<Rightarrow> vpn \<Rightarrow> u64 option" where
  "leaf_tbl s (i2, i1, i0) = tbl (pt_mem s) (root_page_table s) [i1, i2]"

fun leaf_slot :: "vmstate \<Rightarrow> vpn \<Rightarrow> u64 option" where
  "leaf_slot s (i2, i1, i0) = map_option (\<lambda>t. slot t i0) (leaf_tbl s (i2, i1, i0))"

definition ptes :: "vmstate \<Rightarrow> vpn \<Rightarrow> u64" where
  "ptes s k = (case leaf_slot s k of None \<Rightarrow> 0 | Some p \<Rightarrow> pt_mem s p)"

lemma walk_internal_unfold:
  "walk_internal a s =
     (let p2 = slot (root_page_table s) (idx9 a 2)
      in if pt_mem s p2 AND PTE_V = 0 then Inl p2
         else let p1 = slot (push_bit RISCV_PGSHIFT (pte_ppn (pt_mem s p2))) (idx9 a 1)
              in if pt_mem s p1 AND PTE_V = 0 then Inl p1
                 else Inr (slot (push_bit RISCV_PGSHIFT (pte_ppn (pt_mem s p1))) (idx9 a 0)))"
proof -
  have "(VA_BITS - RISCV_PGSHIFT) div RISCV_PGLEVEL_BITS - 1 = Suc (Suc 0)"
    by (simp add: pg_defs)
  moreover have "idx9 a 2 = idx9 a (Suc (Suc 0))" "idx9 a 1 = idx9 a (Suc 0)"
    by (simp_all add: numeral_2_eq_2)
  ultimately show ?thesis
    by (simp only: walk_internal_def walk_loop.simps pt_idx_ucast slot_def Let_def)
qed

lemma walk_leaf: "walk a s = leaf_slot s (key a)"
  by (auto simp: walk_def walk_internal_unfold key_def Let_def split: option.splits)

lemma walk_internal_Inr: "walk_internal a s = Inr p \<longleftrightarrow> leaf_slot s (key a) = Some p"
  unfolding walk_leaf [symmetric] by (auto simp: walk_def split: sum.splits)

text \<open>A walk that stops early stops at the invalid entry of a table above the leaves.\<close>

lemma walk_internal_Inl:
  assumes "walk_internal a s = Inl p"
  obtains q t i where "length q < 2" and "tbl (pt_mem s) (root_page_table s) q = Some t"
    and "p = slot t i" and "pt_mem s p AND PTE_V = 0"
    and "q = [] \<and> i = idx9 a 2 \<or> q = [idx9 a 2] \<and> i = idx9 a 1"
proof -
  let ?m = "pt_mem s" and ?r = "root_page_table s"
  let ?p2 = "slot ?r (idx9 a 2)"
  show thesis
  proof (cases "?m ?p2 AND PTE_V = 0")
    case True
    then have "p = ?p2"
      using assms by (auto simp: walk_internal_unfold Let_def)
    with True that [of "[]" ?r "idx9 a 2"] show thesis by simp
  next
    case False
    let ?t = "push_bit RISCV_PGSHIFT (pte_ppn (?m ?p2))"
    from False assms have "p = slot ?t (idx9 a 1)" and "?m p AND PTE_V = 0"
      by (auto simp: walk_internal_unfold Let_def split: if_splits)
    with False that [of "[idx9 a 2]" ?t "idx9 a 1"] show thesis by simp
  qed
qed

section \<open>The page pool and the invariant\<close>

definition pool_page :: "vmstate \<Rightarrow> nat \<Rightarrow> u64" where
  "pool_page s n = first_free_page s + 4096 * of_nat n"

definition in_pool :: "vmstate \<Rightarrow> u64 \<Rightarrow> bool" where
  "in_pool s t \<longleftrightarrow> (\<exists>n < unat (next_free_page s). t = pool_page s n)"

definition pool_ok :: "vmstate \<Rightarrow> bool" where
  "pool_ok s \<longleftrightarrow>
     aligned (first_free_page s) \<and> next_free_page s \<le> free_pages s \<and> first_free_page s \<noteq> 0 \<and>
     unat (first_free_page s) + 4096 * unat (free_pages s) < 2 ^ 64"

definition tables_ok :: "vmstate \<Rightarrow> bool" where
  "tables_ok s \<longleftrightarrow>
     (\<forall>p t. length p \<le> 2 \<longrightarrow> tbl (pt_mem s) (root_page_table s) p = Some t \<longrightarrow>
        in_pool s t \<and> t \<noteq> vmrs_page s) \<and>
     (\<forall>p q t. length p \<le> 2 \<longrightarrow> length q \<le> 2 \<longrightarrow>
        tbl (pt_mem s) (root_page_table s) p = Some t \<longrightarrow>
        tbl (pt_mem s) (root_page_table s) q = Some t \<longrightarrow> p = q)"

definition pt_ok :: "vmstate \<Rightarrow> bool" where
  "pt_ok s \<longleftrightarrow> pool_ok s \<and> tables_ok s \<and> (vmrs_page s \<noteq> 0 \<longrightarrow> in_pool s (vmrs_page s))"

lemma unat_pool_page:
  assumes "pool_ok s" and "n < unat (free_pages s)"
  shows "unat (pool_page s n) = unat (first_free_page s) + 4096 * n"
proof -
  have "unat (first_free_page s) + 4096 * n < 2 ^ 64" using assms by (simp add: pool_ok_def)
  then have "unat (4096 * of_nat n :: u64) = 4096 * n"
    by (simp add: unat_word_ariths unat_of_nat take_bit_nat_eq_self)
  with \<open>_ < 2 ^ 64\<close> show ?thesis by (simp add: pool_page_def unat_add_no_wrap)
qed

lemma in_pool_aligned: "pool_ok s \<Longrightarrow> in_pool s t \<Longrightarrow> aligned t"
proof -
  assume ok: "pool_ok s" and "in_pool s t"
  then obtain n where n: "n < unat (next_free_page s)" and t: "t = pool_page s n"
    by (auto simp: in_pool_def)
  then have "n < unat (free_pages s)" using ok by (simp add: pool_ok_def word_le_nat_alt)
  from unat_pool_page [OF ok this] ok show "aligned t"
    by (simp add: aligned_def t pool_ok_def)
qed

text \<open>\<^verbatim>\<open>__page_alloc\<close> hands out a page that is not in use, with all its entries zero.\<close>

lemma page_alloc_fresh:
  assumes ok: "pool_ok s" and r: "page_alloc s = Inr (g, s')"
  shows "s' = s\<lparr>next_free_page := next_free_page s + 1,
                pt_mem := (\<lambda>a. if a - g < RISCV_PGSIZE then 0 else pt_mem s a)\<rparr>"
    and "pool_ok s'" and "in_pool s' g" and "\<not> in_pool s g" and "aligned g" and "g \<noteq> 0"
    and "in_pool s t \<Longrightarrow> in_pool s' t"
proof -
  let ?n = "next_free_page s"
  have ne: "?n \<noteq> free_pages s" and g: "g = first_free_page s + RISCV_PGSIZE * ?n"
    and s': "s' = s\<lparr>next_free_page := ?n + 1,
                pt_mem := (\<lambda>a. if a - g < RISCV_PGSIZE then 0 else pt_mem s a)\<rparr>"
    using r by (auto simp: page_alloc_def kassert_eq_Inr Let_def)
  show "s' = s\<lparr>next_free_page := ?n + 1,
                pt_mem := (\<lambda>a. if a - g < RISCV_PGSIZE then 0 else pt_mem s a)\<rparr>" by (rule s')
  have lt: "unat ?n < unat (free_pages s)"
    using ok ne by (simp add: pool_ok_def word_le_nat_alt word_unat_eq_iff)
  have suc: "unat (?n + 1) = unat ?n + 1"
    using lt unsigned_less [of "free_pages s", where 'a = nat]
    by (simp add: unat_word_ariths)
  have gp: "g = pool_page s (unat ?n)" by (simp add: g pool_page_def RISCV_PGSIZE_def)
  have pp: "pool_page s' k = pool_page s k" for k by (simp add: s' pool_page_def)
  show ok': "pool_ok s'"
    using ok lt suc by (auto simp: pool_ok_def s' word_le_nat_alt)
  have nx: "unat (next_free_page s') = Suc (unat ?n)" using suc by (simp add: s')
  show in': "in_pool s' g" unfolding in_pool_def pp nx using gp by auto
  then show "aligned g" by (rule in_pool_aligned [OF ok'])
  show "\<not> in_pool s g"
    using unat_pool_page [OF ok] lt by (auto simp: in_pool_def gp dest!: arg_cong [of _ _ unat])
  show "g \<noteq> 0"
    using unat_pool_page [OF ok lt] ok word_neq_0_unat [of "first_free_page s"]
    by (auto simp: gp [symmetric] pool_ok_def)
  show "in_pool s t \<Longrightarrow> in_pool s' t"
    unfolding in_pool_def pp nx by (auto intro: less_SucI)
qed

lemma page_alloc_total:
  "next_free_page s < free_pages s \<Longrightarrow> \<exists>g s'. page_alloc s = Inr (g, s')"
  by (auto simp: page_alloc_def Let_def kassert_def)

section \<open>How a store changes the tables\<close>

lemma tbl_cong:
  assumes "\<And>p t i. length p < n \<Longrightarrow> tbl m r p = Some t \<Longrightarrow> m' (slot t i) = m (slot t i)"
  shows "length q \<le> n \<Longrightarrow> tbl m' r q = tbl m r q"
proof (induction q)
  case (Cons j q)
  then have IH: "tbl m' r q = tbl m r q" by simp
  show ?case
  proof (cases "tbl m r q")
    case (Some t)
    with assms [of q t j] Cons.prems IH show ?thesis by simp
  qed (simp add: IH)
qed simp

lemma tables_okD:
  assumes "pt_ok s" and "length p \<le> 2" and "tbl (pt_mem s) (root_page_table s) p = Some t"
  shows "in_pool s t" and "t \<noteq> vmrs_page s" and "aligned t"
    and "length q \<le> 2 \<Longrightarrow> tbl (pt_mem s) (root_page_table s) q = Some t \<Longrightarrow> p = q"
proof -
  from assms have "pool_ok s" and ok: "tables_ok s" by (simp_all add: pt_ok_def)
  from ok assms(2,3) show "in_pool s t" and "t \<noteq> vmrs_page s" by (auto simp: tables_ok_def)
  with \<open>pool_ok s\<close> show "aligned t" by (blast intro: in_pool_aligned)
  from ok assms(2,3) show "length q \<le> 2 \<Longrightarrow> tbl (pt_mem s) (root_page_table s) q = Some t \<Longrightarrow> p = q"
    unfolding tables_ok_def by blast
qed

text \<open>Storing a leaf entry changes no table and only its own entry.\<close>

lemma tbl_set_leaf:
  assumes ok: "pt_ok s" and p: "length p = 2" "tbl (pt_mem s) (root_page_table s) p = Some t"
    and q: "length q \<le> 2"
  shows "tbl ((pt_mem s)(slot t i := e)) (root_page_table s) q = tbl (pt_mem s) (root_page_table s) q"
proof (rule tbl_cong [where n = 2, OF _ q])
  fix p' t' j
  assume p': "length p' < 2" and t': "tbl (pt_mem s) (root_page_table s) p' = Some t'"
  from p have p2: "length p \<le> 2" by simp
  have "t \<noteq> t'"
    using tables_okD(4) [OF ok p2 p(2), of p'] p' p(1) t' by auto
  moreover have "aligned t" "aligned t'"
    using tables_okD(3) [OF ok p2 p(2)] tables_okD(3) [OF ok _ t'] p' by simp_all
  ultimately show "((pt_mem s)(slot t i := e)) (slot t' j) = pt_mem s (slot t' j)"
    by (simp add: slot_eq_iff)
qed

lemma leaf_slotE:
  assumes "leaf_slot s k = Some a"
  obtains i2 i1 i0 t where "k = (i2, i1, i0)" and "a = slot t i0"
    and "tbl (pt_mem s) (root_page_table s) [i1, i2] = Some t"
  using assms that by (cases k) (auto simp del: tbl.simps)

lemma set_leaf_tbl:
  assumes ok: "pt_ok s" and a: "leaf_slot s k = Some a" and q: "length q \<le> 2"
  shows "tbl ((pt_mem s)(a := e)) (root_page_table s) q = tbl (pt_mem s) (root_page_table s) q"
proof -
  from a obtain i2 i1 i0 t where "a = slot t i0"
    and "tbl (pt_mem s) (root_page_table s) [i1, i2] = Some t" by (rule leaf_slotE)
  then show ?thesis using tbl_set_leaf [OF ok _ _ q, of "[i1, i2]" t i0 e] by simp
qed

lemma set_pte_leaf_slot:
  assumes ok: "pt_ok s" and a: "leaf_slot s k = Some a"
  shows "leaf_slot (set_pte a e s) = leaf_slot s"
proof
  fix k' show "leaf_slot (set_pte a e s) k' = leaf_slot s k'"
    using set_leaf_tbl [OF ok a] by (cases k') (simp add: set_pte_def del: tbl.simps)
qed

lemma leaf_slot_eq:
  assumes ok: "pt_ok s" and a: "leaf_slot s k = Some a" and b: "leaf_slot s k' = Some a"
  shows "k = k'"
proof -
  from a obtain i2 i1 i0 t where k: "k = (i2, i1, i0)" "a = slot t i0"
    and t: "tbl (pt_mem s) (root_page_table s) [i1, i2] = Some t" by (rule leaf_slotE)
  from b obtain j2 j1 j0 u where k': "k' = (j2, j1, j0)" "a = slot u j0"
    and u: "tbl (pt_mem s) (root_page_table s) [j1, j2] = Some u" by (rule leaf_slotE)
  have "aligned t" "aligned u" using tables_okD(3) [OF ok _ t] tables_okD(3) [OF ok _ u] by simp_all
  with k k' have eq: "t = u" "i0 = j0" by (simp_all add: slot_eq_iff)
  then show ?thesis using tables_okD(4) [OF ok _ t, of "[j1, j2]"] u k k' by (simp del: tbl.simps)
qed

lemma set_pte_ptes:
  assumes ok: "pt_ok s" and a: "leaf_slot s k = Some a"
  shows "ptes (set_pte a e s) = (ptes s)(k := e)"
proof
  fix k'
  have pt: "pt_mem (set_pte a e s) = (pt_mem s)(a := e)" by (simp add: set_pte_def)
  show "ptes (set_pte a e s) k' = ((ptes s)(k := e)) k'"
  proof (cases "k' = k")
    case True
    then show ?thesis by (simp add: ptes_def set_pte_leaf_slot [OF ok a] a pt)
  next
    case False
    then have "leaf_slot s k' \<noteq> Some a" using leaf_slot_eq [OF ok a] by blast
    then show ?thesis
      using False by (cases "leaf_slot s k'") (simp_all add: ptes_def set_pte_leaf_slot [OF ok a] pt)
  qed
qed

lemma set_pte_ok:
  assumes ok: "pt_ok s" and a: "leaf_slot s k = Some a"
  shows "pt_ok (set_pte a e s)"
proof -
  have "tables_ok (set_pte a e s)"
    using ok unfolding pt_ok_def tables_ok_def
    by (simp add: set_pte_def set_leaf_tbl [OF ok a] in_pool_def pool_page_def)
  then show ?thesis
    using ok by (simp add: pt_ok_def set_pte_def in_pool_def pool_page_def pool_ok_def)
qed

text \<open>Linking a fresh table below an invalid entry adds one path.\<close>

lemma tbl_link:
  assumes ok: "pt_ok s" and p: "length p < 2" and t: "tbl (pt_mem s) (root_page_table s) p = Some t"
    and inv: "pt_mem s (slot t i) AND PTE_V = 0"
    and g: "aligned g" "\<not> in_pool s g"
  defines "m' \<equiv> (\<lambda>a. if a - g < RISCV_PGSIZE then 0 else pt_mem s a)(slot t i := ptd_create (ppn g))"
  shows "length q \<le> 2 \<Longrightarrow> tbl m' (root_page_table s) q =
    (if q = i # p then Some g else tbl (pt_mem s) (root_page_table s) q)"
proof (induction q)
  case (Cons j q)
  let ?m = "pt_mem s" and ?r = "root_page_table s"
  from p have p2: "length p \<le> 2" by simp
  note T = tables_okD [OF ok p2 t]
  have gt: "g \<noteq> t" using T(1) g(2) by blast
  from Cons.prems Cons.IH
  have IH: "tbl m' ?r q = (if q = i # p then Some g else tbl ?m ?r q)" by simp
  show ?case
  proof (cases "q = i # p")
    case True
    have "m' (slot g j) = 0"
      using gt g T(3) by (simp add: m'_def slot_eq_iff slot_in_page RISCV_PGSIZE_def)
    moreover have "tbl m' ?r q = Some g" using True IH by (simp only: if_P)
    ultimately have "tbl m' ?r (j # q) = None" by simp
    moreover have "tbl ?m ?r q = None" unfolding True using t inv by simp
    then have "tbl ?m ?r (j # q) = None" by simp
    moreover have "length (j # q) \<noteq> length (i # p)" unfolding True by simp
    then have "j # q \<noteq> i # p" by metis
    ultimately show ?thesis by (simp only: if_False)
  next
    case False
    show ?thesis
    proof (cases "tbl ?m ?r q")
      case (Some u)
      from Cons.prems have q2: "length q \<le> 2" by simp
      note U = tables_okD [OF ok q2 Some]
      have "g \<noteq> u" using U(1) g(2) by blast
      then have mu: "m' (slot u j) = (if u = t \<and> j = i then ptd_create (ppn g) else ?m (slot u j))"
        using U(3) T(3) g by (auto simp: m'_def slot_eq_iff slot_in_page RISCV_PGSIZE_def)
      show ?thesis
      proof (cases "u = t \<and> j = i")
        case True
        then have qp: "q = p" using T(4) [OF q2] Some by simp
        from True mu have "m' (slot t i) = ptd_create (ppn g)" by simp
        moreover have "tbl m' ?r p = Some t" using IH False t qp by (simp only: if_False)
        ultimately have "tbl m' ?r (i # p) = Some g" using ptd_page [OF g(1)] by simp
        with True qp show ?thesis by (simp del: tbl.simps)
      next
        case ne: False
        then have "j # q \<noteq> i # p" using Some t by auto
        moreover have "tbl m' ?r (j # q) = tbl ?m ?r (j # q)"
        proof -
          have "m' (slot u j) = ?m (slot u j)" using ne mu by (simp only: if_False)
          moreover have "tbl m' ?r q = Some u" using False Some IH by (simp only: if_False)
          ultimately show ?thesis by (simp add: Some)
        qed
        ultimately show ?thesis by (simp only: if_False)
      qed
    next
      case None
      then have "j # q \<noteq> i # p" using t by auto
      moreover have "tbl m' ?r (j # q) = tbl ?m ?r (j # q)" using None False IH by simp
      ultimately show ?thesis by (simp only: if_False)
    qed
  qed
qed simp

text \<open>
  Linking a page just allocated keeps the invariant and every entry, and completes the path to
  the new table.
\<close>

lemma link_fresh:
  assumes ok: "pt_ok s" and al: "page_alloc s = Inr (g, s1)"
    and p: "length p < 2" and t: "tbl (pt_mem s) (root_page_table s) p = Some t"
    and inv: "pt_mem s (slot t i) AND PTE_V = 0"
  defines "s2 \<equiv> set_pte (slot t i) (ptd_create (ppn g)) s1"
  shows "pt_ok s2" and "ptes s2 = ptes s"
    and "length q \<le> 2 \<Longrightarrow> tbl (pt_mem s2) (root_page_table s2) q =
      (if q = i # p then Some g else tbl (pt_mem s) (root_page_table s) q)"
proof -
  let ?m = "pt_mem s" and ?r = "root_page_table s"
  from ok have pool: "pool_ok s" and vp: "vmrs_page s \<noteq> 0 \<Longrightarrow> in_pool s (vmrs_page s)"
    by (simp_all add: pt_ok_def)
  note fresh = page_alloc_fresh [OF pool al]
  have m2: "pt_mem s2 = (\<lambda>a. if a - g < RISCV_PGSIZE then 0 else ?m a)(slot t i := ptd_create (ppn g))"
    and r2: "root_page_table s2 = ?r" and v2: "vmrs_page s2 = vmrs_page s"
    by (simp_all add: s2_def set_pte_def fresh(1))
  note link = tbl_link [OF ok p t inv fresh(5,4), folded m2]
  show T2: "length q \<le> 2 \<Longrightarrow> tbl (pt_mem s2) (root_page_table s2) q =
      (if q = i # p then Some g else tbl ?m ?r q)" for q
    unfolding r2 by (rule link)
  have pool2: "in_pool s2 x = in_pool s1 x" for x
    by (simp add: s2_def set_pte_def in_pool_def pool_page_def)
  have gv: "g \<noteq> vmrs_page s" using fresh(4,6) vp by blast
  have notin: "tbl ?m ?r q = Some u \<Longrightarrow> length q \<le> 2 \<Longrightarrow> u \<noteq> g" for q u
    using tables_okD(1) [OF ok] fresh(4) by blast
  have "tables_ok s2"
    unfolding tables_ok_def
  proof (intro conjI allI impI)
    fix q u assume "length q \<le> 2" and "tbl (pt_mem s2) (root_page_table s2) q = Some u"
    then have "q = i # p \<and> u = g \<or> tbl ?m ?r q = Some u" using T2 [of q] by (auto split: if_splits)
    then show "in_pool s2 u" and "u \<noteq> vmrs_page s2"
      using fresh(3,7) gv tables_okD(1,2) [OF ok \<open>length q \<le> 2\<close>, of u] by (auto simp: pool2 v2)
  next
    fix q q' u assume l: "length q \<le> 2" "length q' \<le> 2"
      and "tbl (pt_mem s2) (root_page_table s2) q = Some u"
        "tbl (pt_mem s2) (root_page_table s2) q' = Some u"
    then have "q = i # p \<and> u = g \<or> q \<noteq> i # p \<and> tbl ?m ?r q = Some u"
      and "q' = i # p \<and> u = g \<or> q' \<noteq> i # p \<and> tbl ?m ?r q' = Some u"
      using T2 [of q] T2 [of q'] by (auto split: if_splits)
    then show "q = q'" using notin l tables_okD(4) [OF ok l(1), of u q'] by blast
  qed
  moreover have "pool_ok s2" using fresh(2) by (simp add: pool_ok_def s2_def set_pte_def)
  ultimately show "pt_ok s2" using fresh(7) vp by (simp add: pt_ok_def pool2 v2)
  show "ptes s2 = ptes s"
  proof
    fix k
    obtain k2 k1 k0 :: idx where k: "k = (k2, k1, k0)" by (cases k)
    have p2: "length p \<le> 2" using p by simp
    note T = tables_okD [OF ok p2 t]
    have gt: "g \<noteq> t" using T(1) fresh(4) by blast
    have tg: "tbl (pt_mem s2) (root_page_table s2) [k1, k2] =
        (if [k1, k2] = i # p then Some g else tbl ?m ?r [k1, k2])" by (rule T2) simp
    show "ptes s2 k = ptes s k"
    proof (cases "[k1, k2] = i # p")
      case True
      have "pt_mem s2 (slot g k0) = 0"
        using gt fresh(5) T(3) by (simp add: m2 slot_eq_iff slot_in_page RISCV_PGSIZE_def)
      moreover have "tbl ?m ?r [k1, k2] = None" unfolding True using t inv by simp
      ultimately show ?thesis using tg True by (simp add: k ptes_def del: tbl.simps)
    next
      case False
      note tg' = tg [unfolded if_not_P [OF False]]
      show ?thesis
      proof (cases "tbl ?m ?r [k1, k2]")
        case None
        then show ?thesis using tg' by (simp add: k ptes_def del: tbl.simps)
      next
        case (Some u)
        note U = tables_okD [OF ok _ Some, simplified]
        have "u \<noteq> t" using T(4) [of "[k1, k2]"] Some p by auto
        moreover have "u \<noteq> g" using notin [OF Some] by simp
        ultimately have "pt_mem s2 (slot u k0) = ?m (slot u k0)"
          using U(3) T(3) fresh(5) by (simp add: m2 slot_eq_iff slot_in_page RISCV_PGSIZE_def)
        then show ?thesis using tg' Some by (simp add: k ptes_def del: tbl.simps)
      qed
    qed
  qed
qed

section \<open>Walks that create tables\<close>

text \<open>The number of tables missing on the way to an address.\<close>

definition missing :: "u64 \<Rightarrow> vmstate \<Rightarrow> nat" where
  "missing a s =
     (if tbl (pt_mem s) (root_page_table s) [idx9 a 2] = None then 2
      else if tbl (pt_mem s) (root_page_table s) [idx9 a 1, idx9 a 2] = None then 1 else 0)"

definition grown :: "vmstate \<Rightarrow> vmstate \<Rightarrow> bool" where
  "grown s s' \<longleftrightarrow>
     s' = s\<lparr>pt_mem := pt_mem s', next_free_page := next_free_page s'\<rparr> \<and> pt_ok s' \<and> ptes s' = ptes s"

lemma grownE:
  assumes "grown s s'"
  obtains m n where "s' = s\<lparr>pt_mem := m, next_free_page := n\<rparr>" and "pt_ok s'" and "ptes s' = ptes s"
  using assms that by (auto simp: grown_def)

lemma grown_trans: "grown s s' \<Longrightarrow> grown s' s'' \<Longrightarrow> grown s s''"
  by (elim grownE) (simp add: grown_def)

lemma grown_refl: "pt_ok s \<Longrightarrow> grown s s"
  by (simp add: grown_def)

lemma walk_create_step:
  assumes ok: "pt_ok s" and st: "walk_internal a s = Inl p" and al: "page_alloc s = Inr (g, s1)"
  defines "s2 \<equiv> set_pte p (ptd_create (ppn g)) s1"
  shows "grown s s2" and "missing a s2 < missing a s"
    and "unat (next_free_page s2) = Suc (unat (next_free_page s))"
proof -
  from st obtain q t i where q: "length q < 2" "tbl (pt_mem s) (root_page_table s) q = Some t"
    and p: "p = slot t i" "pt_mem s p AND PTE_V = 0"
    and i: "q = [] \<and> i = idx9 a 2 \<or> q = [idx9 a 2] \<and> i = idx9 a 1"
    by (rule walk_internal_Inl)
  from ok have pool: "pool_ok s" by (simp add: pt_ok_def)
  note fresh = page_alloc_fresh [OF pool al]
  note L = link_fresh [OF ok al q p(2) [unfolded p(1)], folded p(1), folded s2_def]
  have "s2 = s\<lparr>pt_mem := pt_mem s2, next_free_page := next_free_page s2\<rparr>"
    by (simp add: s2_def set_pte_def fresh(1))
  with L(1,2) show "grown s s2" by (simp add: grown_def)
  from i show "missing a s2 < missing a s"
  proof
    assume "q = [] \<and> i = idx9 a 2"
    then show ?thesis using L(3) [of "[idx9 a 2]"] p q by (simp add: missing_def)
  next
    assume qi: "q = [idx9 a 2] \<and> i = idx9 a 1"
    then have "tbl (pt_mem s) (root_page_table s) (i # q) = None" using p q by simp
    then show ?thesis
      using L(3) [of "[idx9 a 2]"] L(3) [of "[idx9 a 1, idx9 a 2]"] q qi
      by (simp add: missing_def del: tbl.simps)
  qed
  have "next_free_page s \<noteq> free_pages s" using al by (auto simp: page_alloc_def kassert_eq_Inr)
  then have "unat (next_free_page s) < unat (free_pages s)"
    using pool by (simp add: pool_ok_def word_le_nat_alt word_unat_eq_iff)
  then have "unat (next_free_page s + 1) = Suc (unat (next_free_page s))"
    using unsigned_less [of "free_pages s", where 'a = nat] by (simp add: unat_word_ariths)
  then show "unat (next_free_page s2) = Suc (unat (next_free_page s))"
    by (simp add: s2_def set_pte_def fresh(1))
qed

lemma walk_create_fuel_spec:
  assumes "pt_ok s" and "missing a s < n"
  shows "case walk_create_fuel n a s of
      Inl e \<Rightarrow> e = Assertion \<and> unat (free_pages s) < unat (next_free_page s) + missing a s
    | Inr (p, s') \<Rightarrow> grown s s' \<and> leaf_slot s' (key a) = Some p \<and>
        unat (next_free_page s') \<le> unat (next_free_page s) + missing a s"
  using assms
proof (induction n arbitrary: s)
  case (Suc n)
  show ?case
  proof (cases "walk_internal a s")
    case (Inr p)
    then have "leaf_slot s (key a) = Some p" by (simp add: walk_internal_Inr)
    then show ?thesis by (simp add: Inr grown_refl [OF Suc.prems(1)])
  next
    case (Inl p)
    show ?thesis
    proof (cases "next_free_page s = free_pages s")
      case True
      then have "page_alloc s = Inl Assertion" by (simp add: page_alloc_def)
      moreover have "leaf_slot s (key a) = None"
        using walk_internal_Inr [of a s] Inl by (cases "leaf_slot s (key a)") auto
      then have "0 < missing a s" by (simp add: missing_def key_def del: tbl.simps)
      ultimately show ?thesis by (simp add: Inl True)
    next
      case False
      then obtain g s1 where al: "page_alloc s = Inr (g, s1)" by (simp add: page_alloc_def Let_def)
      let ?s2 = "set_pte p (ptd_create (ppn g)) s1"
      note st = walk_create_step [OF Suc.prems(1) Inl al]
      from st(1) have ok2: "pt_ok ?s2" and fp: "free_pages ?s2 = free_pages s"
        by (auto elim: grownE)
      have "missing a ?s2 < n" using st(2) Suc.prems(2) by simp
      note IH = Suc.IH [OF ok2 this]
      have eq: "walk_create_fuel (Suc n) a s = walk_create_fuel n a ?s2" by (simp add: Inl al)
      show ?thesis
        unfolding eq
        using IH st grown_trans [OF st(1)] fp
        by (auto simp del: walk_create_fuel.simps split: sum.splits prod.splits)
    qed
  qed
qed simp

lemma walk_create_spec:
  assumes "pt_ok s"
  shows "case walk_create a s of
      Inl e \<Rightarrow> e = Assertion \<and> unat (free_pages s) < unat (next_free_page s) + missing a s
    | Inr (p, s') \<Rightarrow> grown s s' \<and> leaf_slot s' (key a) = Some p \<and>
        unat (next_free_page s') \<le> unat (next_free_page s) + missing a s"
proof -
  have "missing a s < 3" by (simp add: missing_def)
  from walk_create_fuel_spec [OF assms this] show ?thesis by (simp add: walk_create_def)
qed

section \<open>The page table as a store\<close>

text \<open>
  What the users of the page table rely on: a lookup after a store at a mapped page. The
  number of entries with a given value, on which the reference counts of regions rest, then
  moves by one at a time.
\<close>

locale pte_store =
  fixes ok :: "'s \<Rightarrow> bool"
    and mapped :: "'s \<Rightarrow> 'k::finite \<Rightarrow> bool"
    and lookup :: "'s \<Rightarrow> 'k \<Rightarrow> u64"
    and store :: "'k \<Rightarrow> u64 \<Rightarrow> 's \<Rightarrow> 's"
  assumes ok_store: "ok s \<Longrightarrow> mapped s k \<Longrightarrow> ok (store k e s)"
    and lookup_store: "ok s \<Longrightarrow> mapped s k \<Longrightarrow> lookup (store k e s) = (lookup s)(k := e)"
    and mapped_store: "ok s \<Longrightarrow> mapped s k \<Longrightarrow> mapped (store k e s) = mapped s"
    and unmapped_lookup: "\<not> mapped s k \<Longrightarrow> lookup s k = 0"
begin

definition entries :: "'s \<Rightarrow> u64 \<Rightarrow> nat" where
  "entries s x = card {k. lookup s k = x}"

lemma entries_store_new:
  assumes "ok s" and "mapped s k" and "lookup s k \<noteq> x"
  shows "entries (store k x s) x = Suc (entries s x)"
proof -
  have "{j. lookup (store k x s) j = x} = insert k {j. lookup s j = x}"
    using assms by (auto simp: lookup_store)
  with assms(3) show ?thesis by (simp add: entries_def)
qed

lemma entries_store_drop:
  assumes "ok s" and "mapped s k" and "lookup s k = x" and "e \<noteq> x"
  shows "Suc (entries (store k e s) x) = entries s x"
proof -
  have "{j. lookup (store k e s) j = x} = {j. lookup s j = x} - {k}"
    using assms by (auto simp: lookup_store)
  moreover have "0 < card {j. lookup s j = x}" using assms(3) by (auto simp: card_gt_0_iff)
  ultimately show ?thesis using assms(3) by (simp add: entries_def card_Diff_singleton)
qed

lemma entries_store_other:
  assumes "ok s" and "mapped s k" and "lookup s k \<noteq> x" and "e \<noteq> x"
  shows "entries (store k e s) x = entries s x"
proof -
  have "{j. lookup (store k e s) j = x} = {j. lookup s j = x}"
    using assms by (auto simp: lookup_store)
  then show ?thesis by (simp add: entries_def)
qed

lemma store_frame:
  assumes "ok s" and "mapped s k" and "j \<noteq> k"
  shows "lookup (store k e s) j = lookup s j"
  using assms by (simp add: lookup_store)

end

definition pt_mapped :: "vmstate \<Rightarrow> vpn \<Rightarrow> bool" where
  "pt_mapped s k \<longleftrightarrow> leaf_slot s k \<noteq> None"

definition pt_store :: "vpn \<Rightarrow> u64 \<Rightarrow> vmstate \<Rightarrow> vmstate" where
  "pt_store k e s = (case leaf_slot s k of None \<Rightarrow> s | Some a \<Rightarrow> set_pte a e s)"

interpretation pt: pte_store pt_ok pt_mapped ptes pt_store
proof unfold_locales
  fix s k e assume "pt_ok s" and "pt_mapped s k"
  then obtain a where a: "leaf_slot s k = Some a" by (auto simp: pt_mapped_def)
  note ok = \<open>pt_ok s\<close>
  show "pt_ok (pt_store k e s)" using set_pte_ok [OF ok a] by (simp add: pt_store_def a)
  show "ptes (pt_store k e s) = (ptes s)(k := e)"
    using set_pte_ptes [OF ok a] by (simp add: pt_store_def a)
  show "pt_mapped (pt_store k e s) = pt_mapped s"
    using set_pte_leaf_slot [OF ok a] by (auto simp: pt_store_def a pt_mapped_def)
next
  fix s k assume "\<not> pt_mapped s k"
  then show "ptes s k = 0" by (simp add: pt_mapped_def ptes_def)
qed

section \<open>User addresses\<close>

text \<open>Addresses below \<open>2\<^sup>3\<^sup>9\<close> have the same indices exactly when they lie in the same page.\<close>

lemma key_eq_iff:
  assumes "a < 2 ^ 39" and "b < 2 ^ 39"
  shows "key a = key b \<longleftrightarrow> drop_bit 12 a = drop_bit 12 b"
proof
  assume eq: "key a = key b"
  have hi: "\<not> bit c n" if "c < 2 ^ 39" and "39 \<le> n" for c :: u64 and n
  proof -
    have "take_bit 39 c = c" 
      using that(1)
      by (simp add: word_unat_eq_iff unsigned_take_bit_eq take_bit_nat_eq_self word_less_nat_alt)
    then have "bit c n = bit (take_bit 39 c) n" by simp
    with that(2) show ?thesis by (simp add: bit_take_bit_iff)
  qed
  have lo: "bit a (9 * l + 12 + n) = bit b (9 * l + 12 + n)" if "l < 3" and "n < 9" for l n
  proof -
    have "idx9 a l = idx9 b l" using eq that(1) by (auto simp: key_def less_Suc_eq numeral_3_eq_3 numeral_2_eq_2)
    then have "bit (idx9 a l) n = bit (idx9 b l) n" by simp
    then show ?thesis using that(2) by (simp add: idx9_def bit_simps)
  qed
  show "drop_bit 12 a = drop_bit 12 b"
  proof (rule bit_word_eqI)
    fix n assume "n < LENGTH(64)"
    show "bit (drop_bit 12 a) n = bit (drop_bit 12 b) n"
    proof (cases "n < 27")
      case True
      then have "n div 9 < 3" and "n mod 9 < 9" by auto
      from lo [OF this] have "bit a (12 + n) = bit b (12 + n)"
        by (simp add: ac_simps)
      then show ?thesis by (simp add: bit_drop_bit_eq)
    next
      case False
      then show ?thesis using hi assms by (simp add: bit_drop_bit_eq)
    qed
  qed
next
  assume eq: "drop_bit 12 a = drop_bit 12 b"
  have "idx9 a l = idx9 b l" for l
  proof -
    have d: "drop_bit (9 * l + 12) c = drop_bit (9 * l) (drop_bit 12 c)" for c :: u64
      by (simp add: drop_bit_drop_bit)
    show ?thesis unfolding idx9_def d eq ..
  qed
  then show "key a = key b" by (simp add: key_def)
qed

end
