(* ===== verification/Pk_Regions.thy ===== *)
theory Pk_Regions
  imports Pk_Paging
begin

text \<open>
  The regions of \<^verbatim>\<open>pk/mmap.c\<close>: every page-table entry that is neither zero nor valid points to
  a region, the count of a region is the number of entries that point to it, and each live
  region with a file holds one reference to it. \<^verbatim>\<open>vm_inv x pend s\<close> collects these with the
  invariants of the page tables and of the file table; \<^verbatim>\<open>x\<close> are the references of other kernel
  code to files, \<^verbatim>\<open>pend\<close> the pages of a region that are counted already and not yet entered.
\<close>

section \<open>Region addresses\<close>

lemma word_and_1: "(a::u64) AND 1 = 0 \<longleftrightarrow> even (unat a)"
proof -
  have "a AND 1 = 0 \<longleftrightarrow> unat (a AND 1) = 0" by (simp add: word_unat_eq_iff)
  also have "unat (a AND 1) = unat a mod 2" by (simp add: and_one_eq unat_mod)
  finally show ?thesis by presburger
qed

lemma unat_vmr_ptr:
  assumes "aligned (vmrs_page s)" and "i < MAX_VMR"
  shows "unat (vmr_ptr s i) = unat (vmrs_page s) + 40 * i"
proof -
  have i: "40 * i < 4096" using assms(2) by (simp add: MAX_VMR_def)
  then have "unat (40 * of_nat i :: u64) = 40 * i"
    by (simp add: unat_word_ariths unat_of_nat take_bit_nat_eq_self)
  moreover have "unat (vmrs_page s) + 40 * i < 2 ^ 64" using aligned_room [OF assms(1)] i by simp
  ultimately show ?thesis by (simp add: vmr_ptr_def vmr_size_def unat_add_no_wrap)
qed

lemma vmr_ptr_facts:
  assumes al: "aligned (vmrs_page s)" and nz: "vmrs_page s \<noteq> 0" and i: "i < MAX_VMR"
  shows "vmr_ptr s i \<noteq> 0" and "vmr_ptr s i AND PTE_V = 0"
    and "j < MAX_VMR \<Longrightarrow> vmr_ptr s i = vmr_ptr s j \<longleftrightarrow> i = j"
    and "length (vmrs s) = MAX_VMR \<Longrightarrow> vmr_of s (vmr_ptr s i) = Inr i"
proof -
  note u = unat_vmr_ptr [OF al]
  show "vmr_ptr s i \<noteq> 0" using u [OF i] nz by (auto simp: word_neq_0_unat word_unat_eq_iff)
  have "even (unat (vmrs_page s))" using al unfolding aligned_def by (rule dvd_trans [rotated]) simp
  then show "vmr_ptr s i AND PTE_V = 0" by (simp add: PTE_V_def word_and_1 u [OF i])
  show "j < MAX_VMR \<Longrightarrow> vmr_ptr s i = vmr_ptr s j \<longleftrightarrow> i = j"
    using u [OF i] u [of j] by (auto simp: word_unat_eq_iff)
  have "unat ((vmr_ptr s i - vmrs_page s) div vmr_size) = i"
  proof -
    have "40 * i < 4096" using i by (simp add: MAX_VMR_def)
    then have "unat (40 * of_nat i :: u64) = 40 * i"
      by (simp add: unat_word_ariths unat_of_nat take_bit_nat_eq_self)
    then show ?thesis by (simp add: vmr_ptr_def vmr_size_def unat_div)
  qed
  then show "length (vmrs s) = MAX_VMR \<Longrightarrow> vmr_of s (vmr_ptr s i) = Inr i"
    using i by (simp add: vmr_of_def)
qed

section \<open>The invariant\<close>

definition file_holds :: "vmstate \<Rightarrow> nat \<Rightarrow> nat" where
  "file_holds s f =
     card {i. i < length (vmrs s) \<and> v_refcnt (vmrs s ! i) \<noteq> 0 \<and> v_file (vmrs s ! i) = Some f}"

definition region_ok :: "nat \<Rightarrow> vmr_t \<Rightarrow> bool" where
  "region_ok n v \<longleftrightarrow>
     unat (v_refcnt v) = n \<and>
     (v_refcnt v \<noteq> 0 \<longrightarrow> (case v_file v of None \<Rightarrow> True | Some f \<Rightarrow> f < MAX_FILES))"

definition entry_ok :: "vmstate \<Rightarrow> u64 \<Rightarrow> bool" where
  "entry_ok s e \<longleftrightarrow>
     e = 0 \<or> e AND PTE_V \<noteq> 0 \<or> (vmrs_page s \<noteq> 0 \<and> (\<exists>i < MAX_VMR. e = vmr_ptr s i))"

definition regions_ok :: "(nat \<Rightarrow> nat) \<Rightarrow> vmstate \<Rightarrow> bool" where
  "regions_ok pend s \<longleftrightarrow>
     length (vmrs s) = (if vmrs_page s = 0 then 0 else MAX_VMR) \<and>
     (\<forall>k. entry_ok s (ptes s k)) \<and>
     (\<forall>i < length (vmrs s). region_ok (pt.entries s (vmr_ptr s i) + pend i) (vmrs s ! i))"

definition vm_inv :: "(nat \<Rightarrow> nat) \<Rightarrow> (nat \<Rightarrow> nat) \<Rightarrow> vmstate \<Rightarrow> bool" where
  "vm_inv x pend s \<longleftrightarrow>
     pt_ok s \<and> regions_ok pend s \<and> file_inv (\<lambda>f. x f + file_holds s f) s \<and> (\<forall>f. x f < 2 ^ 31)"

lemma vm_inv_page:
  assumes "vm_inv x pend s" and "vmrs_page s \<noteq> 0"
  shows "aligned (vmrs_page s)" and "length (vmrs s) = MAX_VMR"
  using assms in_pool_aligned [of s "vmrs_page s"]
  by (auto simp: vm_inv_def pt_ok_def regions_ok_def)

text \<open>The parts of the state the invariant reads besides the page tables.\<close>

lemma region_frame:
  "vmr_ptr (set_pte a e s) i = vmr_ptr s i"
  "vmrs (set_pte a e s) = vmrs s" "vmrs_page (set_pte a e s) = vmrs_page s"
  "file_holds (set_pte a e s) = file_holds s"
  "file_inv b (set_pte a e s) \<longleftrightarrow> file_inv b s"
  by (simp_all add: set_pte_def vmr_ptr_def file_holds_def file_inv_def file_ok_def nrefs_def
      fun_eq_iff)

lemma pt_store_slot: "leaf_slot s k = Some a \<Longrightarrow> pt_store k e s = set_pte a e s"
  by (simp add: pt_store_def)

lemma pt_mapped_slot: "leaf_slot s k = Some a \<Longrightarrow> pt_mapped s k"
  by (simp add: pt_mapped_def)

text \<open>
  One rule for a store to a leaf entry: the counts of pending pages go up for the region the
  old entry points to and down for the region of the new one.
\<close>

lemma vm_inv_set_pte:
  assumes inv: "vm_inv x pend s" and a: "leaf_slot s k = Some a" and e: "entry_ok s e"
    and bal: "\<And>i. i < length (vmrs s) \<Longrightarrow>
      pend' i + (if e = vmr_ptr s i then 1 else 0) = pend i + (if ptes s k = vmr_ptr s i then 1 else 0)"
  shows "vm_inv x pend' (set_pte a e s)"
proof -
  let ?s' = "set_pte a e s"
  from inv have ok: "pt_ok s" and reg: "regions_ok pend s" by (simp_all add: vm_inv_def)
  note st = pt_store_slot [OF a, symmetric] and mp = pt_mapped_slot [OF a]
  have cnt: "pt.entries ?s' y + (if ptes s k = y then 1 else 0) =
      pt.entries s y + (if e = y then 1 else 0)" for y
  proof (cases "ptes s k = y"; cases "e = y")
    assume "ptes s k = y" "e = y"
    then have "ptes ?s' = ptes s" by (simp add: set_pte_ptes [OF ok a] fun_eq_iff)
    then show ?thesis using \<open>ptes s k = y\<close> \<open>e = y\<close> by (simp add: pt.entries_def)
  qed (simp_all add: st pt.entries_store_drop [OF ok mp] pt.entries_store_new [OF ok mp]
        pt.entries_store_other [OF ok mp])
  have "regions_ok pend' ?s'"
    unfolding regions_ok_def
  proof (intro conjI allI impI)
    show "length (vmrs ?s') = (if vmrs_page ?s' = 0 then 0 else MAX_VMR)"
      using reg by (simp add: regions_ok_def region_frame)
    have "entry_ok s (ptes s j)" for j using reg unfolding regions_ok_def by blast
    then show "entry_ok ?s' (ptes ?s' j)" for j
      using e by (simp add: set_pte_ptes [OF ok a]) (simp add: entry_ok_def region_frame)
    fix i assume "i < length (vmrs ?s')"
    then have i: "i < length (vmrs s)" by (simp add: region_frame)
    then have r: "region_ok (pt.entries s (vmr_ptr s i) + pend i) (vmrs s ! i)"
      using reg by (simp add: regions_ok_def)
    have "pt.entries s (vmr_ptr s i) + pend i = pt.entries ?s' (vmr_ptr s i) + pend' i"
      using cnt [of "vmr_ptr s i"] bal [OF i] by linarith
    with r show "region_ok (pt.entries ?s' (vmr_ptr ?s' i) + pend' i) (vmrs ?s' ! i)"
      by (simp add: region_frame)
  qed
  then show ?thesis
    using inv set_pte_ok [OF ok a] by (simp add: vm_inv_def region_frame)
qed

lemma vm_inv_unlink:
  assumes inv: "vm_inv x pend s" and a: "leaf_slot s k = Some a"
    and i: "vmrs_page s \<noteq> 0" "i < MAX_VMR" "ptes s k = vmr_ptr s i" and e: "e = 0 \<or> e AND PTE_V \<noteq> 0"
  shows "vm_inv x (pend(i := Suc (pend i))) (set_pte a e s)"
proof (rule vm_inv_set_pte [OF inv a])
  show "entry_ok s e" using e by (auto simp: entry_ok_def)
  fix j assume "j < length (vmrs s)"
  then have j: "j < MAX_VMR" using vm_inv_page [OF inv i(1)] by simp
  note p = vmr_ptr_facts [OF vm_inv_page(1) [OF inv i(1)] i(1)]
  have "e \<noteq> vmr_ptr s j" using p(1,2) [OF j] e by auto
  moreover have "ptes s k = vmr_ptr s j \<longleftrightarrow> i = j" using i(3) p(3) [OF i(2) j] by simp
  ultimately show "(pend(i := Suc (pend i))) j + (if e = vmr_ptr s j then 1 else 0) =
      pend j + (if ptes s k = vmr_ptr s j then 1 else 0)" by simp
qed

lemma vm_inv_plain:
  assumes inv: "vm_inv x pend s" and a: "leaf_slot s k = Some a"
    and k: "ptes s k = 0 \<or> ptes s k AND PTE_V \<noteq> 0" and e: "e = 0 \<or> e AND PTE_V \<noteq> 0"
  shows "vm_inv x pend (set_pte a e s)"
proof (rule vm_inv_set_pte [OF inv a])
  show "entry_ok s e" using e by (auto simp: entry_ok_def)
  fix j assume j: "j < length (vmrs s)"
  then have nz: "vmrs_page s \<noteq> 0" using inv by (auto simp: vm_inv_def regions_ok_def split: if_splits)
  then have "j < MAX_VMR" using vm_inv_page [OF inv nz] j by simp
  note p = vmr_ptr_facts(1,2) [OF vm_inv_page(1) [OF inv nz] nz this]
  show "pend j + (if e = vmr_ptr s j then 1 else 0) =
      pend j + (if ptes s k = vmr_ptr s j then 1 else 0)"
    using p e k by auto
qed

lemma vm_inv_link:
  assumes inv: "vm_inv x pend s" and a: "leaf_slot s k = Some a"
    and i: "vmrs_page s \<noteq> 0" "i < MAX_VMR" "pend i = Suc n" and k: "ptes s k = 0"
  shows "vm_inv x (pend(i := n)) (set_pte a (vmr_ptr s i) s)"
proof (rule vm_inv_set_pte [OF inv a])
  show "entry_ok s (vmr_ptr s i)" using i by (auto simp: entry_ok_def)
  fix j assume "j < length (vmrs s)"
  then have j: "j < MAX_VMR" using vm_inv_page [OF inv i(1)] by simp
  note p = vmr_ptr_facts [OF vm_inv_page(1) [OF inv i(1)] i(1)]
  show "(pend(i := n)) j + (if vmr_ptr s i = vmr_ptr s j then 1 else 0) =
      pend j + (if ptes s k = vmr_ptr s j then 1 else 0)"
    using p(1) [OF j] p(3) [OF i(2) j] k i(3) by auto
qed

section \<open>References of regions\<close>

lemma file_holds_update:
  assumes i: "i < length (vmrs s)" and n: "v_refcnt (vmrs s ! i) \<noteq> 0" "v_refcnt v = 0"
  shows "file_holds s f = file_holds (s\<lparr>vmrs := (vmrs s)[i := v]\<rparr>) f +
           (if v_file (vmrs s ! i) = Some f then 1 else 0)"
proof -
  let ?A = "\<lambda>s. {j. j < length (vmrs s) \<and> v_refcnt (vmrs s ! j) \<noteq> 0 \<and> v_file (vmrs s ! j) = Some f}"
  let ?s' = "s\<lparr>vmrs := (vmrs s)[i := v]\<rparr>"
  have fin: "finite (?A ?s')" by simp
  show ?thesis
  proof (cases "v_file (vmrs s ! i) = Some f")
    case True
    then have "?A s = insert i (?A ?s')" using i n by (auto simp: nth_list_update split: if_splits)
    moreover have "i \<notin> ?A ?s'" using i n by simp
    ultimately show ?thesis using True fin by (simp add: file_holds_def)
  next
    case False
    then have "?A s = ?A ?s'" using i n by (auto simp: nth_list_update split: if_splits)
    with False show ?thesis by (simp add: file_holds_def)
  qed
qed

lemma file_holds_same:
  assumes "v_refcnt v = 0 \<longleftrightarrow> v_refcnt (vmrs s ! i) = 0" and "v_file v = v_file (vmrs s ! i)"
  shows "file_holds (s\<lparr>vmrs := (vmrs s)[i := v]\<rparr>) f = file_holds s f"
proof -
  have "{j. j < length ((vmrs s)[i := v]) \<and> v_refcnt ((vmrs s)[i := v] ! j) \<noteq> 0 \<and>
            v_file ((vmrs s)[i := v] ! j) = Some f} =
        {j. j < length (vmrs s) \<and> v_refcnt (vmrs s ! j) \<noteq> 0 \<and> v_file (vmrs s ! j) = Some f}"
    (is "{j. ?P j} = {j. ?Q j}")
  proof (rule Collect_cong)
    fix j show "?P j \<longleftrightarrow> ?Q j" using assms by (cases "j = i") auto
  qed
  then show ?thesis by (simp add: file_holds_def)
qed

text \<open>Two states that agree on what the region part of the invariant reads.\<close>

lemma vm_inv_regions:
  assumes inv: "vm_inv x pend s" and i: "i < length (vmrs s)"
    and eqs: "pt_mem s' = pt_mem s" "root_page_table s' = root_page_table s" "vmrs_page s' = vmrs_page s"
      "first_free_page s' = first_free_page s" "next_free_page s' = next_free_page s"
      "free_pages s' = free_pages s" "vmrs s' = (vmrs s)[i := v]"
    and v: "region_ok (pt.entries s (vmr_ptr s i) + n) v"
    and f: "file_inv (\<lambda>f. x f + file_holds s' f) s'"
  shows "vm_inv x (pend(i := n)) s'" and "ptes s' = ptes s" and "leaf_slot s' = leaf_slot s"
proof -
  show slot: "leaf_slot s' = leaf_slot s"
  proof
    fix k show "leaf_slot s' k = leaf_slot s k" by (cases k) (simp add: eqs del: tbl.simps)
  qed
  then show pt: "ptes s' = ptes s" by (simp add: fun_eq_iff ptes_def eqs)
  have ptr: "vmr_ptr s' = vmr_ptr s" by (simp add: fun_eq_iff vmr_ptr_def eqs)
  have ent: "pt.entries s' = pt.entries s" by (simp add: fun_eq_iff pt.entries_def pt)
  have "pt_ok s'"
    using inv by (simp add: vm_inv_def pt_ok_def pool_ok_def tables_ok_def in_pool_def pool_page_def eqs
        del: tbl.simps)
  moreover have "regions_ok (pend(i := n)) s'"
    using inv v i
    by (auto simp: vm_inv_def regions_ok_def eqs pt ptr ent entry_ok_def nth_list_update)
  ultimately show "vm_inv x (pend(i := n)) s'" using inv f by (simp add: vm_inv_def)
qed

lemma dropped_vm_frame [simp]:
  "pt_mem (dropped host f n s) = pt_mem s"
  "root_page_table (dropped host f n s) = root_page_table s"
  "vmrs_page (dropped host f n s) = vmrs_page s"
  "vmrs (dropped host f n s) = vmrs s"
  "first_free_page (dropped host f n s) = first_free_page s"
  "next_free_page (dropped host f n s) = next_free_page s"
  "free_pages (dropped host f n s) = free_pages s"
  "demand_paging (dropped host f n s) = demand_paging s"
  "current (dropped host f n s) = current s"
  "vm_lock (dropped host f n s) = vm_lock s"
  "satp (dropped host f n s) = satp s"
  by (simp_all add: dropped_def frontend_syscall_def set_refcnt_def Let_def split: prod.splits)

text \<open>What unmapping and faulting leave alone: of the regions only the counts change.\<close>

definition same_env :: "vmstate \<Rightarrow> vmstate \<Rightarrow> bool" where
  "same_env s s' \<longleftrightarrow>
     vmrs_page s' = vmrs_page s \<and> current s' = current s \<and> vm_lock s' = vm_lock s \<and>
     demand_paging s' = demand_paging s \<and> first_free_paddr s' = first_free_paddr s \<and>
     fds s' = fds s \<and> root_page_table s' = root_page_table s \<and>
     map (v_refcnt_update (\<lambda>_. 0)) (vmrs s') = map (v_refcnt_update (\<lambda>_. 0)) (vmrs s)"

lemma same_env_refl [simp]: "same_env s s"
  by (simp add: same_env_def)

lemma same_env_trans: "same_env s s' \<Longrightarrow> same_env s' s'' \<Longrightarrow> same_env s s''"
  by (simp add: same_env_def)

lemma same_env_set_pte [simp]: "same_env s (set_pte a e s') \<longleftrightarrow> same_env s s'"
  by (simp add: same_env_def set_pte_def)

lemma vm_inv_region:
  assumes "vm_inv x pend s" and "i < length (vmrs s)"
  shows "region_ok (pt.entries s (vmr_ptr s i) + pend i) (vmrs s ! i)"
  using assms by (simp add: vm_inv_def regions_ok_def)

lemma file_inv_vmrs [simp]: "file_inv b (s\<lparr>vmrs := v\<rparr>) \<longleftrightarrow> file_inv b (s::vmstate)"
  by (simp add: file_inv_def file_ok_def nrefs_def)

lemma vmr_decref_spec:
  assumes inv: "vm_inv x pend s" and nz: "vmrs_page s \<noteq> 0" and i: "i < MAX_VMR" and p: "pend i = Suc n"
  defines "v \<equiv> vmrs s ! i"
  shows "\<exists>s'. vmr_decref host i 1 s = Inr s' \<and> vm_inv x (pend(i := n)) s' \<and> ptes s' = ptes s \<and>
    leaf_slot s' = leaf_slot s \<and> same_env s s' \<and>
    vmrs s' = (vmrs s)[i := v\<lparr>v_refcnt := v_refcnt v - 1\<rparr>] \<and> (v_file v = None \<longrightarrow> pmem s' = pmem s)"
proof -
  have len: "i < length (vmrs s)" using vm_inv_page(2) [OF inv nz] i by simp
  let ?c = "v_refcnt v - 1"
  let ?v = "v\<lparr>v_refcnt := ?c\<rparr>"
  let ?s1 = "s\<lparr>vmrs := (vmrs s)[i := ?v]\<rparr>"
  note r = vm_inv_region [OF inv len, folded v_def]
  then have c: "unat ?c = pt.entries s (vmr_ptr s i) + n" and live: "v_refcnt v \<noteq> 0"
    using p u32_pred [of "v_refcnt v"] by (auto simp: region_ok_def word_neq_0_unat)
  have rok: "region_ok (pt.entries s (vmr_ptr s i) + n) ?v"
    using r c live by (auto simp: region_ok_def)
  have finv: "file_inv (\<lambda>f. x f + file_holds s f) s" using inv by (simp add: vm_inv_def)
  have meta: "(map (v_refcnt_update (\<lambda>_. 0)) (vmrs s))[i := (vmrs s ! i)\<lparr>v_refcnt := 0\<rparr>] =
      map (v_refcnt_update (\<lambda>_. 0)) (vmrs s)"
    using len by (intro list_update_same_conv [THEN iffD2]) simp_all
  show ?thesis
  proof (cases "?c = 0")
    case False
    then have "file_holds ?s1 = file_holds s"
      using live by (intro ext file_holds_same) (simp_all add: v_def)
    then have "file_inv (\<lambda>f. x f + file_holds ?s1 f) ?s1" using finv by simp
    from vm_inv_regions [OF inv len _ _ _ _ _ _ _ rok, of ?s1, OF _ _ _ _ _ _ _ this]
    show ?thesis using False by (auto simp: vmr_decref_def Let_def v_def same_env_def map_update meta)
  next
    case True
    note fh = file_holds_update [OF len live [unfolded v_def], of ?v]
    show ?thesis
    proof (cases "v_file v")
      case None
      then have "file_holds ?s1 = file_holds s" using fh True by (auto simp: v_def)
      then have "file_inv (\<lambda>f. x f + file_holds ?s1 f) ?s1" using finv by simp
      from vm_inv_regions [OF inv len _ _ _ _ _ _ _ rok, of ?s1, OF _ _ _ _ _ _ _ this]
      show ?thesis using True None by (auto simp: vmr_decref_def Let_def v_def same_env_def map_update meta)
    next
      case (Some f)
      let ?b = "\<lambda>f. x f + file_holds s f"
      have f: "f < MAX_FILES" using r live Some by (simp add: region_ok_def)
      have finv1: "file_inv ?b ?s1" using finv by simp
      have pos: "0 < ?b f" using fh [of f] True Some by (simp add: v_def)
      note d = file_decref_dropped [OF finv1 f pos, of host]
      let ?s2 = "dropped host f (nrefs ?s1 f + ?b f) ?s1"
      have "?b(f := ?b f - 1) = (\<lambda>f. x f + file_holds ?s2 f)"
        using fh True Some by (auto simp: v_def file_holds_def)
      with d(2) have "file_inv (\<lambda>f. x f + file_holds ?s2 f) ?s2" by simp
      from vm_inv_regions [OF inv len _ _ _ _ _ _ _ rok, of ?s2, OF _ _ _ _ _ _ _ this]
      show ?thesis using True Some d(1) by (auto simp: vmr_decref_def Let_def v_def same_env_def map_update meta)
    qed
  qed
qed

section \<open>Unmapping\<close>

lemma file_decref_set_pte:
  "file_decref host f (set_pte a e s) =
     (case file_decref host f s of Inl err \<Rightarrow> Inl err | Inr s' \<Rightarrow> Inr (set_pte a e s'))"
  by (simp add: file_decref_def set_pte_def frontend_syscall_def set_refcnt_def Let_def
      split: prod.splits)

lemma vmr_decref_set_pte:
  "vmr_decref host i d (set_pte a e s) =
     (case vmr_decref host i d s of Inl err \<Rightarrow> Inl err | Inr s' \<Rightarrow> Inr (set_pte a e s'))"
proof -
  have "(set_pte a e s)\<lparr>vmrs := v\<rparr> = set_pte a e (s\<lparr>vmrs := v\<rparr>)" for v
    by (simp add: set_pte_def)
  then show ?thesis
    by (simp add: vmr_decref_def region_frame Let_def file_decref_set_pte split: option.splits)
qed

lemma entry_cases:
  assumes inv: "vm_inv x pend s"
  obtains "ptes s k = 0" | "ptes s k AND PTE_V \<noteq> 0"
    | i where "vmrs_page s \<noteq> 0" "i < MAX_VMR" "ptes s k = vmr_ptr s i" "ptes s k \<noteq> 0"
        "ptes s k AND PTE_V = 0" "vmr_of s (ptes s k) = Inr i"
proof -
  have "entry_ok s (ptes s k)" using inv unfolding vm_inv_def regions_ok_def by blast
  moreover
  { fix i assume i: "vmrs_page s \<noteq> 0" "i < MAX_VMR" "ptes s k = vmr_ptr s i"
    note p = vmr_ptr_facts [OF vm_inv_page(1) [OF inv i(1)] i(1,2)]
    from i p(1,2) p(4) [OF vm_inv_page(2) [OF inv i(1)]] have thesis using that(3) [of i] by simp }
  ultimately show thesis using that(1,2) unfolding entry_ok_def by blast
qed

lemma ptes_slot: "leaf_slot s k = Some a \<Longrightarrow> ptes s k = pt_mem s a"
  by (simp add: ptes_def)

lemma munmap_page_spec:
  assumes inv: "vm_inv x pend s"
  shows "\<exists>s'. munmap_page host a s = Inr s' \<and> vm_inv x pend s' \<and> ptes s' = (ptes s)(key a := 0) \<and>
    leaf_slot s' = leaf_slot s \<and> same_env s s'"
proof (cases "leaf_slot s (key a)")
  case None
  then have "ptes s (key a) = 0" by (simp add: ptes_def)
  with None inv show ?thesis by (auto simp: munmap_page_def walk_leaf fun_eq_iff)
next
  case (Some p)
  from inv have ok: "pt_ok s" by (simp add: vm_inv_def)
  note pm = ptes_slot [OF Some]
  note st = set_pte_ptes [OF ok Some, of 0] set_pte_leaf_slot [OF ok Some, of 0]
  show ?thesis
  proof (rule entry_cases [OF inv, of "key a"])
    assume z: "ptes s (key a) = 0"
    then show ?thesis using inv Some pm by (auto simp: munmap_page_def walk_leaf fun_eq_iff)
  next
    assume v: "ptes s (key a) AND PTE_V \<noteq> 0"
    then have "ptes s (key a) \<noteq> 0" by auto
    with v Some pm st vm_inv_plain [OF inv Some, of 0]
    show ?thesis by (simp add: munmap_page_def walk_leaf)
  next
    fix i assume i: "vmrs_page s \<noteq> 0" "i < MAX_VMR" "ptes s (key a) = vmr_ptr s i"
      "ptes s (key a) \<noteq> 0" "ptes s (key a) AND PTE_V = 0" "vmr_of s (ptes s (key a)) = Inr i"
    let ?s1 = "set_pte p 0 s"
    have inv1: "vm_inv x (pend(i := Suc (pend i))) ?s1"
      by (rule vm_inv_unlink [OF inv Some i(1-3)]) simp
    have "vmrs_page ?s1 \<noteq> 0" using i(1) by (simp add: region_frame)
    from vmr_decref_spec [OF inv1 this i(2), of "pend i" host]
    obtain s2 where s2: "vmr_decref host i 1 ?s1 = Inr s2" "vm_inv x pend s2" "ptes s2 = ptes ?s1"
      "leaf_slot s2 = leaf_slot ?s1" "same_env ?s1 s2" by auto
    from s2(1) obtain s3 where "vmr_decref host i 1 s = Inr s3" and "s2 = set_pte p 0 s3"
      by (auto simp: vmr_decref_set_pte split: sum.splits)
    with Some i pm have "munmap_page host a s = Inr s2" by (simp add: munmap_page_def walk_leaf)
    moreover have "same_env s s2" using same_env_trans [OF _ s2(5), of s] by simp
    ultimately show ?thesis using s2 st by auto
  qed
qed

text \<open>
  A loop over pages runs once for every page that starts before its end. \<^verbatim>\<open>P\<close> is kept by every
  iteration that succeeds, \<^verbatim>\<open>F\<close> holds of the fault an iteration ends in.
\<close>

definition npages :: "u64 \<Rightarrow> u64 \<Rightarrow> nat" where
  "npages a e = (unat e - unat a + 4095) div 4096"

definition page_at :: "u64 \<Rightarrow> nat \<Rightarrow> u64" where
  "page_at a n = a + 4096 * of_nat n"

lemma unat_page_at:
  assumes "n \<le> npages a e" and "unat e + 4096 \<le> 2 ^ 64"
  shows "unat (page_at a n) = unat a + 4096 * n"
proof (cases "n = 0")
  case False
  have "unat a + 4096 * n < 2 ^ 64" using assms False by (simp add: npages_def)
  then have "unat (4096 * of_nat n :: u64) = 4096 * n"
    by (simp add: unat_word_ariths unat_of_nat take_bit_nat_eq_self)
  with \<open>_ < 2 ^ 64\<close> show ?thesis by (simp add: page_at_def unat_add_no_wrap)
qed (simp add: page_at_def)

lemma page_at_less:
  assumes "n \<le> npages a e" and "unat e + 4096 \<le> 2 ^ 64"
  shows "page_at a n < e \<longleftrightarrow> n < npages a e"
  using unat_page_at [OF assms] by (auto simp: word_less_nat_alt npages_def)

lemma page_loop_rule:
  assumes step: "\<And>n s. n < npages a e \<Longrightarrow> P n s \<Longrightarrow>
      case body (page_at a n) s of Inl f \<Rightarrow> F f | Inr s' \<Rightarrow> P (Suc n) s'"
    and room: "unat e + 4096 \<le> 2 ^ 64" and P0: "P 0 s"
  shows "case page_loop body e a s of Inl f \<Rightarrow> F f | Inr s' \<Rightarrow> P (npages a e) s'"
proof -
  have "case page_loop body e (page_at a n) s of Inl f \<Rightarrow> F f | Inr s' \<Rightarrow> P (npages a e) s'"
    if "P n s" and "n \<le> npages a e" for n s
    using that
  proof (induction "npages a e - n" arbitrary: n s)
    case 0
    then have "\<not> page_at a n < e" using page_at_less [OF _ room] by simp
    with 0 show ?case by (simp add: page_loop.simps)
  next
    case (Suc d)
    then have n: "n < npages a e" by simp
    then have lt: "page_at a n < e" using page_at_less [OF _ room] by simp
    have nx: "page_at a n + RISCV_PGSIZE = page_at a (Suc n)"
      by (simp add: page_at_def RISCV_PGSIZE_def algebra_simps)
    have "\<not> page_at a (Suc n) < page_at a n"
      using unat_page_at [OF _ room, of n a] unat_page_at [OF _ room, of "Suc n" a] n
      by (simp add: word_less_nat_alt)
    then have eq: "page_loop body e (page_at a n) s =
        bind_res (body (page_at a n) s) (page_loop body e (page_at a (Suc n)))"
      using lt by (subst page_loop.simps) (simp add: nx)
    show ?case
    proof (cases "body (page_at a n) s")
      case (Inl f)
      then show ?thesis using step [OF n Suc.prems(1)] by (simp add: eq)
    next
      case (Inr s')
      then have "P (Suc n) s'" using step [OF n Suc.prems(1)] by simp
      moreover have "d = npages a e - Suc n" "Suc n \<le> npages a e" using Suc.hyps(2) n by auto
      ultimately show ?thesis using Suc.hyps(1) [of "Suc n" s'] by (simp add: eq Inr)
    qed
  qed
  from this [of 0 s] P0 show ?thesis by (simp add: page_at_def)
qed

definition page_keys :: "u64 \<Rightarrow> nat \<Rightarrow> vpn set" where
  "page_keys a n = (\<lambda>j. key (page_at a j)) ` {..<n}"

lemma page_keys_0 [simp]: "page_keys a 0 = {}"
  by (simp add: page_keys_def)

lemma page_keys_Suc: "page_keys a (Suc n) = insert (key (page_at a n)) (page_keys a n)"
  by (auto simp: page_keys_def lessThan_Suc)

text \<open>Unmapping a range always succeeds, clears its pages and no other, and keeps the counts.\<close>

lemma do_munmap_locked_spec:
  assumes inv: "vm_inv x pend s" and room: "unat (a + len) + 4096 \<le> 2 ^ 64"
  defines "K \<equiv> page_keys a (npages a (a + len))"
  shows "\<exists>s'. do_munmap_locked host a len s = Inr s' \<and> vm_inv x pend s' \<and>
    ptes s' = (\<lambda>k. if k \<in> K then 0 else ptes s k) \<and> leaf_slot s' = leaf_slot s \<and> same_env s s'"
proof -
  let ?P = "\<lambda>n s'. vm_inv x pend s' \<and>
    ptes s' = (\<lambda>k. if k \<in> page_keys a n then 0 else ptes s k) \<and> leaf_slot s' = leaf_slot s \<and> same_env s s'"
  have "case page_loop (munmap_page host) (a + len) a s of
      Inl f \<Rightarrow> False | Inr s' \<Rightarrow> ?P (npages a (a + len)) s'"
  proof (rule page_loop_rule [OF _ room])
    fix n s1 assume P: "?P n s1"
    then have inv1: "vm_inv x pend s1" by blast
    from munmap_page_spec [OF this, of host "page_at a n"] obtain s2
      where s2: "munmap_page host (page_at a n) s1 = Inr s2" "vm_inv x pend s2"
        "ptes s2 = (ptes s1)(key (page_at a n) := 0)" "leaf_slot s2 = leaf_slot s1" "same_env s1 s2"
      by blast
    have "ptes s2 = (\<lambda>k. if k \<in> page_keys a (Suc n) then 0 else ptes s k)"
      using P s2(3) by (auto simp: page_keys_Suc fun_eq_iff)
    with P s2 show "case munmap_page host (page_at a n) s1 of Inl f \<Rightarrow> False | Inr s' \<Rightarrow> ?P (Suc n) s'"
      using same_env_trans [of s s1 s2] by simp
  qed (use inv in auto)
  then show ?thesis by (auto simp: do_munmap_locked_def K_def split: sum.splits)
qed

section \<open>Mapping\<close>

lemma file_holds_new:
  assumes i: "i < length (vmrs s)" and n: "v_refcnt (vmrs s ! i) = 0" "v_refcnt v \<noteq> 0"
  shows "file_holds (s\<lparr>vmrs := (vmrs s)[i := v]\<rparr>) f =
           file_holds s f + (if v_file v = Some f then 1 else 0)"
proof -
  let ?A = "\<lambda>s. {j. j < length (vmrs s) \<and> v_refcnt (vmrs s ! j) \<noteq> 0 \<and> v_file (vmrs s ! j) = Some f}"
  let ?s' = "s\<lparr>vmrs := (vmrs s)[i := v]\<rparr>"
  have fin: "finite (?A s)" by simp
  show ?thesis
  proof (cases "v_file v = Some f")
    case True
    then have "?A ?s' = insert i (?A s)" using i n by (auto simp: nth_list_update split: if_splits)
    moreover have "i \<notin> ?A s" using i n by simp
    ultimately show ?thesis using True fin by (simp add: file_holds_def)
  next
    case False
    then have "?A s = ?A ?s'" using i n by (auto simp: nth_list_update split: if_splits)
    with False show ?thesis by (simp add: file_holds_def)
  qed
qed

lemma file_room:
  assumes inv: "vm_inv x pend s" and f: "f < MAX_FILES"
  shows "unat (refcnt (files s ! f)) + 1 < 2 ^ 32"
proof -
  have finv: "file_inv (\<lambda>f. x f + file_holds s f) s" and x: "x f < 2 ^ 31"
    using inv by (simp_all add: vm_inv_def)
  have "nrefs s f \<le> 128"
    using count_le_length [of "fds s" "Some f"] file_inv_lengths(2) [OF finv]
    by (simp add: nrefs_def MAX_FDS_def)
  moreover have "file_holds s f \<le> 102"
  proof -
    have "length (vmrs s) \<le> 102" using inv by (auto simp: vm_inv_def regions_ok_def MAX_VMR_def)
    moreover have "file_holds s f \<le> card {..<length (vmrs s)}"
      unfolding file_holds_def by (rule card_mono) auto
    ultimately show ?thesis by simp
  qed
  ultimately show ?thesis
    using file_inv_ok [OF finv f] x by (auto simp: file_ok_def split: if_splits)
qed

lemma set_refcnt_vm_frame [simp]:
  "pt_mem (set_refcnt f c s) = pt_mem s"
  "root_page_table (set_refcnt f c s) = root_page_table s"
  "vmrs_page (set_refcnt f c s) = vmrs_page s"
  "vmrs (set_refcnt f c s) = vmrs s"
  "first_free_page (set_refcnt f c s) = first_free_page s"
  "next_free_page (set_refcnt f c s) = next_free_page s"
  "free_pages (set_refcnt f c s) = free_pages s"
  "demand_paging (set_refcnt f c s) = demand_paging s"
  "current (set_refcnt f c s) = current s"
  "vm_lock (set_refcnt f c s) = vm_lock s"
  "satp (set_refcnt f c s) = satp s"
  by (simp_all add: set_refcnt_def)

text \<open>What allocating a region leaves alone.\<close>

definition same_space :: "vmstate \<Rightarrow> vmstate \<Rightarrow> bool" where
  "same_space s s' \<longleftrightarrow>
     vmrs_page s' = vmrs_page s \<and> current s' = current s \<and> vm_lock s' = vm_lock s \<and>
     demand_paging s' = demand_paging s \<and> first_free_paddr s' = first_free_paddr s \<and>
     fds s' = fds s \<and> root_page_table s' = root_page_table s"

lemma same_env_space: "same_env s s' \<Longrightarrow> same_space s s'"
  by (simp add: same_env_def same_space_def)

lemma same_space_trans: "same_space s s' \<Longrightarrow> same_space s' s'' \<Longrightarrow> same_space s s''"
  by (simp add: same_space_def)

definition borrowed :: "(nat \<Rightarrow> nat) \<Rightarrow> nat option \<Rightarrow> bool" where
  "borrowed x fo \<longleftrightarrow> (case fo of None \<Rightarrow> True | Some f \<Rightarrow> f < MAX_FILES \<and> 0 < x f)"

lemma vmr_alloc_spec:
  fixes addr len offset :: u64 and prot :: u32
  assumes inv: "vm_inv x pend s" and nz: "vmrs_page s \<noteq> 0"
    and hf: "borrowed x fo" and cnt: "cnt \<noteq> 0"
  defines "v \<equiv> \<lparr>v_addr = addr, v_length = len, v_file = fo, v_offset = offset,
                v_refcnt = cnt, v_prot = prot\<rparr>"
  shows "(\<forall>r \<in> set (vmrs s). v_refcnt r \<noteq> 0) \<and> vmr_alloc addr len fo offset cnt prot s = Inr (None, s) \<or>
    (\<exists>i s'. vmr_alloc addr len fo offset cnt prot s = Inr (Some i, s') \<and> i < MAX_VMR \<and> pend i = 0 \<and>
       vm_inv x (pend(i := unat cnt)) s' \<and> ptes s' = ptes s \<and> leaf_slot s' = leaf_slot s \<and>
       same_space s s' \<and> vmrs s' = (vmrs s)[i := v] \<and> v_refcnt (vmrs s ! i) = 0)"
proof (cases "find_from 0 (\<lambda>v. v_refcnt v = 0) (vmrs s)")
  case None
  then have "\<forall>r \<in> set (vmrs s). v_refcnt r \<noteq> 0" by (simp add: find_from_None)
  then show ?thesis using nz None by (simp add: vmr_alloc_def vmrs_init_def)
next
  case (Some i)
  then have len: "i < length (vmrs s)" and free: "v_refcnt (vmrs s ! i) = 0"
    by (simp_all add: find_from_Some)
  have i: "i < MAX_VMR" using len vm_inv_page(2) [OF inv nz] by simp
  from vm_inv_region [OF inv len] free
  have p0: "pend i = 0" and e0: "pt.entries s (vmr_ptr s i) = 0" by (simp_all add: region_ok_def)
  have rok: "region_ok (pt.entries s (vmr_ptr s i) + unat cnt) v"
    using e0 hf by (auto simp: region_ok_def v_def borrowed_def split: option.splits)
  have finv: "file_inv (\<lambda>f. x f + file_holds s f) s" using inv by (simp add: vm_inv_def)
  let ?s1 = "s\<lparr>vmrs := (vmrs s)[i := v]\<rparr>"
  note fh = file_holds_new [OF len free, of v]
  have cv: "v_refcnt v \<noteq> 0" using cnt by (simp add: v_def)
  show ?thesis
  proof (cases fo)
    case None
    then have "file_inv (\<lambda>f. x f + file_holds ?s1 f) ?s1" using finv fh cv by (simp add: v_def)
    from vm_inv_regions [OF inv len _ _ _ _ _ _ _ rok, of ?s1, OF _ _ _ _ _ _ _ this]
    show ?thesis
      using Some None nz i p0 free
      by (auto simp: vmr_alloc_def vmrs_init_def v_def same_space_def)
  next
    case f: (Some f)
    have fl: "f < MAX_FILES" and xf: "0 < x f" using hf f by (simp_all add: borrowed_def)
    let ?b = "\<lambda>f. x f + file_holds s f"
    have live: "refcnt (files s ! f) \<noteq> 0"
      using file_inv_ok [OF finv fl] xf by (auto simp: file_ok_def word_neq_0_unat)
    let ?s2 = "set_refcnt f (refcnt (files s ! f) + 1) s"
    let ?s3 = "?s2\<lparr>vmrs := (vmrs s)[i := v]\<rparr>"
    have "file_inv (?b(f := Suc (?b f))) ?s3"
      using file_inv_borrow [OF finv fl live file_room [OF inv fl]] by simp
    moreover have "?b(f := Suc (?b f)) = (\<lambda>f. x f + file_holds ?s3 f)"
      using fh cv f by (auto simp: v_def file_holds_def)
    ultimately have "file_inv (\<lambda>f. x f + file_holds ?s3 f) ?s3" by simp
    from vm_inv_regions [OF inv len _ _ _ _ _ _ _ rok, of ?s3, OF _ _ _ _ _ _ _ this]
    show ?thesis
      using Some f nz i p0 free file_incref_live [OF finv fl live]
      by (auto simp: vmr_alloc_def vmrs_init_def v_def same_space_def)
  qed
qed

end
