(* ===== verification/Pk_Fault.thy ===== *)
theory Pk_Fault
  imports Pk_Regions
begin

text \<open>
  Page faults and the system calls on mappings of \<^verbatim>\<open>pk/mmap.c\<close>: each keeps the invariant
  \<^verbatim>\<open>vm_inv\<close>, handling a fault never faults again, and what each call does to the entries of the
  address space.
\<close>

section \<open>Entries\<close>

lemma and_or_keep: "(t::u64) AND b \<noteq> 0 \<Longrightarrow> (x OR t) AND b \<noteq> 0"
proof
  assume t: "t AND b \<noteq> 0" and "(x OR t) AND b = 0"
  then have "(x AND b) OR (t AND b) = 0" by (simp add: bit.conj_disj_distrib2)
  then have "t AND b = 0" by (simp add: or_eq_0_iff)
  with t show False by simp
qed

lemma pte_create_V: "pte_create n t AND PTE_V \<noteq> 0"
proof -
  have "PTE_V AND PTE_V \<noteq> 0" by (simp add: PTE_V_def)
  from and_or_keep [OF this, of "push_bit PTE_PPN_SHIFT n OR t"] show ?thesis
    by (simp add: pte_create_def ac_simps)
qed

lemma pte_create_keep: "t AND b \<noteq> 0 \<Longrightarrow> pte_create n t AND b \<noteq> 0"
  by (simp add: pte_create_def and_or_keep)

lemma pte_create_nz: "pte_create n t \<noteq> 0"
  using pte_create_V [of n t] by auto

section \<open>Populating the page being faulted in\<close>

lemma key_page: "key (push_bit 12 (drop_bit 12 a)) = key a"
proof -
  have "idx9 (push_bit 12 (drop_bit 12 a)) l = idx9 a l" for l
    unfolding idx9_def
    by (rule bit_word_eqI) (auto simp: bit_simps ac_simps dest: bit_imp_le_length)
  then show ?thesis by (simp add: key_def)
qed

lemma aligned_page: "aligned (push_bit 12 (drop_bit 12 a))"
proof -
  have "push_bit 12 (drop_bit 12 a) AND (mask 12 :: u64) = 0"
    by (rule bit_word_eqI) (auto simp: bit_simps)
  moreover have "(mask 12 :: u64) = 4095" by (simp add: mask_eq_exp_minus_1)
  ultimately show ?thesis by (simp add: aligned_def word_and_mask_0_iff)
qed

lemma populate_accessible:
  assumes acc: "accessible a prot s" and al: "aligned a" and n: "n \<le> 4096"
    and room: "unat a + 8192 \<le> 2 ^ 64"
  shows "populate_with h a n prot s = Inr s"
proof -
  have r: "ROUNDDOWN a RISCV_PGSIZE = a"
  proof -
    obtain q where q: "unat a = 4096 * q" using al by (auto simp: aligned_def)
    have "unat a < 2 ^ 64" using unsigned_less [of a, where 'a = nat] by simp
    with q show ?thesis
      by (simp add: ROUNDDOWN_def RISCV_PGSIZE_def word_unat_eq_iff unat_word_ariths unat_div)
  qed
  have "unat n \<le> 4096" using n by (simp add: word_le_nat_alt)
  then have "unat (a + n) = unat a + unat n" using room by (intro unat_add_no_wrap) simp
  moreover have "unat (a + 4096) = unat a + 4096" using room by (simp add: unat_add_no_wrap)
  ultimately have "\<not> a + 4096 < a + n" "\<not> a + 4096 < a"
    using \<open>unat n \<le> 4096\<close> by (simp_all add: word_less_nat_alt)
  then show ?thesis
    unfolding populate_with_def r
    by (subst page_loop.simps, subst page_loop.simps) (simp add: touch_def acc RISCV_PGSIZE_def)
qed

section \<open>Frames of memory updates\<close>

lemma mem_frame:
  "leaf_slot (s\<lparr>requests := q, pmem := m\<rparr>) = leaf_slot s"
  "ptes (s\<lparr>requests := q, pmem := m\<rparr>) = ptes s"
  "vm_inv x pend (s\<lparr>requests := q, pmem := m\<rparr>) \<longleftrightarrow> vm_inv x pend s"
  "same_env t (s\<lparr>requests := q, pmem := m\<rparr>) \<longleftrightarrow> same_env t s"
proof -
  let ?s = "s\<lparr>requests := q, pmem := m\<rparr>"
  show l: "leaf_slot ?s = leaf_slot s"
  proof
    fix k show "leaf_slot ?s k = leaf_slot s k" by (cases k) (simp del: tbl.simps)
  qed
  show p: "ptes ?s = ptes s" by (simp add: fun_eq_iff ptes_def l)
  show "same_env t ?s \<longleftrightarrow> same_env t s" by (simp add: same_env_def)
  have "pt_ok ?s \<longleftrightarrow> pt_ok s"
    by (simp add: pt_ok_def pool_ok_def tables_ok_def in_pool_def pool_page_def)
  moreover have "vmr_ptr ?s = vmr_ptr s" by (simp add: fun_eq_iff vmr_ptr_def)
  moreover have "pt.entries ?s = pt.entries s" by (simp add: fun_eq_iff pt.entries_def p)
  moreover have "file_inv b ?s \<longleftrightarrow> file_inv b s" for b
    by (simp add: file_inv_def file_ok_def nrefs_def)
  moreover have "file_holds ?s = file_holds s" by (simp add: fun_eq_iff file_holds_def)
  ultimately show "vm_inv x pend ?s \<longleftrightarrow> vm_inv x pend s"
    by (simp add: vm_inv_def regions_ok_def entry_ok_def p)
qed

lemma pmem_frame:
  "leaf_slot (s\<lparr>pmem := m\<rparr>) = leaf_slot s"
  "ptes (s\<lparr>pmem := m\<rparr>) = ptes s"
  "vm_inv x pend (s\<lparr>pmem := m\<rparr>) \<longleftrightarrow> vm_inv x pend s"
  "same_env t (s\<lparr>pmem := m\<rparr>) \<longleftrightarrow> same_env t s"
  using mem_frame [where s = s and q = "requests s" and m = m] by simp_all

text \<open>The states that differ in the requests sent and the bytes of user memory only.\<close>

definition mem_of :: "vmstate \<Rightarrow> vmstate \<Rightarrow> bool" where
  "mem_of s s' \<longleftrightarrow> s' = s\<lparr>requests := requests s', pmem := pmem s'\<rparr>"

lemma mem_ofE:
  assumes "mem_of s s'"
  obtains q m where "s' = s\<lparr>requests := q, pmem := m\<rparr>"
  using assms that by (auto simp: mem_of_def)

lemma mem_of_frontend: "mem_of s (snd (frontend_syscall host n a0 a1 a2 a3 a4 a5 a6 s))"
  by (simp add: mem_of_def frontend_syscall_def Let_def split: prod.splits)

lemma mem_of_memset: "mem_of s s' \<Longrightarrow> mem_of s (memset0 pa n s')"
  by (elim mem_ofE) (simp add: mem_of_def memset0_def)

lemma mem_of_refl: "mem_of s s"
  by (simp add: mem_of_def)

lemma mem_of_frame:
  assumes "mem_of s s'"
  shows "leaf_slot s' = leaf_slot s" and "ptes s' = ptes s" and "vm_inv x pend s' \<longleftrightarrow> vm_inv x pend s"
    and "same_env t s' \<longleftrightarrow> same_env t s" and "vmrs s' = vmrs s" and "vmrs_page s' = vmrs_page s"
    and "pt_mem s' = pt_mem s" and "first_free_paddr s' = first_free_paddr s"
  using assms by (auto elim!: mem_ofE simp: mem_frame)

section \<open>Bringing a page in\<close>

lemma vmr_meta:
  assumes "same_env s s'" and "i < length (vmrs s)"
  shows "v_prot (vmrs s' ! i) = v_prot (vmrs s ! i)" and "v_file (vmrs s' ! i) = v_file (vmrs s ! i)"
    and "v_addr (vmrs s' ! i) = v_addr (vmrs s ! i)" and "v_length (vmrs s' ! i) = v_length (vmrs s ! i)"
    and "v_offset (vmrs s' ! i) = v_offset (vmrs s ! i)" and "length (vmrs s') = length (vmrs s)"
proof -
  have m: "map (v_refcnt_update (\<lambda>_. 0)) (vmrs s') = map (v_refcnt_update (\<lambda>_. 0)) (vmrs s)"
    using assms(1) by (simp add: same_env_def)
  show len: "length (vmrs s') = length (vmrs s)" using m by (metis length_map)
  have "(vmrs s' ! i)\<lparr>v_refcnt := 0\<rparr> = (vmrs s ! i)\<lparr>v_refcnt := 0\<rparr>"
    using arg_cong [OF m, of "\<lambda>l. l ! i"] assms(2) len by simp
  then have "g ((vmrs s' ! i)\<lparr>v_refcnt := 0\<rparr>) = g ((vmrs s ! i)\<lparr>v_refcnt := 0\<rparr>)" for g :: "vmr_t \<Rightarrow> 'b"
    by simp
  from this [of v_prot] this [of v_file] this [of v_addr] this [of v_length] this [of v_offset]
  show "v_prot (vmrs s' ! i) = v_prot (vmrs s ! i)" and "v_file (vmrs s' ! i) = v_file (vmrs s ! i)"
    and "v_addr (vmrs s' ! i) = v_addr (vmrs s ! i)" and "v_length (vmrs s' ! i) = v_length (vmrs s ! i)"
    and "v_offset (vmrs s' ! i) = v_offset (vmrs s ! i)"
    by simp_all
qed

text \<open>The bytes of the page: zeros, or what the host delivers followed by zeros.\<close>

definition fill_page :: "host \<Rightarrow> vmstate populate \<Rightarrow> vmr_t \<Rightarrow> u64 \<Rightarrow> u64 \<Rightarrow> vmstate \<Rightarrow> vmstate res" where
  "fill_page host populate v vaddr pa s1 =
     (case v_file v of
        Some f \<Rightarrow>
          (let flen = min RISCV_PGSIZE (v_length v - (vaddr - v_addr v))
           in bind_res
                (file_pread host populate f vaddr flen (vaddr - v_addr v + v_offset v) s1)
                (\<lambda>(ret, s2). kassert (0 < sint ret)
                   (Inr (if sint ret < 4096
                         then memset0 (pa + ret) (RISCV_PGSIZE - ret) s2 else s2))))
      | None \<Rightarrow> Inr (memset0 pa RISCV_PGSIZE s1))"

lemma fill_page_spec:
  assumes acc: "accessible va PROT_WRITE s1" and al: "aligned va" and room: "unat va + 8192 \<le> 2 ^ 64"
  shows "case fill_page host (populate_with h) v va pa s1 of
      Inl e \<Rightarrow> e = Assertion \<and> v_file v \<noteq> None
    | Inr s2 \<Rightarrow> mem_of s1 s2 \<and> (v_file v = None \<longrightarrow> s2 = memset0 pa RISCV_PGSIZE s1)"
    and "fill_page host (populate_with h) v va pa s1 = fill_page host (populate_with h') v va pa s1"
proof -
  have pop: "populate_with g va (min RISCV_PGSIZE y) PROT_WRITE s1 = Inr s1" for g y
    by (rule populate_accessible [OF acc al _ room]) (simp add: RISCV_PGSIZE_def)
  show "case fill_page host (populate_with h) v va pa s1 of
      Inl e \<Rightarrow> e = Assertion \<and> v_file v \<noteq> None
    | Inr s2 \<Rightarrow> mem_of s1 s2 \<and> (v_file v = None \<longrightarrow> s2 = memset0 pa RISCV_PGSIZE s1)"
  proof (cases "v_file v")
    case None
    then show ?thesis by (simp add: fill_page_def mem_of_memset mem_of_refl)
  next
    case (Some f)
    define r where "r = frontend_syscall host SYS_pread (scast (kfd (files s1 ! f))) (va2pa s1 va)
      (min RISCV_PGSIZE (v_length v - (va - v_addr v))) (va - v_addr v + v_offset v) 0 0 0 s1"
    have "mem_of s1 (snd r)" unfolding r_def by (rule mem_of_frontend)
    moreover have "fill_page host (populate_with h) v va pa s1 =
        kassert (0 < sint (fst r)) (Inr (if sint (fst r) < 4096
           then memset0 (pa + fst r) (RISCV_PGSIZE - fst r) (snd r) else snd r))"
      by (simp add: fill_page_def Some Let_def file_pread_def pop r_def prod.case_eq_if)
    ultimately show ?thesis using Some by (auto simp: kassert_def mem_of_memset)
  qed
  show "fill_page host (populate_with h) v va pa s1 = fill_page host (populate_with h') v va pa s1"
    by (cases "v_file v") (simp_all add: fill_page_def file_pread_def Let_def pop)
qed

lemma page_in_spec:
  assumes inv: "vm_inv x pend s" and slot: "leaf_slot s (key va) = Some pte"
    and i: "vmrs_page s \<noteq> 0" "i < MAX_VMR" "ptes s (key va) = vmr_ptr s i"
    and al: "aligned va" and room: "unat va + 8192 \<le> 2 ^ 64"
  defines "v \<equiv> vmrs s ! i" and "n \<equiv> drop_bit RISCV_PGSHIFT va + first_free_paddr s div RISCV_PGSIZE"
  shows "case page_in host (populate_with h) va pte s of
      Inl e \<Rightarrow> e = Assertion \<and> v_file v \<noteq> None
    | Inr s' \<Rightarrow> vm_inv x pend s' \<and> leaf_slot s' = leaf_slot s \<and> same_env s s' \<and>
        ptes s' = (ptes s)(key va := pte_create n (prot_to_type (v_prot v) True)) \<and>
        (v_file v = None \<longrightarrow>
           pmem s' = (\<lambda>a. if a - push_bit RISCV_PGSHIFT n < RISCV_PGSIZE then 0 else pmem s a))"
    and "page_in host (populate_with h) va pte s = page_in host (populate_with h') va pte s"
proof -
  from inv have ok: "pt_ok s" by (simp add: vm_inv_def)
  define e1 where "e1 = pte_create n (prot_to_type (PROT_READ OR PROT_WRITE) False)"
  define e2 where "e2 = pte_create n (prot_to_type (v_prot v) True)"
  define s1 where "s1 = set_pte pte e1 s"
  have V: "e1 AND PTE_V \<noteq> 0" "e2 AND PTE_V \<noteq> 0" by (simp_all add: e1_def e2_def pte_create_V)
  have inv1: "vm_inv x (pend(i := Suc (pend i))) s1"
    unfolding s1_def by (rule vm_inv_unlink [OF inv slot i]) (use V in simp)
  have slot1: "leaf_slot s1 = leaf_slot s" unfolding s1_def by (rule set_pte_leaf_slot [OF ok slot])
  have pt1: "ptes s1 = (ptes s)(key va := e1)" unfolding s1_def by (rule set_pte_ptes [OF ok slot])
  have "e1 AND PTE_R \<noteq> 0" "e1 AND PTE_W \<noteq> 0"
    by (simp_all add: e1_def pte_create_keep prot_to_type_def prot_defs pte_defs)
  moreover have "pt_mem s1 pte = e1" by (simp add: s1_def set_pte_def)
  ultimately have acc: "accessible va PROT_WRITE s1"
    using V by (simp add: accessible_def walk_leaf slot1 slot)
  have vo: "vmr_of s (pt_mem s pte) = Inr i"
    using vmr_ptr_facts(4) [OF vm_inv_page(1) [OF inv i(1)] i(1,2) vm_inv_page(2) [OF inv i(1)]] i(3)
    by (simp add: ptes_slot [OF slot])
  have eq: "page_in host (populate_with g) va pte s =
      bind_res (fill_page host (populate_with g) v va (push_bit RISCV_PGSHIFT n) s1)
        (\<lambda>s2. bind_res (vmr_decref host i 1 s2)
           (\<lambda>s3. Inr (set_pte pte (pte_create n (prot_to_type (v_prot (vmrs s3 ! i)) True)) s3)))" for g
    by (simp add: page_in_def vo fill_page_def Let_def v_def n_def s1_def e1_def)
  show "page_in host (populate_with h) va pte s = page_in host (populate_with h') va pte s"
    unfolding eq by (simp only: fill_page_spec(2) [OF acc al room, where h = h and h' = h'])
  note F = fill_page_spec(1) [OF acc al room, where host = host and h = h and v = v
      and pa = "push_bit RISCV_PGSHIFT n"]
  show "case page_in host (populate_with h) va pte s of
      Inl e \<Rightarrow> e = Assertion \<and> v_file v \<noteq> None
    | Inr s' \<Rightarrow> vm_inv x pend s' \<and> leaf_slot s' = leaf_slot s \<and> same_env s s' \<and>
        ptes s' = (ptes s)(key va := e2) \<and>
        (v_file v = None \<longrightarrow>
           pmem s' = (\<lambda>a. if a - push_bit RISCV_PGSHIFT n < RISCV_PGSIZE then 0 else pmem s a))"
  proof (cases "fill_page host (populate_with h) v va (push_bit RISCV_PGSHIFT n) s1")
    case (Inl e)
    then show ?thesis using F by (simp add: eq)
  next
    case (Inr s2)
    with F have m2: "mem_of s1 s2" and z: "v_file v = None \<Longrightarrow> s2 = memset0 (push_bit RISCV_PGSHIFT n) RISCV_PGSIZE s1"
      by simp_all
    note fr = mem_of_frame [OF m2]
    have nz2: "vmrs_page s2 \<noteq> 0" and vm2: "vmrs s2 = vmrs s"
      using i(1) by (simp_all add: fr s1_def region_frame)
    have inv2: "vm_inv x (pend(i := Suc (pend i))) s2" by (simp add: fr(3) inv1)
    from vmr_decref_spec [OF inv2 nz2 i(2), of "pend i" host, unfolded vm2, folded v_def]
    obtain s3 where s3: "vmr_decref host i 1 s2 = Inr s3" "vm_inv x pend s3" "ptes s3 = ptes s2"
      "leaf_slot s3 = leaf_slot s2" "same_env s2 s3" "v_file v = None \<longrightarrow> pmem s3 = pmem s2"
      by auto
    have len: "i < length (vmrs s2)" using vm_inv_page(2) [OF inv i(1)] i(2) by (simp add: vm2)
    have "v_prot (vmrs s3 ! i) = v_prot v" using vmr_meta(1) [OF s3(5) len] by (simp add: vm2 v_def)
    then have res: "page_in host (populate_with h) va pte s = Inr (set_pte pte e2 s3)"
      by (simp add: eq Inr s3(1) e2_def)
    have slot3: "leaf_slot s3 (key va) = Some pte" by (simp add: s3(4) fr(1) slot1 slot)
    have ok3: "pt_ok s3" using s3(2) by (simp add: vm_inv_def)
    have "ptes s3 (key va) = e1" by (simp add: s3(3) fr(2) pt1)
    then have "vm_inv x pend (set_pte pte e2 s3)"
      using vm_inv_plain [OF s3(2) slot3] V by simp
    moreover have "ptes (set_pte pte e2 s3) = (ptes s)(key va := e2)"
      by (simp add: set_pte_ptes [OF ok3 slot3] s3(3) fr(2) pt1)
    moreover have "leaf_slot (set_pte pte e2 s3) = leaf_slot s"
      by (simp add: set_pte_leaf_slot [OF ok3 slot3] s3(4) fr(1) slot1)
    moreover have "same_env s s3"
      by (rule same_env_trans [OF _ s3(5)]) (simp add: fr(4) s1_def)
    moreover have "pmem (set_pte pte e2 s3) =
        (\<lambda>a. if a - push_bit RISCV_PGSHIFT n < RISCV_PGSIZE then 0 else pmem s a)" if "v_file v = None"
      using s3(6) z that by (simp add: set_pte_def memset0_def s1_def cong: if_cong)
    ultimately show ?thesis by (simp add: res)
  qed
qed

section \<open>Handling a fault\<close>

text \<open>The memory map leaves room above the user's addresses.\<close>

definition low_space :: "vmstate \<Rightarrow> bool" where
  "low_space s \<longleftrightarrow> mmap_max (current s) \<le> DRAM_BASE"

lemma user_page_room:
  assumes "low_space s" and "valid_user_range va 1 s"
  shows "unat va < unat (mmap_max (current s))" and "unat va + 8192 \<le> 2 ^ 64"
proof -
  from assms(2) have "\<not> va + 1 < va" and le: "va + 1 \<le> mmap_max (current s)"
    by (auto simp: valid_user_range_def split: if_splits)
  then have "unat (va + 1) = unat va + 1"
    by (metis not_less unat_plus_simple unsigned_1)
  with le show lt: "unat va < unat (mmap_max (current s))" by (simp add: word_le_nat_alt)
  have "unat (mmap_max (current s)) \<le> 0x80000000"
    using assms(1) by (simp add: low_space_def DRAM_BASE_def word_le_nat_alt)
  with lt show "unat va + 8192 \<le> 2 ^ 64" by simp
qed

definition fault_result :: "vmstate \<Rightarrow> u64 \<Rightarrow> u32 \<Rightarrow> u32 \<times> vmstate \<Rightarrow> bool" where
  "fault_result s vaddr prot = (\<lambda>(r, s').
     leaf_slot s' = leaf_slot s \<and> same_env s s' \<and>
     (\<forall>k. k \<noteq> key vaddr \<longrightarrow> ptes s' k = ptes s k) \<and>
     (ptes s (key vaddr) = 0 \<longrightarrow> r = -1 \<and> s' = s) \<and>
     (r = -1 \<or> r = 0 \<and> ptes s' (key vaddr) AND PTE_V \<noteq> 0 \<and>
        (let perms = pte_create 0 (prot_to_type prot True)
         in ptes s' (key vaddr) AND perms = perms)))"

lemma handle_page_fault_fuel_spec:
  assumes inv: "vm_inv x pend s" and low: "low_space s"
  shows "case handle_page_fault_fuel (Suc n) host vaddr prot s of
      Inl e \<Rightarrow> e = Assertion
    | Inr r \<Rightarrow> fault_result s vaddr prot r \<and> vm_inv x pend (snd r)"
    and "handle_page_fault_fuel (Suc n) host vaddr prot s = handle_page_fault_fuel (Suc m) host vaddr prot s"
proof -
  define va where "va = push_bit RISCV_PGSHIFT (drop_bit RISCV_PGSHIFT vaddr)"
  have al: "aligned va" and key: "key va = key vaddr"
    by (simp_all add: va_def pg_defs aligned_page key_page)
  let ?h = "\<lambda>n a p. locked (handle_page_fault_fuel n host a p)"
  let ?perms = "pte_create 0 (prot_to_type prot True)"
  have unf: "handle_page_fault_fuel (Suc n) host vaddr prot s =
    (case leaf_slot s (key vaddr) of None \<Rightarrow> Inr (-1, s)
     | Some pte \<Rightarrow>
        if ptes s (key vaddr) = 0 \<or> \<not> valid_user_range va 1 s then Inr (-1, s)
        else bind_res (if ptes s (key vaddr) AND PTE_V = 0 then page_in host (populate_with (?h n)) va pte s
                       else Inr s)
               (\<lambda>s1. if pt_mem s1 pte AND ?perms \<noteq> ?perms then Inr (-1, s1) else Inr (0, s1)))" for n
    by (simp add: Let_def walk_leaf key va_def [symmetric] ptes_def split: option.splits)
  have "(case handle_page_fault_fuel (Suc n) host vaddr prot s of
      Inl e \<Rightarrow> e = Assertion
    | Inr r \<Rightarrow> fault_result s vaddr prot r \<and> vm_inv x pend (snd r)) \<and>
    handle_page_fault_fuel (Suc n) host vaddr prot s = handle_page_fault_fuel (Suc m) host vaddr prot s"
  proof (cases "leaf_slot s (key vaddr)")
    case None
    then show ?thesis
      using inv by (simp add: unf fault_result_def ptes_def del: handle_page_fault_fuel.simps)
  next
    case (Some pte)
    note pm = ptes_slot [OF Some]
    show ?thesis
    proof (cases "ptes s (key vaddr) = 0 \<or> \<not> valid_user_range va 1 s")
      case True
      then show ?thesis
        using Some inv by (auto simp: unf fault_result_def simp del: handle_page_fault_fuel.simps)
    next
      case False
      then have nz: "ptes s (key vaddr) \<noteq> 0" and vr: "valid_user_range va 1 s" by auto
      note room = user_page_room(2) [OF low vr]
      have U: "handle_page_fault_fuel (Suc n) host vaddr prot s =
          bind_res (if ptes s (key vaddr) AND PTE_V = 0 then page_in host (populate_with (?h n)) va pte s
                    else Inr s)
            (\<lambda>s1. if pt_mem s1 pte AND ?perms \<noteq> ?perms then Inr (-1, s1) else Inr (0, s1))" for n
        using Some nz vr by (simp add: unf del: handle_page_fault_fuel.simps)
      show ?thesis
      proof (cases "ptes s (key vaddr) AND PTE_V = 0")
        case V: True
        with nz inv obtain i where i: "vmrs_page s \<noteq> 0" "i < MAX_VMR" "ptes s (key va) = vmr_ptr s i"
          unfolding key by (elim entry_cases [where k = "key vaddr"]) auto
        have sl: "leaf_slot s (key va) = Some pte" by (simp add: key Some)
        note P = page_in_spec [OF inv sl i al room, where host = host]
        have same: "handle_page_fault_fuel (Suc n) host vaddr prot s = handle_page_fault_fuel (Suc m) host vaddr prot s"
          unfolding U by (simp only: P(2) [where h = "?h n" and h' = "?h m"])
        show ?thesis
        proof (cases "page_in host (populate_with (?h n)) va pte s")
          case (Inl e)
          then show ?thesis
            using P(1) [where h = "?h n"] V
            by (intro conjI [OF _ same]) (simp add: U del: handle_page_fault_fuel.simps)
        next
          case (Inr s')
          with P(1) [where h = "?h n"] have s': "vm_inv x pend s'" "leaf_slot s' = leaf_slot s"
            "same_env s s'" "\<forall>k. k \<noteq> key vaddr \<longrightarrow> ptes s' k = ptes s k" "ptes s' (key vaddr) AND PTE_V \<noteq> 0"
            by (simp_all add: key pte_create_V)
          have "ptes s' (key vaddr) = pt_mem s' pte" by (simp add: ptes_def s'(2) Some)
          then show ?thesis
            using Inr s' V nz
            by (intro conjI [OF _ same])
              (auto simp: U fault_result_def Let_def simp del: handle_page_fault_fuel.simps)
        qed
      next
        case V: False
        then show ?thesis
          using inv nz pm by (auto simp: U fault_result_def Let_def simp del: handle_page_fault_fuel.simps)
      qed
    qed
  qed
  then show "case handle_page_fault_fuel (Suc n) host vaddr prot s of
      Inl e \<Rightarrow> e = Assertion
    | Inr r \<Rightarrow> fault_result s vaddr prot r \<and> vm_inv x pend (snd r)"
    and "handle_page_fault_fuel (Suc n) host vaddr prot s = handle_page_fault_fuel (Suc m) host vaddr prot s"
    by blast+
qed

lemma handle_page_fault_locked_spec:
  assumes "vm_inv x pend s" and "low_space s"
  shows "case handle_page_fault_locked host vaddr prot s of
      Inl e \<Rightarrow> e = Assertion
    | Inr r \<Rightarrow> fault_result s vaddr prot r \<and> vm_inv x pend (snd r)"
  using handle_page_fault_fuel_spec(1) [OF assms, where n = 1]
  by (simp add: handle_page_fault_locked_def numeral_2_eq_2 del: handle_page_fault_fuel.simps)

end
