(* ===== verification/Pk_Mmap.thy ===== *)
theory Pk_Mmap
  imports Pk_Fault
begin

text \<open>
  The system calls on mappings of \<^verbatim>\<open>pk/mmap.c\<close>: the choice of an address by \<^verbatim>\<open>__vm_alloc\<close>, and
  what \<^verbatim>\<open>mmap\<close>, \<^verbatim>\<open>munmap\<close>, \<^verbatim>\<open>brk\<close> and \<^verbatim>\<open>mprotect\<close> do to the address space.
\<close>

section \<open>Choosing an address\<close>

definition range_free :: "vmstate \<Rightarrow> u64 \<Rightarrow> nat \<Rightarrow> bool" where
  "range_free s a n \<longleftrightarrow> (\<forall>t < n. va_avail (page_at a t) s)"

lemma page_at_0 [simp]: "page_at a 0 = a"
  by (simp add: page_at_def)

lemma page_at_add: "page_at (page_at a m) n = page_at a (m + n)"
  by (simp add: page_at_def algebra_simps)

lemma page_at_Suc: "page_at a (Suc n) = page_at a n + RISCV_PGSIZE"
  by (simp add: page_at_def RISCV_PGSIZE_def algebra_simps)

lemma unat_page_at': "unat a + 4096 * n < 2 ^ 64 \<Longrightarrow> unat (page_at a n) = unat a + 4096 * n"
proof -
  assume lt: "unat a + 4096 * n < 2 ^ 64"
  then have "unat (4096 * of_nat n :: u64) = 4096 * n"
    by (simp add: unat_word_ariths unat_of_nat take_bit_nat_eq_self)
  with lt show ?thesis by (simp add: page_at_def unat_add_no_wrap)
qed

lemma scan_down_spec:
  assumes "unat a + 4096 * j < 2 ^ 64"
  shows "\<exists>i \<le> j. scan_down s a (page_at a j) = Inr (page_at a i) \<and>
    (\<forall>t. i < t \<and> t \<le> j \<longrightarrow> va_avail (page_at a t) s) \<and> (0 < i \<longrightarrow> \<not> va_avail (page_at a i) s)"
  using assms
proof (induction j)
  case 0
  then show ?case by (simp add: scan_down.simps)
next
  case (Suc j)
  note u = unat_page_at' [OF Suc.prems]
  then have gt: "a < page_at a (Suc j)" and big: "\<not> page_at a (Suc j) < RISCV_PGSIZE"
    by (simp_all add: word_less_nat_alt RISCV_PGSIZE_def)
  show ?case
  proof (cases "va_avail (page_at a (Suc j)) s")
    case True
    have "scan_down s a (page_at a (Suc j)) = scan_down s a (page_at a j)"
      using True gt big by (subst scan_down.simps) (simp add: page_at_Suc)
    with Suc True show ?thesis by (auto simp: le_Suc_eq)
  next
    case False
    then have "scan_down s a (page_at a (Suc j)) = Inr (page_at a (Suc j))"
      by (subst scan_down.simps) simp
    with False show ?thesis by auto
  qed
qed

text \<open>
  The first range of \<^verbatim>\<open>N\<close> free pages among those that start at \<^verbatim>\<open>a\<close>, one page later, and so
  on up to \<^verbatim>\<open>e\<close>; 0 when there is none.
\<close>

definition first_fit :: "vmstate \<Rightarrow> u64 \<Rightarrow> nat \<Rightarrow> u64 \<Rightarrow> u64 \<Rightarrow> bool" where
  "first_fit s e N a r \<longleftrightarrow>
     r = 0 \<and> (\<forall>m. unat a + 4096 * m \<le> unat e \<longrightarrow> \<not> range_free s (page_at a m) N) \<or>
     (\<exists>m. r = page_at a m \<and> unat a + 4096 * m \<le> unat e \<and> range_free s r N \<and>
          (\<forall>m' < m. \<not> range_free s (page_at a m') N))"

lemma first_fit_skip:
  assumes i: "i < N" and na: "\<not> va_avail (page_at a i) s" and lt: "unat a + 4096 * Suc i < 2 ^ 64"
    and r: "first_fit s e N (page_at a (Suc i)) r"
  shows "first_fit s e N a r"
proof -
  let ?a' = "page_at a (Suc i)"
  note u = unat_page_at' [OF lt]
  have blocked: "\<not> range_free s (page_at a m) N" if "m \<le> i" for m
  proof
    assume "range_free s (page_at a m) N"
    then have "va_avail (page_at (page_at a m) (i - m)) s" using i by (auto simp: range_free_def)
    with na that show False by (simp add: page_at_add)
  qed
  have shift: "page_at ?a' m = page_at a (Suc i + m)" for m by (simp add: page_at_add)
  have later: "\<exists>k. m = Suc i + k" if "\<not> m \<le> i" for m
    using that by (intro exI [of _ "m - Suc i"]) simp
  from r consider "r = 0" "\<forall>m. unat ?a' + 4096 * m \<le> unat e \<longrightarrow> \<not> range_free s (page_at ?a' m) N"
    | m where "r = page_at ?a' m" "unat ?a' + 4096 * m \<le> unat e" "range_free s r N"
        "\<forall>m' < m. \<not> range_free s (page_at ?a' m') N"
    unfolding first_fit_def by blast
  then show ?thesis
  proof cases
    case 1
    have "\<not> range_free s (page_at a m) N" if "unat a + 4096 * m \<le> unat e" for m
      using blocked later [of m] 1(2) that u by (cases "m \<le> i") (auto simp: shift)
    with 1(1) show ?thesis by (simp add: first_fit_def)
  next
    case (2 m)
    have "\<not> range_free s (page_at a m') N" if "m' < Suc i + m" for m'
      using blocked later [of m'] 2(4) that by (cases "m' \<le> i") (auto simp: shift)
    with 2 u show ?thesis by (auto simp: first_fit_def shift intro!: exI [of _ "Suc i + m"])
  qed
qed

lemma vm_alloc_loop_spec:
  assumes n: "0 < unat npage" and room: "unat e + 4096 * unat npage < 2 ^ 64"
  shows "\<exists>r. vm_alloc_loop s npage e a = Inr r \<and> first_fit s e (unat npage) a r"
proof (induction "2 ^ 64 - unat a" arbitrary: a rule: less_induct)
  case less
  let ?N = "unat npage"
  have skip: ?case if i: "i < ?N" and na: "\<not> va_avail (page_at a i) s" and le: "a \<le> e"
    and eq: "vm_alloc_loop s npage e a =
       (if page_at a i + RISCV_PGSIZE < page_at a i then Inl AddrWrap
        else vm_alloc_loop s npage e (page_at a (Suc i)))" for i
  proof -
    have lt: "unat a + 4096 * Suc i < 2 ^ 64" using i le room by (simp add: word_le_nat_alt)
    note u = unat_page_at' [OF lt]
    have "unat (page_at a i) = unat a + 4096 * i" using lt by (intro unat_page_at') simp
    then have "\<not> page_at a i + RISCV_PGSIZE < page_at a i"
      using u by (simp add: word_less_nat_alt flip: page_at_Suc)
    then have "vm_alloc_loop s npage e a = vm_alloc_loop s npage e (page_at a (Suc i))"
      by (simp add: eq)
    moreover have "2 ^ 64 - unat (page_at a (Suc i)) < 2 ^ 64 - unat a" using u lt by simp
    ultimately show ?thesis using less [of "page_at a (Suc i)"] first_fit_skip [OF i na lt] by auto
  qed
  consider "\<not> a \<le> e" | "a \<le> e" "\<not> va_avail a s" | "a \<le> e" "va_avail a s" by blast
  then show ?case
  proof cases
    case 1
    then show ?thesis by (subst vm_alloc_loop.simps) (simp add: word_le_nat_alt first_fit_def)
  next
    case 2
    then have "vm_alloc_loop s npage e a =
         (if page_at a 0 + RISCV_PGSIZE < page_at a 0 then Inl AddrWrap
          else vm_alloc_loop s npage e (page_at a (Suc 0)))"
      by (subst vm_alloc_loop.simps) (simp add: page_at_Suc)
    with skip [of 0] n 2 show ?thesis by simp
  next
    case 3
    have last: "a + (npage - 1) * RISCV_PGSIZE = page_at a (?N - 1)"
      using n by (simp add: page_at_def RISCV_PGSIZE_def of_nat_diff mult.commute)
    have lt: "unat a + 4096 * (?N - 1) < 2 ^ 64" using 3 room n by (simp add: word_le_nat_alt)
    from scan_down_spec [OF this, of s] obtain i where i: "i \<le> ?N - 1"
      "scan_down s a (page_at a (?N - 1)) = Inr (page_at a i)"
      "\<forall>t. i < t \<and> t \<le> ?N - 1 \<longrightarrow> va_avail (page_at a t) s" "0 < i \<longrightarrow> \<not> va_avail (page_at a i) s" by blast
    show ?thesis
    proof (cases "0 < i")
      case True
      have "unat (page_at a i) = unat a + 4096 * i" using i(1) lt by (intro unat_page_at') simp
      then have "a < page_at a i" using True by (simp add: word_less_nat_alt)
      then have "vm_alloc_loop s npage e a =
         (if page_at a i + RISCV_PGSIZE < page_at a i then Inl AddrWrap
          else vm_alloc_loop s npage e (page_at a (Suc i)))"
        using 3 i(2) by (subst vm_alloc_loop.simps) (simp add: last page_at_Suc)
      with skip [of i] True i n 3 show ?thesis by simp
    next
      case False
      then have "vm_alloc_loop s npage e a = Inr a"
        using 3 i(2) by (subst vm_alloc_loop.simps) (simp add: last)
      moreover have "va_avail (page_at a t) s" if "t < ?N" for t
        using i(3) False 3 that by (cases "t = 0") auto
      ultimately show ?thesis
        using 3 by (auto simp: word_le_nat_alt first_fit_def range_free_def intro!: exI [of _ 0])
    qed
  qed
qed

section \<open>Entering pages\<close>

lemma vm_inv_grown:
  assumes inv: "vm_inv x pend s" and g: "grown s s'"
  shows "vm_inv x pend s'" and "same_env s s'" and "vmrs s' = vmrs s"
proof -
  from g obtain m n where s': "s' = s\<lparr>pt_mem := m, next_free_page := n\<rparr>" and ok: "pt_ok s'"
    and pt: "ptes s' = ptes s" by (rule grownE)
  have ent: "pt.entries s' = pt.entries s" by (simp add: fun_eq_iff pt.entries_def pt)
  have fr: "vmr_ptr s' = vmr_ptr s" "file_holds s' = file_holds s" "file_inv b s' \<longleftrightarrow> file_inv b s"
    "vmrs_page s' = vmrs_page s" "vmrs s' = vmrs s" for b
    by (simp_all add: s' fun_eq_iff vmr_ptr_def file_holds_def file_inv_def file_ok_def nrefs_def)
  show "vm_inv x pend s'" using inv ok by (simp add: vm_inv_def regions_ok_def entry_ok_def pt ent fr)
  show "same_env s s'" by (simp add: same_env_def s')
  show "vmrs s' = vmrs s" by (rule fr)
qed

lemma mmap_page_spec:
  assumes inv: "vm_inv x pend s" and nz: "vmrs_page s \<noteq> 0" and v: "v < MAX_VMR" "pend v = Suc n"
    and room: "unat a + 8192 \<le> 2 ^ 64"
  shows "case mmap_page host v a s of
      Inl e \<Rightarrow> e = Assertion
    | Inr s' \<Rightarrow> vm_inv x (pend(v := n)) s' \<and> ptes s' = (ptes s)(key a := vmr_ptr s v) \<and> same_env s s'"
proof (cases "walk_create a s")
  case (Inl e)
  then show ?thesis using walk_create_spec [of s a] inv by (simp add: mmap_page_def vm_inv_def)
next
  case (Inr r)
  obtain p s1 where r: "r = (p, s1)" by (cases r)
  with Inr walk_create_spec [of s a] inv have g: "grown s s1" and sl: "leaf_slot s1 (key a) = Some p"
    by (simp_all add: vm_inv_def)
  note i1 = vm_inv_grown [OF inv g]
  have pt1: "ptes s1 = ptes s" using g by (auto elim: grownE)
  have u: "unat (a + 4096) = unat a + 4096" using room by (simp add: unat_add_no_wrap)
  have K: "page_keys a (npages a (a + 4096)) = {key a}" 
    by (simp add: npages_def u page_keys_Suc)
  obtain s2 where s2: "(if pt_mem s1 p \<noteq> 0 then do_munmap_locked host a RISCV_PGSIZE s1 else Inr s1) = Inr s2"
    "vm_inv x pend s2" "ptes s2 = (ptes s)(key a := 0)" "leaf_slot s2 = leaf_slot s1" "same_env s s2"
  proof (cases "pt_mem s1 p = 0")
    case True
    then have "ptes s (key a) = 0" using ptes_slot [OF sl] pt1 by simp
    then have "(ptes s)(key a := 0) = ptes s1" using pt1 by (metis fun_upd_triv)
    with True i1 pt1 that [of s1] show thesis by simp
  next
    case False
    from do_munmap_locked_spec [OF i1(1), of a 4096 host] u room
    obtain s2 where "do_munmap_locked host a 4096 s1 = Inr s2" "vm_inv x pend s2"
      "ptes s2 = (\<lambda>k. if k \<in> {key a} then 0 else ptes s1 k)" "leaf_slot s2 = leaf_slot s1" "same_env s1 s2"
      by (auto simp: K)
    with False that [of s2] same_env_trans [OF i1(2), of s2] pt1 show thesis
      by (auto simp: RISCV_PGSIZE_def fun_eq_iff)
  qed
  have nz2: "vmrs_page s2 \<noteq> 0" and ptr: "vmr_ptr s2 v = vmr_ptr s v"
    using s2(5) nz by (simp_all add: same_env_def vmr_ptr_def)
  have sl2: "leaf_slot s2 (key a) = Some p" by (simp add: s2(4) sl)
  have ok2: "pt_ok s2" using s2(2) by (simp add: vm_inv_def)
  have "vm_inv x (pend(v := n)) (set_pte p (vmr_ptr s2 v) s2)"
    by (rule vm_inv_link [OF s2(2) sl2 nz2 v]) (simp add: s2(3))
  moreover have "ptes (set_pte p (vmr_ptr s2 v) s2) = (ptes s)(key a := vmr_ptr s v)"
    by (simp add: set_pte_ptes [OF ok2 sl2] s2(3) ptr)
  ultimately show ?thesis using s2(1,5) by (simp add: mmap_page_def Inr r)
qed

text \<open>What a successful mapping leaves: the pages of the range point to a new region, or, when
  they are populated at once, are valid and have the permissions asked for; no other entry
  changes.\<close>

definition populated :: "u32 \<Rightarrow> u64 \<Rightarrow> bool" where
  "populated prot e \<longleftrightarrow> e AND PTE_V \<noteq> 0 \<and>
     (let perms = pte_create 0 (prot_to_type prot True) in e AND perms = perms)"

definition mapped_new :: "vmstate \<Rightarrow> vmstate \<Rightarrow> vpn set \<Rightarrow> vmr_t \<Rightarrow> bool \<Rightarrow> bool" where
  "mapped_new s s' K v pop \<longleftrightarrow>
     (\<exists>i < MAX_VMR. v_refcnt (vmrs s ! i) = 0 \<and>
        map (v_refcnt_update (\<lambda>_. 0)) (vmrs s') = map (v_refcnt_update (\<lambda>_. 0)) ((vmrs s)[i := v]) \<and>
        (\<forall>k. ptes s' k \<noteq> ptes s k \<longrightarrow> k \<in> K) \<and>
        (\<forall>k \<in> K. if pop then populated (v_prot v) (ptes s' k) else ptes s' k = vmr_ptr s i))"

lemma mmap_loop_spec:
  assumes inv: "vm_inv x (pend(v := npages a e)) s" and nz: "vmrs_page s \<noteq> 0" and v: "v < MAX_VMR"
    and room: "unat e + 8192 \<le> 2 ^ 64"
  shows "case page_loop (mmap_page host v) e a s of
      Inl e \<Rightarrow> e = Assertion
    | Inr s' \<Rightarrow> vm_inv x (pend(v := 0)) s' \<and> same_env s s' \<and>
        ptes s' = (\<lambda>k. if k \<in> page_keys a (npages a e) then vmr_ptr s v else ptes s k)"
proof -
  let ?N = "npages a e"
  let ?P = "\<lambda>n s'. vm_inv x (pend(v := ?N - n)) s' \<and> same_env s s' \<and>
    ptes s' = (\<lambda>k. if k \<in> page_keys a n then vmr_ptr s v else ptes s k)"
  have room': "unat e + 4096 \<le> 2 ^ 64" using room by simp
  have "case page_loop (mmap_page host v) e a s of Inl f \<Rightarrow> f = Assertion | Inr s' \<Rightarrow> ?P ?N s'"
  proof (rule page_loop_rule [where P = ?P, OF _ room'])
    fix n s1 assume n: "n < ?N" and P: "?P n s1"
    then have nz1: "vmrs_page s1 \<noteq> 0" and ptr: "vmr_ptr s1 v = vmr_ptr s v"
      using nz by (simp_all add: same_env_def vmr_ptr_def)
    have "page_at a n < e" using n by (simp add: page_at_less [OF _ room'])
    then have room1: "unat (page_at a n) + 8192 \<le> 2 ^ 64" using room by (simp add: word_less_nat_alt)
    have pv: "(pend(v := ?N - n)) v = Suc (?N - Suc n)" using n by simp
    have upd: "(pend(v := ?N - n))(v := ?N - Suc n) = pend(v := ?N - Suc n)" by simp
    from P have inv1: "vm_inv x (pend(v := ?N - n)) s1" by blast
    note S = mmap_page_spec [OF inv1 nz1 v pv room1, of host, unfolded upd]
    show "case mmap_page host v (page_at a n) s1 of Inl f \<Rightarrow> f = Assertion | Inr s' \<Rightarrow> ?P (Suc n) s'"
    proof (cases "mmap_page host v (page_at a n) s1")
      case (Inl f)
      with S show ?thesis by simp
    next
      case (Inr s2)
      with S have s2: "vm_inv x (pend(v := ?N - Suc n)) s2"
        "ptes s2 = (ptes s1)(key (page_at a n) := vmr_ptr s v)" "same_env s1 s2" by (simp_all add: ptr)
      have "ptes s2 = (\<lambda>k. if k \<in> page_keys a (Suc n) then vmr_ptr s v else ptes s k)"
        using P s2(2) by (auto simp: page_keys_Suc fun_eq_iff)
      with Inr s2 P same_env_trans [of s s1 s2] show ?thesis by simp
    qed
  qed (use inv in simp)
  then show ?thesis by (simp only: diff_self_eq_0)
qed

lemma fault_loop_spec:
  fixes a :: u64
  assumes inv: "vm_inv x pend s" and low: "low_space s" and room: "unat e + 4096 \<le> 2 ^ 64"
  defines "K \<equiv> page_keys a (npages a e)"
  shows "case page_loop (fault_page host prot) e a s of
      Inl f \<Rightarrow> f = Assertion
    | Inr s' \<Rightarrow> vm_inv x pend s' \<and> same_env s s' \<and> (\<forall>k. ptes s' k \<noteq> ptes s k \<longrightarrow> k \<in> K) \<and>
        (\<forall>k \<in> K. populated prot (ptes s' k))"
proof -
  let ?P = "\<lambda>n s'. vm_inv x pend s' \<and> same_env s s' \<and>
    (\<forall>k. ptes s' k \<noteq> ptes s k \<longrightarrow> k \<in> page_keys a n) \<and> (\<forall>k \<in> page_keys a n. populated prot (ptes s' k))"
  have "case page_loop (fault_page host prot) e a s of Inl f \<Rightarrow> f = Assertion | Inr s' \<Rightarrow> ?P (npages a e) s'"
  proof (rule page_loop_rule [where P = ?P, OF _ room])
    fix n s1 assume P: "?P n s1"
    then have inv1: "vm_inv x pend s1" and low1: "low_space s1"
      using low by (simp_all add: same_env_def low_space_def)
    let ?a = "page_at a n"
    note S = handle_page_fault_locked_spec [OF inv1 low1, where host = host and vaddr = ?a and prot = prot]
    show "case fault_page host prot ?a s1 of Inl f \<Rightarrow> f = Assertion | Inr s' \<Rightarrow> ?P (Suc n) s'"
    proof (cases "handle_page_fault_locked host ?a prot s1")
      case (Inl f)
      with S show ?thesis by (simp add: fault_page_def)
    next
      case (Inr r)
      obtain ret s2 where r: "r = (ret, s2)" by (cases r)
      show ?thesis
      proof (cases "ret = 0")
        case False
        then show ?thesis by (simp add: fault_page_def Inr r)
      next
        case True
        with S Inr r have s2: "vm_inv x pend s2" "same_env s1 s2" "\<forall>k. k \<noteq> key ?a \<longrightarrow> ptes s2 k = ptes s1 k"
          "populated prot (ptes s2 (key ?a))"
          by (auto simp: fault_result_def populated_def)
        have "\<forall>k. ptes s2 k \<noteq> ptes s k \<longrightarrow> k \<in> page_keys a (Suc n)"
          using P s2(3) by (metis insertCI page_keys_Suc)
        moreover have "\<forall>k \<in> page_keys a (Suc n). populated prot (ptes s2 k)"
          using P s2(3,4) by (metis insertE page_keys_Suc)
        ultimately show ?thesis
          using True s2(1) same_env_trans [of s s1 s2] s2(2) P by (simp add: fault_page_def Inr r)
      qed
    qed
  qed (use inv in simp)
  then show ?thesis unfolding K_def .
qed

text \<open>A non-empty range below \<^verbatim>\<open>DRAM_BASE\<close>, its number of pages as \<^verbatim>\<open>__do_mmap\<close> computes it.\<close>

lemma npage_range:
  assumes len: "0 < unat len" and hi: "unat a + unat len \<le> 0x80000000"
  shows "unat (a + len) = unat a + unat len" and "unat (a + len) + 8192 \<le> 2 ^ 64"
    and "npages a (a + len) = unat ((len - 1) div RISCV_PGSIZE + 1)"
    and "unat (ucast ((len - 1) div RISCV_PGSIZE + 1) :: u32) = npages a (a + len)"
    and "0 < npages a (a + len)"
proof -
  show e: "unat (a + len) = unat a + unat len" using hi by (intro unat_add_no_wrap) simp
  then show "unat (a + len) + 8192 \<le> 2 ^ 64" using hi by simp
  have "1 \<le> len" using len by (simp add: word_le_nat_alt)
  then have l1: "unat (len - 1) = unat len - 1" by (simp add: unat_sub_no_wrap)
  have "unat ((len - 1) div RISCV_PGSIZE) = (unat len - 1) div 4096"
    by (simp add: RISCV_PGSIZE_def unat_div l1)
  moreover have small: "(unat len - 1) div 4096 < 0x80000" using hi by simp
  ultimately have n: "unat ((len - 1) div RISCV_PGSIZE + 1) = (unat len - 1) div 4096 + 1"
    by (simp add: unat_add_no_wrap)
  also have "\<dots> = npages a (a + len)" using len by (simp add: npages_def e)
  finally show N: "npages a (a + len) = unat ((len - 1) div RISCV_PGSIZE + 1)" by simp
  show "0 < npages a (a + len)" using N n by simp
  show "unat (ucast ((len - 1) div RISCV_PGSIZE + 1) :: u32) = npages a (a + len)"
    using n small by (simp add: N unsigned_ucast_eq take_bit_nat_eq_self)
qed

definition mmap_result ::
  "(nat \<Rightarrow> nat) \<Rightarrow> (nat \<Rightarrow> nat) \<Rightarrow> vmstate \<Rightarrow> u64 \<Rightarrow> u64 \<Rightarrow> vmr_t \<Rightarrow> bool \<Rightarrow> vmstate \<Rightarrow> bool" where
  "mmap_result x pend s addr len v pop s' \<longleftrightarrow>
     vm_inv x pend s' \<and> same_space s s' \<and>
     mapped_new s s' (page_keys addr (npages addr (addr + len))) v pop"

lemma mmap_at_spec:
  fixes flags prot :: u32 and offset npage :: u64
  assumes inv: "vm_inv x pend s" and nz: "vmrs_page s \<noteq> 0" and low: "low_space s"
    and len: "0 < unat len" and hi: "unat addr + unat len \<le> 0x80000000" and f: "borrowed x fo"
    and npage_def: "npage = (len - 1) div RISCV_PGSIZE + 1"
  defines "pop \<equiv> \<not> demand_paging s \<or> flags AND MAP_POPULATE \<noteq> 0"
    and "v \<equiv> \<lparr>v_addr = addr, v_length = len, v_file = fo, v_offset = offset,
             v_refcnt = ucast npage, v_prot = prot\<rparr>"
  shows "case mmap_at host addr len npage prot flags fo offset s of
      Inl e \<Rightarrow> e = Assertion
    | Inr (r, s') \<Rightarrow> r = -1 \<and> s' = s \<and> (\<forall>v \<in> set (vmrs s). v_refcnt v \<noteq> 0) \<or>
        r = addr \<and> mmap_result x pend s addr len v pop s'"
proof -
  note R = npage_range [OF len hi]
  let ?e = "addr + len" and ?N = "npages addr (addr + len)"
  let ?K = "page_keys addr ?N"
  have cnt: "(ucast npage :: u32) \<noteq> 0" "unat (ucast npage :: u32) = ?N"
    using R(4,5) by (auto simp: npage_def word_neq_0_unat)
  from vmr_alloc_spec [OF inv nz f cnt(1), where addr = addr and len = len and offset = offset
      and prot = prot, folded v_def, unfolded cnt(2)]
  consider "\<forall>v \<in> set (vmrs s). v_refcnt v \<noteq> 0" "vmr_alloc addr len fo offset (ucast npage) prot s = Inr (None, s)"
    | i s1 where "vmr_alloc addr len fo offset (ucast npage) prot s = Inr (Some i, s1)" "i < MAX_VMR"
        "pend i = 0" "vm_inv x (pend(i := ?N)) s1" "ptes s1 = ptes s" "same_space s s1"
        "vmrs s1 = (vmrs s)[i := v]" "v_refcnt (vmrs s ! i) = 0"
    by blast
  then show ?thesis
  proof cases
    case 1
    then show ?thesis by (simp add: mmap_at_def)
  next
    case (2 i s1)
    have nz1: "vmrs_page s1 \<noteq> 0" and ptr: "vmr_ptr s1 = vmr_ptr s"
      using 2(6) nz by (simp_all add: same_space_def fun_eq_iff vmr_ptr_def)
    note L = mmap_loop_spec [OF 2(4) nz1 2(2) R(2), where host = host]
    show ?thesis
    proof (cases "page_loop (mmap_page host i) ?e addr s1")
      case (Inl e)
      with L show ?thesis by (simp add: mmap_at_def 2(1))
    next
      case (Inr s2)
      have "pend(i := 0) = pend" using 2(3) by auto
      with Inr L have s2: "vm_inv x pend s2" "same_env s1 s2"
        "ptes s2 = (\<lambda>k. if k \<in> ?K then vmr_ptr s i else ptes s k)" by (simp_all add: ptr 2(5) cong: if_cong)
      have sp2: "same_space s s2" using same_space_trans [OF 2(6) same_env_space [OF s2(2)]] .
      have meta: "map (v_refcnt_update (\<lambda>_. 0)) (vmrs s2) = map (v_refcnt_update (\<lambda>_. 0)) ((vmrs s)[i := v])"
        using s2(2) 2(7) by (simp add: same_env_def)
      have pop2: "(\<not> demand_paging s2 \<or> flags AND MAP_POPULATE \<noteq> 0) = pop"
        using sp2 by (simp add: pop_def same_space_def)
      show ?thesis
      proof (cases pop)
        case False
        then have "mapped_new s s2 ?K v pop"
          using 2(2,8) meta s2(3) by (auto simp: mapped_new_def intro!: exI [of _ i])
        then show ?thesis
          using False s2(1) sp2 pop2 by (simp add: mmap_at_def 2(1) Inr mmap_result_def)
      next
        case True
        have low2: "low_space s2" using low sp2 by (simp add: low_space_def same_space_def)
        have room: "unat ?e + 4096 \<le> 2 ^ 64" using R(2) by simp
        note F = fault_loop_spec [OF s2(1) low2 room, where host = host and prot = prot and a = addr]
        show ?thesis
        proof (cases "page_loop (fault_page host prot) ?e addr s2")
          case (Inl f)
          then show ?thesis using F True pop2 by (simp add: mmap_at_def 2(1) Inr)
        next
          case Inr3: (Inr s3)
          with F have s3: "vm_inv x pend s3" "same_env s2 s3" "\<forall>k. ptes s3 k \<noteq> ptes s2 k \<longrightarrow> k \<in> ?K"
            "\<forall>k \<in> ?K. populated prot (ptes s3 k)" by simp_all
          have "\<forall>k. ptes s3 k \<noteq> ptes s k \<longrightarrow> k \<in> ?K" using s3(3) s2(3) by metis
          then have "mapped_new s s3 ?K v pop"
            using 2(2,8) meta s3(2,4) True
            by (auto simp: mapped_new_def same_env_def v_def intro!: exI [of _ i])
          moreover have "same_space s s3" using same_space_trans [OF sp2 same_env_space [OF s3(2)]] .
          ultimately show ?thesis
            using True s3(1) pop2 by (simp add: mmap_at_def 2(1) Inr Inr3 mmap_result_def)
        qed
      qed
    qed
  qed
qed

section \<open>The calls under the lock\<close>

lemma valid_user_range_unat:
  assumes "valid_user_range a len s"
  shows "unat a + unat len \<le> unat (mmap_max (current s))"
proof -
  from assms have "\<not> a + len < a" and le: "a + len \<le> mmap_max (current s)"
    by (auto simp: valid_user_range_def split: if_splits)
  then have "unat (a + len) = unat a + unat len" by (metis not_less unat_plus_simple)
  with le show ?thesis by (simp add: word_le_nat_alt)
qed

lemma low_space_unat: "low_space s \<Longrightarrow> unat (mmap_max (current s)) \<le> 0x80000000"
  by (simp add: low_space_def DRAM_BASE_def word_le_nat_alt)

text \<open>Where a mapping may be placed: at the address asked for, or at the first free range.\<close>

definition placed :: "vmstate \<Rightarrow> u32 \<Rightarrow> u64 \<Rightarrow> u64 \<Rightarrow> u64 \<Rightarrow> bool" where
  "placed s flags addr len r \<longleftrightarrow>
     unat r + unat len \<le> unat (mmap_max (current s)) \<and>
     (if flags AND MAP_FIXED \<noteq> 0 then r = addr \<and> aligned r
      else r \<noteq> 0 \<and> (aligned (brk (current s)) \<longrightarrow> aligned r) \<and>
        (let n = npages r (r + len)
         in first_fit s (mmap_max (current s) - 4096 * of_nat n) n (brk (current s)) r))"

lemma vm_alloc_spec:
  assumes len: "0 < unat len" and fits: "unat len + 4096 \<le> unat (mmap_max (current s))" and low: "low_space s"
  defines "npage \<equiv> (len - 1) div RISCV_PGSIZE + 1"
  shows "\<exists>r. vm_alloc npage s = Inr r \<and> (r \<noteq> 0 \<longrightarrow> placed s 0 addr len r)"
proof -
  let ?max = "mmap_max (current s)"
  have max: "unat ?max \<le> 0x80000000" by (rule low_space_unat [OF low])
  then have "unat (0::u64) + unat len \<le> 0x80000000" using fits by simp
  note R0 = npage_range [OF len this]
  have N: "unat npage = (unat len + 4095) div 4096"
    using R0(3) by (simp add: npage_def npages_def)
  have small: "4096 * unat npage \<le> unat ?max" using fits N by simp
  have mul: "npage * RISCV_PGSIZE = 4096 * npage" by (simp add: RISCV_PGSIZE_def mult.commute)
  have um: "unat (4096 * npage) = 4096 * unat npage"
    using small max by (simp add: unat_word_ariths)
  let ?e = "?max - 4096 * npage"
  have ue: "unat ?e = unat ?max - 4096 * unat npage"
    using small um by (subst unat_sub_no_wrap) (simp_all add: word_le_nat_alt)
  have "unat ?e + 4096 * unat npage < 2 ^ 64" using ue small max by simp
  moreover have "0 < unat npage" using R0(3,5) by (simp add: npage_def)
  ultimately have "\<exists>r. vm_alloc_loop s npage ?e (brk (current s)) = Inr r \<and>
      first_fit s ?e (unat npage) (brk (current s)) r" by (intro vm_alloc_loop_spec)
  then
  obtain r where r: "vm_alloc npage s = Inr r" "first_fit s ?e (unat npage) (brk (current s)) r"
    by (auto simp: vm_alloc_def Let_def mul)
  have "placed s 0 addr len r" if "r \<noteq> 0"
  proof -
    from r(2) that obtain m where m: "r = page_at (brk (current s)) m"
      "unat (brk (current s)) + 4096 * m \<le> unat ?e" by (auto simp: first_fit_def)
    have ur: "unat r = unat (brk (current s)) + 4096 * m"
      unfolding m(1) using m(2) ue max by (intro unat_page_at') simp
    then have al: "aligned (brk (current s)) \<longrightarrow> aligned r" by (simp add: aligned_def)
    from ur have le: "unat r + 4096 * unat npage \<le> unat ?max" using m(2) ue small by simp
    then have fit: "unat r + unat len \<le> unat ?max" using N by simp
    then have "unat r + unat len \<le> 0x80000000" using max by simp
    note R = npage_range [OF len this]
    have "npages r (r + len) = unat npage" using R(3) by (simp add: npage_def)
    then show ?thesis using fit that r(2) al by (simp add: placed_def Let_def)
  qed
  with r show ?thesis by blast
qed

lemma do_mmap_locked_spec:
  fixes flags prot :: u32 and offset :: u64
  assumes inv: "vm_inv x pend s" and nz: "vmrs_page s \<noteq> 0" and low: "low_space s"
    and len: "0 < unat len" and f: "borrowed x fo"
    and fits: "flags AND MAP_FIXED \<noteq> 0 \<or> unat len + 4096 \<le> unat (mmap_max (current s))"
  defines "pop \<equiv> \<not> demand_paging s \<or> flags AND MAP_POPULATE \<noteq> 0"
    and "v \<equiv> (\<lambda>r. \<lparr>v_addr = r, v_length = len, v_file = fo, v_offset = offset,
             v_refcnt = ucast ((len - 1) div RISCV_PGSIZE + 1), v_prot = prot\<rparr>)"
  shows "case do_mmap_locked host addr len prot flags fo offset s of
      Inl e \<Rightarrow> e = Assertion
    | Inr (r, s') \<Rightarrow> r = -1 \<and> s' = s \<or>
        placed s flags addr len r \<and> mmap_result x pend s r len (v r) pop s'"
proof -
  let ?n = "(len - 1) div RISCV_PGSIZE + 1"
  note max = low_space_unat [OF low]
  have at: "case mmap_at host r len ?n prot flags fo offset s of
      Inl e \<Rightarrow> e = Assertion
    | Inr (q, s') \<Rightarrow> q = -1 \<and> s' = s \<or>
        placed s flags addr len q \<and> mmap_result x pend s q len (v q) pop s'"
    if "placed s flags addr len r" for r
  proof -
    have "unat r + unat len \<le> 0x80000000" using that max by (simp add: placed_def)
    from mmap_at_spec [OF inv nz low len this f refl, where flags = flags and prot = prot
        and offset = offset and host = host] that
    show ?thesis by (auto simp: pop_def v_def split: sum.splits prod.splits)
  qed
  show ?thesis
  proof (cases "flags AND MAP_FIXED \<noteq> 0")
    case True
    show ?thesis
    proof (cases "addr AND (RISCV_PGSIZE - 1) \<noteq> 0 \<or> \<not> valid_user_range addr len s")
      case False
      then have "placed s flags addr len addr"
        using True valid_user_range_unat [of addr len s]
        by (simp add: placed_def aligned_def RISCV_PGSIZE_def word_and_mask_0_iff)
      from at [OF this] show ?thesis using True False by (simp add: do_mmap_locked_def Let_def)
    qed (use True in \<open>simp add: do_mmap_locked_def Let_def\<close>)
  next
    case False
    with fits have "unat len + 4096 \<le> unat (mmap_max (current s))" by simp
    from vm_alloc_spec [OF len this low, where addr = addr] obtain r where r: "vm_alloc ?n s = Inr r"
      "r \<noteq> 0 \<longrightarrow> placed s 0 addr len r" by blast
    show ?thesis
    proof (cases "r = 0")
      case True
      then show ?thesis using False r by (simp add: do_mmap_locked_def Let_def)
    next
      case nzr: False
      then have "placed s flags addr len r" using r(2) False by (simp add: placed_def)
      from at [OF this] show ?thesis using False r(1) nzr by (simp add: do_mmap_locked_def Let_def)
    qed
  qed
qed

section \<open>The system calls\<close>

text \<open>The entry that maps an address, 0 when a table is missing.\<close>

definition pte_of :: "u64 \<Rightarrow> vmstate \<Rightarrow> u64" where
  "pte_of a s = (case walk a s of None \<Rightarrow> 0 | Some p \<Rightarrow> pt_mem s p)"

lemma pte_of_ptes: "pte_of a s = ptes s (key a)"
  by (simp add: pte_of_def walk_leaf ptes_def)

lemma page_keys_iff:
  assumes al: "aligned a" and hi: "unat a + 4096 * n \<le> 2 ^ 39" and b: "b < 2 ^ 39"
  shows "key b \<in> page_keys a n \<longleftrightarrow> unat a \<le> unat b \<and> unat b < unat a + 4096 * n"
proof -
  obtain q where q: "unat a = 4096 * q" using al by (auto simp: aligned_def)
  have page: "drop_bit 12 (page_at a j) = drop_bit 12 b \<longleftrightarrow> q + j = unat b div 4096" if "j < n" for j
  proof -
    have "unat (page_at a j) = 4096 * (q + j)" using that hi q by (subst unat_page_at') auto
    then have "unat (drop_bit 12 (page_at a j)) = q + j"
      by (simp add: drop_bit_eq_div unat_div)
    moreover have "unat (drop_bit 12 b) = unat b div 4096"
      by (simp add: drop_bit_eq_div unat_div)
    ultimately show ?thesis by (simp add: word_unat_eq_iff)
  qed
  have key: "key (page_at a j) = key b \<longleftrightarrow> q + j = unat b div 4096" if "j < n" for j
  proof -
    have "page_at a j < 2 ^ 39" using that hi by (simp add: word_less_nat_alt unat_page_at')
    then show ?thesis using key_eq_iff [OF _ b] page [OF that] by simp
  qed
  have "key b \<in> page_keys a n \<longleftrightarrow> (\<exists>j < n. key (page_at a j) = key b)"
    unfolding page_keys_def by (metis (no_types, lifting) image_iff lessThan_iff)
  also have "\<dots> \<longleftrightarrow> (\<exists>j < n. q + j = unat b div 4096)" using key by blast
  also have "\<dots> \<longleftrightarrow> q \<le> unat b div 4096 \<and> unat b div 4096 < q + n"
    by (auto intro!: exI [of _ "unat b div 4096 - q"])
  also have "\<dots> \<longleftrightarrow> unat a \<le> unat b \<and> unat b < unat a + 4096 * n"
    using q by (auto simp: less_eq_div_iff_mult_less_eq div_less_iff_less_mult)
  finally show ?thesis .
qed

text \<open>Fields outside of the invariant.\<close>

lemma vm_inv_cong:
  assumes eqs: "pt_mem s' = pt_mem s" "root_page_table s' = root_page_table s" "vmrs_page s' = vmrs_page s"
      "first_free_page s' = first_free_page s" "next_free_page s' = next_free_page s"
      "free_pages s' = free_pages s" "vmrs s' = vmrs s"
  shows "leaf_slot s' = leaf_slot s" and "ptes s' = ptes s"
    and "vm_inv x pend s' \<longleftrightarrow> pt_ok s \<and> regions_ok pend s \<and> file_inv (\<lambda>f. x f + file_holds s f) s' \<and>
      (\<forall>f. x f < 2 ^ 31)"
proof -
  show slot: "leaf_slot s' = leaf_slot s"
  proof
    fix k show "leaf_slot s' k = leaf_slot s k" by (cases k) (simp add: eqs del: tbl.simps)
  qed
  then show pt: "ptes s' = ptes s" by (simp add: fun_eq_iff ptes_def eqs)
  have ptr: "vmr_ptr s' = vmr_ptr s" by (simp add: fun_eq_iff vmr_ptr_def eqs)
  have ent: "pt.entries s' = pt.entries s" by (simp add: fun_eq_iff pt.entries_def pt)
  have "pt_ok s' \<longleftrightarrow> pt_ok s"
    by (simp add: pt_ok_def pool_ok_def tables_ok_def in_pool_def pool_page_def eqs del: tbl.simps)
  moreover have "regions_ok pend s' \<longleftrightarrow> regions_ok pend s"
    by (simp add: regions_ok_def eqs pt ptr ent entry_ok_def)
  moreover have "file_holds s' = file_holds s" by (simp add: fun_eq_iff file_holds_def eqs)
  ultimately show "vm_inv x pend s' \<longleftrightarrow> pt_ok s \<and> regions_ok pend s \<and>
      file_inv (\<lambda>f. x f + file_holds s f) s' \<and> (\<forall>f. x f < 2 ^ 31)"
    by (simp add: vm_inv_def)
qed

lemma lock_frame [simp]:
  "vm_inv x pend (s\<lparr>vm_lock := b\<rparr>) \<longleftrightarrow> vm_inv x pend s"
  "ptes (s\<lparr>vm_lock := b\<rparr>) = ptes s"
  "leaf_slot (s\<lparr>vm_lock := b\<rparr>) = leaf_slot s"
  using vm_inv_cong [of "s\<lparr>vm_lock := b\<rparr>" s]
  by (simp_all add: vm_inv_def file_inv_def file_ok_def nrefs_def)

lemma current_frame [simp]:
  "vm_inv x pend (set_current u s) \<longleftrightarrow> vm_inv x pend s"
  "ptes (set_current u s) = ptes s"
  "leaf_slot (set_current u s) = leaf_slot s"
  "vm_lock (set_current u s) = vm_lock s"
  "current (set_current u s) = u (current s)"
  "vmrs_page (set_current u s) = vmrs_page s"
  "vmrs (set_current u s) = vmrs s"
  "demand_paging (set_current u s) = demand_paging s"
  "fds (set_current u s) = fds s" "files (set_current u s) = files s"
  using vm_inv_cong [of "set_current u s" s]
  by (simp_all add: vm_inv_def file_inv_def file_ok_def nrefs_def set_current_def)

text \<open>A state between two system calls: the lock is free, the regions' page exists.\<close>

definition vm_ready :: "(nat \<Rightarrow> nat) \<Rightarrow> vmstate \<Rightarrow> bool" where
  "vm_ready x s \<longleftrightarrow>
     vm_inv x (\<lambda>_. 0) s \<and> low_space s \<and> vmrs_page s \<noteq> 0 \<and> \<not> vm_lock s \<and> (\<forall>f. x f < 2 ^ 30)"

lemma do_munmap_spec:
  assumes ready: "vm_ready x s" and al: "aligned a" and vr: "valid_user_range a len s"
  shows "\<exists>s'. do_munmap host a len s = Inr (0, s') \<and> vm_ready x s' \<and> same_env s s' \<and>
    ptes s' = (\<lambda>k. if k \<in> page_keys a (npages a (a + len)) then 0 else ptes s k)"
proof -
  let ?s0 = "s\<lparr>vm_lock := True\<rparr>"
  from ready have inv: "vm_inv x (\<lambda>_. 0) ?s0" and low: "low_space s" and unl: "\<not> vm_lock s"
    by (simp_all add: vm_ready_def)
  have sum: "unat a + unat len \<le> 0x80000000"
    using valid_user_range_unat [OF vr] low_space_unat [OF low] by simp
  then have "unat (a + len) = unat a + unat len" by (intro unat_add_no_wrap) simp
  then have "unat (a + len) + 4096 \<le> 2 ^ 64" using sum by simp
  from do_munmap_locked_spec [OF inv this, of host] obtain s1
    where s1: "do_munmap_locked host a len ?s0 = Inr s1" "vm_inv x (\<lambda>_. 0) s1" "same_env ?s0 s1"
      "ptes s1 = (\<lambda>k. if k \<in> page_keys a (npages a (a + len)) then 0 else ptes s k)" by (auto cong: if_cong)
  have "\<not> (a AND (RISCV_PGSIZE - 1) \<noteq> 0 \<or> \<not> valid_user_range a len s)"
    using al vr by (simp add: aligned_def RISCV_PGSIZE_def word_and_mask_0_iff)
  then have "do_munmap host a len s = Inr (0, s1\<lparr>vm_lock := False\<rparr>)"
    using unl s1(1) by (simp add: do_munmap_def locked_def spinlock_lock_def spinlock_unlock_def)
  then show ?thesis
    using s1 ready by (auto simp: vm_ready_def low_space_def same_env_def)
qed

text \<open>The states that differ in the file table, the requests and the bytes of memory only.\<close>

definition vm_same :: "vmstate \<Rightarrow> vmstate \<Rightarrow> bool" where
  "vm_same s s' \<longleftrightarrow>
     pt_mem s' = pt_mem s \<and> root_page_table s' = root_page_table s \<and> vmrs_page s' = vmrs_page s \<and>
     vmrs s' = vmrs s \<and> first_free_page s' = first_free_page s \<and>
     next_free_page s' = next_free_page s \<and> free_pages s' = free_pages s \<and>
     demand_paging s' = demand_paging s \<and> current s' = current s \<and> vm_lock s' = vm_lock s \<and>
     first_free_paddr s' = first_free_paddr s"

lemma vm_same_refl [simp]: "vm_same s s"
  by (simp add: vm_same_def)

lemma vm_same_trans: "vm_same s s' \<Longrightarrow> vm_same s' s'' \<Longrightarrow> vm_same s s''"
  by (simp add: vm_same_def)

lemma vm_same_inv:
  assumes "vm_same s s'" and "vm_inv x pend s" and "file_inv (\<lambda>f. x' f + file_holds s f) s'"
    and "\<forall>f. x' f < 2 ^ 31"
  shows "vm_inv x' pend s'"
  using assms vm_inv_cong(3) [of s' s x' pend] by (simp add: vm_same_def vm_inv_def)

lemma vm_same_ptes: "vm_same s s' \<Longrightarrow> ptes s' = ptes s"
  using vm_inv_cong(2) [of s' s] by (simp add: vm_same_def)

lemma vm_same_set_refcnt [simp]: "vm_same s (set_refcnt f c s)"
  by (simp add: vm_same_def)

lemma vm_same_dropped [simp]: "vm_same s (dropped host f n s)"
  by (simp add: vm_same_def)

text \<open>Borrowing a file from a descriptor, and giving it back.\<close>

lemma file_get_vm:
  assumes ready: "vm_ready x s" and r: "file_get fd s = (Some f, s1)"
  shows "f < MAX_FILES" and "vm_inv (x(f := Suc (x f))) (\<lambda>_. 0) s1" and "vm_same s s1" and "fds s1 = fds s"
    and "files s1 ! f = (files s ! f)\<lparr>refcnt := refcnt (files s ! f) + 1\<rparr>" and "requests s1 = requests s"
proof -
  from ready have inv: "vm_inv x (\<lambda>_. 0) s" and x: "\<forall>f. x f < 2 ^ 30" by (simp_all add: vm_ready_def)
  then have finv: "file_inv (\<lambda>f. x f + file_holds s f) s" by (simp add: vm_inv_def)
  note g = file_get_Some [OF r]
  show f: "f < MAX_FILES" by (rule file_inv_fd(1) [OF finv g(1,2)])
  note room = file_room [OF inv f]
  show same: "vm_same s s1" and "fds s1 = fds s" and "requests s1 = requests s"
    by (simp_all add: g(3))
  show "files s1 ! f = (files s ! f)\<lparr>refcnt := refcnt (files s ! f) + 1\<rparr>"
    using file_inv_lengths(1) [OF finv] f by (simp add: g(3) set_refcnt_def)
  have "(\<lambda>g. x g + file_holds s g)(f := Suc (x f + file_holds s f)) =
      (\<lambda>g. (x(f := Suc (x f))) g + file_holds s g)" by auto
  with file_get_inv(1) [OF finv r room]
  have fi: "file_inv (\<lambda>g. (x(f := Suc (x f))) g + file_holds s g) s1" by simp
  have "\<forall>g. (x(f := Suc (x f))) g < 2 ^ 31"
  proof
    fix g show "(x(f := Suc (x f))) g < 2 ^ 31"
      using x [rule_format, of f] x [rule_format, of g] by auto
  qed
  from vm_same_inv [OF same inv fi this]
  show "vm_inv (x(f := Suc (x f))) (\<lambda>_. 0) s1" .
qed

lemma file_decref_vm:
  assumes inv: "vm_inv x pend s" and f: "f < MAX_FILES" and x: "x f = Suc n"
  shows "\<exists>s'. file_decref host f s = Inr s' \<and> vm_inv (x(f := n)) pend s' \<and> vm_same s s' \<and> fds s' = fds s"
proof -
  let ?b = "\<lambda>f. x f + file_holds s f"
  from inv have finv: "file_inv ?b s" and xb: "\<forall>f. x f < 2 ^ 31" by (simp_all add: vm_inv_def)
  have pos: "0 < ?b f" by (simp add: x)
  note d = file_decref_dropped [OF finv f pos, of host]
  let ?s' = "dropped host f (nrefs s f + ?b f) s"
  have "?b(f := ?b f - 1) = (\<lambda>g. (x(f := n)) g + file_holds s g)" using x by auto
  with d(2) have fi: "file_inv (\<lambda>g. (x(f := n)) g + file_holds s g) ?s'" by simp
  have xb': "\<forall>g. (x(f := n)) g < 2 ^ 31"
  proof
    fix g show "(x(f := n)) g < 2 ^ 31"
      using xb [rule_format, of f] xb [rule_format, of g] x by auto
  qed
  have "vm_inv (x(f := n)) pend ?s'" by (rule vm_same_inv [OF vm_same_dropped inv fi xb'])
  with d(1) show ?thesis by auto
qed

end
