(* ===== verification/Pk_Calls.thy ===== *)
theory Pk_Calls
  imports Pk_Mmap
begin

text \<open>
  The entry points of \<^verbatim>\<open>pk/mmap.c\<close> that take the lock: \<^verbatim>\<open>do_mmap\<close>, \<^verbatim>\<open>do_munmap\<close>, \<^verbatim>\<open>do_brk\<close>,
  \<^verbatim>\<open>do_mprotect\<close>, \<^verbatim>\<open>handle_page_fault\<close>, each from a state between two calls (\<^verbatim>\<open>vm_ready\<close>) to
  such a state, and the properties of the virtual-memory manager.
\<close>

section \<open>Mapping\<close>

lemma va_avail_ptes: "va_avail a s \<longleftrightarrow> ptes s (key a) = 0"
  by (simp add: va_avail_def walk_leaf ptes_def split: option.splits)

lemma placed_cong:
  assumes "ptes s' = ptes s" and "current s' = current s"
  shows "placed s' flags addr len r \<longleftrightarrow> placed s flags addr len r"
  using assms by (simp add: placed_def first_fit_def range_free_def va_avail_ptes)

lemma mapped_new_cong:
  assumes "ptes s1 = ptes s" and "vmrs s1 = vmrs s" and "vmrs_page s1 = vmrs_page s"
    and "ptes s2 = ptes s'" and "vmrs s2 = vmrs s'"
  shows "mapped_new s1 s2 K v pop \<longleftrightarrow> mapped_new s s' K v pop"
  using assms by (simp add: mapped_new_def vmr_ptr_def)

definition mmap_vmr :: "u64 \<Rightarrow> u64 \<Rightarrow> nat option \<Rightarrow> u64 \<Rightarrow> u32 \<Rightarrow> vmr_t" where
  "mmap_vmr r len fo offset prot =
     \<lparr>v_addr = r, v_length = len, v_file = fo, v_offset = offset,
      v_refcnt = ucast ((len - 1) div RISCV_PGSIZE + 1), v_prot = prot\<rparr>"

definition mmap_outcome ::
  "vmstate \<Rightarrow> u64 \<Rightarrow> u64 \<Rightarrow> u32 \<Rightarrow> u32 \<Rightarrow> nat option \<Rightarrow> u64 \<Rightarrow> u64 \<Rightarrow> vmstate \<Rightarrow> bool" where
  "mmap_outcome s addr len prot flags fo offset r s' \<longleftrightarrow>
     r = -1 \<and> ptes s' = ptes s \<or>
     placed s flags addr len r \<and>
     mapped_new s s' (page_keys r (npages r (r + len))) (mmap_vmr r len fo offset prot)
       (\<not> demand_paging s \<or> flags AND MAP_POPULATE \<noteq> 0)"

text \<open>The part of \<^verbatim>\<open>do_mmap\<close> between \<^verbatim>\<open>spinlock_lock\<close> and \<^verbatim>\<open>spinlock_unlock\<close>.\<close>

lemma mmap_section:
  assumes inv: "vm_inv x (\<lambda>_. 0) s" and low: "low_space s" and nz: "vmrs_page s \<noteq> 0" and unl: "\<not> vm_lock s"
    and len: "0 < unat len" and f: "borrowed x fo"
    and fits: "flags AND MAP_FIXED \<noteq> 0 \<or> unat len + 4096 \<le> unat (mmap_max (current s))"
  shows "case locked (\<lambda>s. bind_res (do_mmap_locked host addr len prot flags fo offset s)
        (\<lambda>(addr, s). Inr (addr,
           if addr < brk_max (current s) then set_current (brk_max_update (\<lambda>_. addr)) s else s))) s of
      Inl e \<Rightarrow> e = Assertion
    | Inr (r, s') \<Rightarrow> vm_inv x (\<lambda>_. 0) s' \<and> low_space s' \<and> vmrs_page s' \<noteq> 0 \<and> \<not> vm_lock s' \<and>
        mmap_outcome s addr len prot flags fo offset r s'"
proof -
  let ?s = "s\<lparr>vm_lock := True\<rparr>"
  have 1: "vm_inv x (\<lambda>_. 0) ?s" "vmrs_page ?s \<noteq> 0" "low_space ?s"
    using inv nz low by (simp_all add: low_space_def)
  have 2: "flags AND MAP_FIXED \<noteq> 0 \<or> unat len + 4096 \<le> unat (mmap_max (current ?s))" using fits by simp
  note S = do_mmap_locked_spec [OF 1 len f 2, where host = host and addr = addr and prot = prot
      and offset = offset, folded mmap_vmr_def]
  let ?m = "do_mmap_locked host addr len prot flags fo offset ?s"
  show ?thesis
  proof (cases ?m)
    case (Inl e)
    with S unl show ?thesis by (simp add: locked_def spinlock_lock_def)
  next
    case (Inr p)
    obtain r s1 where p: "p = (r, s1)" by (cases p)
    let ?s2 = "if r < brk_max (current s1) then set_current (brk_max_update (\<lambda>_. r)) s1 else s1"
    let ?s3 = "?s2\<lparr>vm_lock := False\<rparr>"
    have fr: "ptes ?s3 = ptes s1" "vmrs ?s3 = vmrs s1" "vmrs_page ?s3 = vmrs_page s1"
      "vm_inv x (\<lambda>_. 0) ?s3 \<longleftrightarrow> vm_inv x (\<lambda>_. 0) s1" "mmap_max (current ?s3) = mmap_max (current s1)"
      by simp_all
    have pl: "placed ?s flags addr len r \<longleftrightarrow> placed s flags addr len r" by (rule placed_cong) simp_all
    have mn: "mapped_new ?s s1 K v b \<longleftrightarrow> mapped_new s ?s3 K v b" for K v b
      by (rule mapped_new_cong) simp_all
    from S Inr p consider "r = -1" "s1 = ?s"
      | "placed ?s flags addr len r" "mmap_result x (\<lambda>_. 0) ?s r len (mmap_vmr r len fo offset prot)
          (\<not> demand_paging ?s \<or> flags AND MAP_POPULATE \<noteq> 0) s1" by auto
    then have "vm_inv x (\<lambda>_. 0) ?s3 \<and> low_space ?s3 \<and> vmrs_page ?s3 \<noteq> 0 \<and>
        mmap_outcome s addr len prot flags fo offset r ?s3"
    proof cases
      case c: 1
      then show ?thesis using 1 by (simp add: mmap_outcome_def low_space_def)
    next
      case c: 2
      then have "vm_inv x (\<lambda>_. 0) s1" "same_space ?s s1" and "mapped_new s ?s3
          (page_keys r (npages r (r + len))) (mmap_vmr r len fo offset prot)
          (\<not> demand_paging s \<or> flags AND MAP_POPULATE \<noteq> 0)"
        by (simp_all add: mmap_result_def mn)
      with c(1) pl 1 show ?thesis
        by (simp add: mmap_outcome_def fr same_space_def low_space_def)
    qed
    moreover have "locked (\<lambda>s. bind_res (do_mmap_locked host addr len prot flags fo offset s)
        (\<lambda>(addr, s). Inr (addr,
           if addr < brk_max (current s) then set_current (brk_max_update (\<lambda>_. addr)) s else s))) s =
        Inr (r, ?s3)"
      using unl by (simp add: locked_def spinlock_lock_def spinlock_unlock_def Inr p)
    ultimately show ?thesis by simp
  qed
qed

lemma do_mmap_spec:
  assumes ready: "vm_ready x s" and priv: "flags AND MAP_PRIVATE \<noteq> 0" and len: "len \<noteq> 0"
    and off: "aligned offset" and fits: "flags AND MAP_FIXED \<noteq> 0 \<or> unat len + 4096 \<le> unat (mmap_max (current s))"
    and anon: "flags AND MAP_ANONYMOUS = 0 \<Longrightarrow> fst (file_get fd s) \<noteq> None"
  defines "fo \<equiv> if flags AND MAP_ANONYMOUS = 0 then fst (file_get fd s) else None"
  shows "case do_mmap host addr len prot flags fd offset s of
      Inl e \<Rightarrow> e = Assertion
    | Inr (r, s') \<Rightarrow> vm_ready x s' \<and> mmap_outcome s addr len prot flags fo offset r s'"
proof -
  from ready have inv: "vm_inv x (\<lambda>_. 0) s" and low: "low_space s" and nz: "vmrs_page s \<noteq> 0"
    and unl: "\<not> vm_lock s" and xb: "\<forall>f. x f < 2 ^ 30" by (simp_all add: vm_ready_def)
  have len': "0 < unat len" using len by (simp add: word_neq_0_unat)
  have guard: "\<not> (flags AND MAP_PRIVATE = 0 \<or> len = 0 \<or> offset AND (RISCV_PGSIZE - 1) \<noteq> 0)"
    using priv len off by (simp add: aligned_def RISCV_PGSIZE_def word_and_mask_0_iff)
  let ?body = "\<lambda>fo s. bind_res (do_mmap_locked host addr len prot flags fo offset s)
        (\<lambda>(addr, s). Inr (addr,
           if addr < brk_max (current s) then set_current (brk_max_update (\<lambda>_. addr)) s else s))"
  show ?thesis
  proof (cases "flags AND MAP_ANONYMOUS = 0")
    case False
    then have eq: "do_mmap host addr len prot flags fd offset s =
        bind_res (locked (?body None) s) (\<lambda>(addr, s). Inr (addr, s))"
      using guard by (simp add: do_mmap_def)
    have "borrowed x None" by (simp add: borrowed_def)
    from mmap_section [OF inv low nz unl len' this fits, where host = host and addr = addr and prot = prot
        and offset = offset] xb
    show ?thesis unfolding eq
      by (cases "locked (?body None) s") (auto simp: False fo_def vm_ready_def)
  next
    case True
    obtain f s1 where g: "file_get fd s = (Some f, s1)" using anon [OF True] by (cases "file_get fd s") auto
    note G = file_get_vm [OF ready g]
    have eq: "do_mmap host addr len prot flags fd offset s =
        bind_res (locked (?body (Some f)) s1) (\<lambda>(addr, s). bind_res (file_decref host f s) (\<lambda>s. Inr (addr, s)))"
      using guard by (simp add: do_mmap_def True g)
    have fo: "fo = Some f" by (simp add: fo_def True g)
    have b: "borrowed (x(f := Suc (x f))) (Some f)" using G(1) by (simp add: borrowed_def)
    have 1: "low_space s1" "vmrs_page s1 \<noteq> 0" "\<not> vm_lock s1" "current s1 = current s"
      "demand_paging s1 = demand_paging s" "vmrs s1 = vmrs s" "vmrs_page s1 = vmrs_page s"
      using G(3) low nz unl by (simp_all add: vm_same_def low_space_def)
    have 2: "flags AND MAP_FIXED \<noteq> 0 \<or> unat len + 4096 \<le> unat (mmap_max (current s1))"
      using fits by (simp add: 1)
    note S = mmap_section [OF G(2) 1(1-3) len' b 2, where host = host and addr = addr and prot = prot
        and offset = offset]
    show ?thesis
    proof (cases "locked (?body (Some f)) s1")
      case (Inl e)
      with S show ?thesis by (simp add: eq)
    next
      case (Inr p)
      obtain r s2 where p: "p = (r, s2)" by (cases p)
      with Inr S have s2: "vm_inv (x(f := Suc (x f))) (\<lambda>_. 0) s2" "low_space s2" "vmrs_page s2 \<noteq> 0" "\<not> vm_lock s2"
        "mmap_outcome s1 addr len prot flags (Some f) offset r s2" by simp_all
      from file_decref_vm [OF s2(1) G(1), of "x f" host] obtain s3
        where s3: "file_decref host f s2 = Inr s3" "vm_inv x (\<lambda>_. 0) s3" "vm_same s2 s3" by auto
      have pt: "ptes s1 = ptes s" "ptes s3 = ptes s2" using G(3) s3(3) by (simp_all add: vm_same_ptes)
      have "mmap_outcome s addr len prot flags (Some f) offset r s3"
      proof -
        have "placed s1 flags addr len r \<longleftrightarrow> placed s flags addr len r"
          by (rule placed_cong) (simp_all add: pt 1)
        moreover have "mapped_new s1 s2 K v pop \<longleftrightarrow> mapped_new s s3 K v pop" for K v pop
          by (rule mapped_new_cong) (use s3(3) in \<open>simp_all add: pt 1 vm_same_def\<close>)
        ultimately show ?thesis using s2(5) by (simp add: mmap_outcome_def pt 1)
      qed
      moreover have "vm_ready x s3"
        using s3 s2 xb by (simp add: vm_ready_def vm_same_def low_space_def)
      ultimately show ?thesis by (simp add: eq Inr p s3(1) fo)
    qed
  qed
qed

section \<open>Changing protection\<close>

lemma pte_create_low:
  assumes "m < 1024"
  shows "pte_create n t AND m = (PTE_V OR t) AND m"
proof -
  have hi: "\<not> bit m i" if "10 \<le> i" for i
  proof -
    have "take_bit 10 m = m"
      using assms by (simp add: word_unat_eq_iff unsigned_take_bit_eq take_bit_nat_eq_self word_less_nat_alt)
    then have "bit m i = bit (take_bit 10 m) i" by simp
    with that show ?thesis by (simp add: bit_take_bit_iff)
  qed
  show ?thesis
    unfolding pte_create_def PTE_PPN_SHIFT_def
    by (rule bit_word_eqI) (use hi in \<open>auto simp: bit_simps not_le\<close>)
qed

lemma prot_to_type_high: "drop_bit 10 (prot_to_type prot user) = 0"
  by (simp add: prot_to_type_def Let_def prot_defs pte_defs)

lemma pte_ppn_create: "pte_ppn (pte_create (pte_ppn e) (prot_to_type prot user)) = pte_ppn e"
proof -
  have "drop_bit 10 (PTE_V OR prot_to_type prot user) = 0"
    by (simp add: drop_bit_or prot_to_type_high) (simp add: PTE_V_def)
  then have "pte_ppn (pte_create (pte_ppn e) (prot_to_type prot user)) =
      drop_bit 10 (push_bit 10 (drop_bit 10 e))"
    by (simp add: pte_create_def pte_ppn_def PTE_PPN_SHIFT_def drop_bit_or or.assoc)
  also have "\<dots> = drop_bit 10 e"
    by (rule bit_word_eqI) (auto simp: bit_simps dest: bit_imp_le_length)
  finally show ?thesis by (simp add: pte_ppn_def PTE_PPN_SHIFT_def)
qed

lemma prot_bits:
  "pte_create n (prot_to_type prot user) AND PTE_W \<noteq> 0 \<longleftrightarrow> prot AND PROT_WRITE \<noteq> 0"
  "pte_create n (prot_to_type prot user) AND PTE_X \<noteq> 0 \<longleftrightarrow> prot AND PROT_EXEC \<noteq> 0"
  "pte_create n (prot_to_type prot user) AND PTE_U \<noteq> 0 \<longleftrightarrow> user"
  by (simp_all add: pte_create_low pte_defs)
    (simp_all add: prot_to_type_def Let_def prot_defs pte_defs)

text \<open>The second entry maps the same frame with no more rights to write or execute.\<close>

definition narrower :: "u64 \<Rightarrow> u64 \<Rightarrow> bool" where
  "narrower e e' \<longleftrightarrow>
     (e = e' \<or> e AND PTE_V \<noteq> 0 \<and> e' AND PTE_V \<noteq> 0) \<and> pte_ppn e' = pte_ppn e \<and>
     (e' AND PTE_W \<noteq> 0 \<longrightarrow> e AND PTE_W \<noteq> 0) \<and> (e' AND PTE_X \<noteq> 0 \<longrightarrow> e AND PTE_X \<noteq> 0) \<and>
     (e' AND PTE_U \<noteq> 0 \<longrightarrow> e AND PTE_U \<noteq> 0)"

lemma narrower_refl [simp]: "narrower e e"
  by (simp add: narrower_def)

lemma narrower_trans: "narrower e e' \<Longrightarrow> narrower e' e'' \<Longrightarrow> narrower e e''"
  by (auto simp: narrower_def)

definition mprotect_result :: "(nat \<Rightarrow> nat) \<Rightarrow> (nat \<Rightarrow> nat) \<Rightarrow> vmstate \<Rightarrow> vmstate \<Rightarrow> bool" where
  "mprotect_result x pend s s' \<longleftrightarrow>
     vm_inv x pend s' \<and> leaf_slot s' = leaf_slot s \<and> same_space s s' \<and>
     (\<forall>k. narrower (ptes s k) (ptes s' k)) \<and> length (vmrs s') = length (vmrs s) \<and>
     (\<forall>i < length (vmrs s). v_prot (vmrs s' ! i) AND NOT (v_prot (vmrs s ! i)) = 0)"

lemma u32_sub_trans: "(a::u32) AND NOT b = 0 \<Longrightarrow> b AND NOT c = 0 \<Longrightarrow> a AND NOT c = 0"
proof -
  assume "a AND NOT b = 0" and "b AND NOT c = 0"
  then have "bit (a AND NOT b) n = bit 0 n" "bit (b AND NOT c) n = bit 0 n" for n by simp_all
  then show ?thesis by (intro bit_word_eqI) (auto simp: bit_simps)
qed

lemma mprotect_result_refl: "vm_inv x pend s \<Longrightarrow> mprotect_result x pend s s"
  by (simp add: mprotect_result_def same_space_def)

lemma mprotect_result_trans:
  assumes "mprotect_result x pend s s'" and "mprotect_result x pend s' s''"
  shows "mprotect_result x pend s s''"
proof -
  have "\<forall>k. narrower (ptes s k) (ptes s'' k)"
    using assms narrower_trans unfolding mprotect_result_def by blast
  moreover have "v_prot (vmrs s'' ! i) AND NOT (v_prot (vmrs s ! i)) = 0" if "i < length (vmrs s)" for i
  proof (rule u32_sub_trans)
    show "v_prot (vmrs s'' ! i) AND NOT (v_prot (vmrs s' ! i)) = 0"
      using assms that by (simp add: mprotect_result_def)
    show "v_prot (vmrs s' ! i) AND NOT (v_prot (vmrs s ! i)) = 0"
      using assms(1) that by (simp add: mprotect_result_def)
  qed
  ultimately show ?thesis
    using assms same_space_trans [of s s' s''] by (simp add: mprotect_result_def)
qed

lemma mprotect_page_spec:
  assumes inv: "vm_inv x pend s"
  shows "\<exists>r. mprotect_page prot a s = Inr r \<and>
    (case r of Inl err \<Rightarrow> err = - ENOMEM \<and> pte_of a s = 0 \<or> err = - EACCES
     | Inr s' \<Rightarrow> mprotect_result x pend s s' \<and> pte_of a s \<noteq> 0)"
proof (cases "leaf_slot s (key a)")
  case None
  then show ?thesis by (simp add: mprotect_page_def walk_leaf pte_of_def)
next
  case (Some p)
  from inv have ok: "pt_ok s" by (simp add: vm_inv_def)
  have pe: "pte_of a s = ptes s (key a)" "pt_mem s p = ptes s (key a)"
    using ptes_slot [OF Some] by (simp_all add: pte_of_ptes)
  show ?thesis
  proof (rule entry_cases [OF inv, of "key a"])
    assume "ptes s (key a) = 0"
    then show ?thesis by (simp add: mprotect_page_def walk_leaf Some pe Let_def)
  next
    assume V: "ptes s (key a) AND PTE_V \<noteq> 0"
    let ?e = "ptes s (key a)"
    let ?e' = "pte_create (pte_ppn ?e) (prot_to_type prot True)"
    let ?bad = "?e AND PTE_U = 0 \<or> (prot AND PROT_READ \<noteq> 0 \<and> ?e AND PTE_R = 0) \<or>
                (prot AND PROT_WRITE \<noteq> 0 \<and> ?e AND PTE_W = 0) \<or> (prot AND PROT_EXEC \<noteq> 0 \<and> ?e AND PTE_X = 0)"
    have nz: "?e \<noteq> 0" using V by auto
    have "mprotect_result x pend s (set_pte p ?e' s)" if "\<not> ?bad"
    proof -
      have "narrower ?e ?e'"
        using that V by (auto simp: narrower_def pte_create_V pte_ppn_create prot_bits)
      then show ?thesis
        using vm_inv_plain [OF inv Some, of ?e'] V set_pte_leaf_slot [OF ok Some]
        by (auto simp: mprotect_result_def pte_create_V set_pte_ptes [OF ok Some] region_frame
            intro: same_env_space)
    qed
    then show ?thesis using V nz by (auto simp: mprotect_page_def walk_leaf Some pe Let_def)
  next
    fix i assume i: "vmrs_page s \<noteq> 0" "i < MAX_VMR" "ptes s (key a) = vmr_ptr s i"
      "ptes s (key a) \<noteq> 0" "ptes s (key a) AND PTE_V = 0" "vmr_of s (ptes s (key a)) = Inr i"
    let ?v = "vmrs s ! i"
    let ?s' = "s\<lparr>vmrs := (vmrs s)[i := ?v\<lparr>v_prot := prot\<rparr>]\<rparr>"
    have len: "i < length (vmrs s)" using vm_inv_page(2) [OF inv i(1)] i(2) by simp
    have "mprotect_result x pend s ?s'" if sub: "(v_prot ?v XOR prot) AND NOT (v_prot ?v) = 0"
    proof -
      have "file_inv (\<lambda>f. x f + file_holds ?s' f) ?s'"
        using inv file_holds_same [of "?v\<lparr>v_prot := prot\<rparr>" s i] by (simp add: vm_inv_def)
      moreover have "region_ok (pt.entries s (vmr_ptr s i) + pend i) (?v\<lparr>v_prot := prot\<rparr>)"
        using vm_inv_region [OF inv len] by (simp add: region_ok_def)
      ultimately have "vm_inv x (pend(i := pend i)) ?s' \<and> ptes ?s' = ptes s \<and> leaf_slot ?s' = leaf_slot s"
        using vm_inv_regions [OF inv len, of ?s' "?v\<lparr>v_prot := prot\<rparr>" "pend i"] by simp
      moreover have "prot AND NOT (v_prot ?v) = 0"
      proof -
        have "bit ((v_prot ?v XOR prot) AND NOT (v_prot ?v)) n = bit 0 n" for n using sub by simp
        then show ?thesis by (intro bit_word_eqI) (auto simp: bit_simps)
      qed
      then have "v_prot ((vmrs s)[i := ?v\<lparr>v_prot := prot\<rparr>] ! j) AND NOT (v_prot (vmrs s ! j)) = 0"
        if "j < length (vmrs s)" for j
        using that by (cases "j = i") simp_all
      ultimately show ?thesis
        by (simp add: mprotect_result_def same_space_def)
    qed
    then show ?thesis using i by (auto simp: mprotect_page_def walk_leaf Some pe Let_def)
  qed
qed

lemma mprotect_loop_spec:
  assumes "vm_inv x pend s"
  shows "mprotect_loop prot e a s = Inl AddrWrap \<or>
    (\<exists>r s'. mprotect_loop prot e a s = Inr (r, s') \<and> mprotect_result x pend s s' \<and>
       r \<in> {0, - ENOMEM, - EACCES})"
  using assms
proof (induction prot e a s rule: mprotect_loop.induct)
  case (1 prot e a s)
  show ?case
  proof (cases "a < e")
    case False
    then show ?thesis using 1 by (subst (1 2) mprotect_loop.simps) (simp add: mprotect_result_refl)
  next
    case True
    from mprotect_page_spec [OF "1.prems", of prot a] obtain r where r: "mprotect_page prot a s = Inr r"
      and P: "case r of Inl err \<Rightarrow> err = - ENOMEM \<and> pte_of a s = 0 \<or> err = - EACCES
         | Inr s' \<Rightarrow> mprotect_result x pend s s' \<and> pte_of a s \<noteq> 0" by blast
    show ?thesis
    proof (cases r)
      case (Inl err)
      then have "mprotect_loop prot e a s = Inr (err, s)"
        using True r by (subst mprotect_loop.simps) simp
      with P Inl "1.prems" show ?thesis by (auto simp: mprotect_result_refl)
    next
      case (Inr s1)
      with P have m: "mprotect_result x pend s s1" by simp
      then have inv1: "vm_inv x pend s1" by (simp add: mprotect_result_def)
      show ?thesis
      proof (cases "a + RISCV_PGSIZE < a")
        case wrap: True
        then show ?thesis using True r Inr by (subst mprotect_loop.simps) simp
      next
        case False
        then have eq: "mprotect_loop prot e a s = mprotect_loop prot e (a + RISCV_PGSIZE) s1"
          using True r Inr by (subst mprotect_loop.simps) simp
        from "1.IH" [OF True r Inr False inv1] show ?thesis
          unfolding eq using mprotect_result_trans [OF m] by blast
      qed
    qed
  qed
qed

lemma do_mprotect_spec:
  assumes ready: "vm_ready x s" and al: "aligned a"
  shows "do_mprotect a len prot s = Inl AddrWrap \<or>
    (\<exists>r s'. do_mprotect a len prot s = Inr (r, s') \<and> vm_ready x s' \<and> r \<in> {0, - ENOMEM, - EACCES} \<and>
       (\<forall>k. narrower (ptes s k) (ptes s' k)) \<and> length (vmrs s') = length (vmrs s) \<and>
       (\<forall>i < length (vmrs s). v_prot (vmrs s' ! i) AND NOT (v_prot (vmrs s ! i)) = 0))"
proof -
  let ?s = "s\<lparr>vm_lock := True\<rparr>"
  have inv: "vm_inv x (\<lambda>_. 0) ?s" and unl: "\<not> vm_lock s" using ready by (simp_all add: vm_ready_def)
  have eq: "do_mprotect a len prot s =
      bind_res (mprotect_loop prot (a + len) a ?s) (\<lambda>(r, s). Inr (r, s\<lparr>vm_lock := False\<rparr>))"
    using al unl by (simp add: do_mprotect_def locked_def spinlock_lock_def spinlock_unlock_def
        aligned_def RISCV_PGSIZE_def word_and_mask_0_iff)
  from mprotect_loop_spec [OF inv, of prot "a + len" a] show ?thesis
  proof
    assume "mprotect_loop prot (a + len) a ?s = Inl AddrWrap"
    then show ?thesis by (simp add: eq)
  next
    assume "\<exists>r s'. mprotect_loop prot (a + len) a ?s = Inr (r, s') \<and> mprotect_result x (\<lambda>_. 0) ?s s' \<and>
       r \<in> {0, - ENOMEM, - EACCES}"
    then obtain r s1 where r: "mprotect_loop prot (a + len) a ?s = Inr (r, s1)"
      "mprotect_result x (\<lambda>_. 0) ?s s1" "r \<in> {0, - ENOMEM, - EACCES}" by blast
    have "vm_ready x (s1\<lparr>vm_lock := False\<rparr>)"
      using r(2) ready by (simp add: vm_ready_def mprotect_result_def same_space_def low_space_def)
    then show ?thesis using r by (simp add: eq mprotect_result_def)
  qed
qed

section \<open>The program break\<close>

lemma unat_ROUNDUP:
  assumes "unat n \<le> 2 ^ 40"
  shows "unat (ROUNDUP n RISCV_PGSIZE) = (unat n + 4095) div 4096 * 4096"
proof (cases "n = 0")
  case True
  then show ?thesis by (simp add: ROUNDUP_def RISCV_PGSIZE_def)
next
  case False
  then have pos: "0 < unat n" by (simp add: word_neq_0_unat)
  then have "1 \<le> n" by (simp add: word_le_nat_alt)
  then have l1: "unat (n - 1) = unat n - 1" by (simp add: unat_sub_no_wrap)
  have d: "unat ((n - 1) div 4096) = (unat n - 1) div 4096" by (simp add: unat_div l1)
  have small: "(unat n - 1) div 4096 < 2 ^ 30" using assms by simp
  have s1: "unat ((n - 1) div 4096 + 1) = (unat n - 1) div 4096 + 1"
    using small by (simp add: unat_add_no_wrap d)
  define m where "m = (n - 1) div 4096 + 1"
  have "unat m * unat (4096::u64) < 2 ^ LENGTH(64)" using small s1 by (simp add: m_def)
  then have "unat (m * 4096) = unat m * 4096" by (simp add: unat_mult_lem [THEN iffD1])
  then have "unat (((n - 1) div 4096 + 1) * 4096) = ((unat n - 1) div 4096 + 1) * 4096"
    by (simp only: m_def s1)
  moreover have "(unat n - 1) div 4096 + 1 = (unat n + 4095) div 4096" using pos by simp
  ultimately show ?thesis by (simp add: ROUNDUP_def RISCV_PGSIZE_def)
qed

lemma mapped_new_nz:
  assumes "mapped_new s s' K v pop" and "vm_inv x pend s" and "vmrs_page s \<noteq> 0"
  shows "(\<forall>k. k \<notin> K \<longrightarrow> ptes s' k = ptes s k) \<and> (\<forall>k \<in> K. ptes s' k \<noteq> 0)"
proof -
  from assms(1) obtain i where i: "i < MAX_VMR" "\<forall>k. ptes s' k \<noteq> ptes s k \<longrightarrow> k \<in> K"
    "\<forall>k \<in> K. if pop then populated (v_prot v) (ptes s' k) else ptes s' k = vmr_ptr s i"
    by (auto simp: mapped_new_def)
  have "vmr_ptr s i \<noteq> 0"
    by (rule vmr_ptr_facts(1) [OF vm_inv_page(1) [OF assms(2,3)] assms(3) i(1)])
  then have "\<forall>k \<in> K. ptes s' k \<noteq> 0" using i(3) by (auto simp: populated_def split: if_splits)
  with i(2) show ?thesis by blast
qed

text \<open>The bounds of the break lie in user memory, at page boundaries.\<close>

definition brk_ok :: "elf_info \<Rightarrow> bool" where
  "brk_ok c \<longleftrightarrow> brk_min c \<le> brk_max c \<and> brk_max c \<le> mmap_max c \<and> brk c \<le> mmap_max c \<and>
     aligned (brk c) \<and> aligned (brk_max c)"

definition clamp :: "elf_info \<Rightarrow> u64 \<Rightarrow> u64" where
  "clamp c addr = (if addr < brk_min c then brk_min c else if brk_max c < addr then brk_max c else addr)"

definition old_break :: "elf_info \<Rightarrow> u64" where
  "old_break c = (if brk c = 0 then ROUNDUP (brk_min c) RISCV_PGSIZE else brk c)"

lemma round_le:
  assumes "unat n \<le> unat m" and "aligned m" and "unat m \<le> 0x80000000"
  shows "unat (ROUNDUP n RISCV_PGSIZE) \<le> unat m" and "aligned (ROUNDUP n RISCV_PGSIZE)"
proof -
  have u: "unat (ROUNDUP n RISCV_PGSIZE) = (unat n + 4095) div 4096 * 4096"
    using assms by (intro unat_ROUNDUP) simp
  obtain q where "unat m = 4096 * q" using assms(2) by (auto simp: aligned_def)
  with assms(1) have "(unat n + 4095) div 4096 \<le> q" by simp
  then show "unat (ROUNDUP n RISCV_PGSIZE) \<le> unat m" using \<open>unat m = 4096 * q\<close> u by simp
  show "aligned (ROUNDUP n RISCV_PGSIZE)" by (simp add: aligned_def u)
qed

lemma npages_aligned:
  assumes "aligned a" and "aligned e" and "unat a \<le> unat e"
  shows "unat a + 4096 * npages a e = unat e"
proof -
  obtain p where p: "unat a = 4096 * p" using assms(1) by (auto simp: aligned_def)
  obtain q where q: "unat e = 4096 * q" using assms(2) by (auto simp: aligned_def)
  have "unat e - unat a + 4095 = 4096 * (q - p) + 4095" using p q by (simp add: diff_mult_distrib2)
  then have "npages a e = q - p" by (simp add: npages_def)
  then show ?thesis using p q assms(3) by (simp add: diff_mult_distrib2)
qed

definition break_moved :: "vmstate \<Rightarrow> u64 \<Rightarrow> u64 \<Rightarrow> vmstate \<Rightarrow> bool" where
  "break_moved s b nb s' \<longleftrightarrow>
     (\<forall>u < 2 ^ 39. if nb \<le> u \<and> u < b then pte_of u s' = 0
                  else if b \<le> u \<and> u < nb then pte_of u s' \<noteq> 0 else pte_of u s' = pte_of u s)"

lemma keys_between:
  assumes al: "aligned a" "aligned e" and le: "unat a \<le> unat e" "unat e \<le> 0x80000000" and u: "u < 2 ^ 39"
  shows "key u \<in> page_keys a (npages a e) \<longleftrightarrow> a \<le> u \<and> u < e"
proof -
  note n = npages_aligned [OF al le(1)]
  have "unat a + 4096 * npages a e \<le> 2 ^ 39" using n le(2) by simp
  from page_keys_iff [OF al(1) this u] n show ?thesis by (simp add: word_le_nat_alt word_less_nat_alt)
qed

lemma brk_shrink:
  assumes inv: "vm_inv x (\<lambda>_. 0) s" and b: "aligned b" "unat b \<le> 0x80000000" and nb: "aligned nb" "nb < b"
  shows "\<exists>s'. do_munmap_locked host nb (b - nb) s = Inr s' \<and> vm_inv x (\<lambda>_. 0) s' \<and> same_space s s' \<and>
    break_moved s b nb s'"
proof -
  have e: "nb + (b - nb) = b" by simp
  have le: "unat nb \<le> unat b" using nb(2) by (simp add: word_less_nat_alt)
  have "unat (nb + (b - nb)) + 4096 \<le> 2 ^ 64" using b(2) by (simp add: e)
  from do_munmap_locked_spec [OF inv this, of host] obtain s' where
    s': "do_munmap_locked host nb (b - nb) s = Inr s'" "vm_inv x (\<lambda>_. 0) s'" "same_env s s'"
      "ptes s' = (\<lambda>k. if k \<in> page_keys nb (npages nb b) then 0 else ptes s k)" by (auto simp: e)
  have "break_moved s b nb s'"
    unfolding break_moved_def
  proof (intro allI impI)
    fix u :: u64 assume "u < 2 ^ 39"
    from keys_between [OF nb(1) b(1) le b(2) this] nb(2)
    show "if nb \<le> u \<and> u < b then pte_of u s' = 0
          else if b \<le> u \<and> u < nb then pte_of u s' \<noteq> 0 else pte_of u s' = pte_of u s"
      by (auto simp: pte_of_ptes s'(4))
  qed
  with s' show ?thesis using same_env_space by blast
qed

lemma brk_grow:
  assumes inv: "vm_inv x (\<lambda>_. 0) s" and low: "low_space s" and nz: "vmrs_page s \<noteq> 0"
    and b: "aligned b" "b < nb" and nb: "aligned nb" "unat nb \<le> unat (mmap_max (current s))"
  shows "case do_mmap_locked host b (nb - b) prot (MAP_FIXED OR MAP_PRIVATE OR MAP_ANONYMOUS) None 0 s of
      Inl e \<Rightarrow> e = Assertion
    | Inr (r, s') \<Rightarrow> r = b \<longrightarrow> vm_inv x (\<lambda>_. 0) s' \<and> same_space s s' \<and> break_moved s b nb s'"
proof -
  let ?len = "nb - b" and ?fl = "MAP_FIXED OR MAP_PRIVATE OR MAP_ANONYMOUS"
  have e: "b + ?len = nb" by simp
  have hi: "unat nb \<le> 0x80000000" using nb(2) low_space_unat [OF low] by simp
  have lt: "unat b < unat nb" using b(2) by (simp add: word_less_nat_alt)
  have "unat ?len = unat nb - unat b" using b(2) by (intro unat_sub_no_wrap) simp
  then have len: "0 < unat ?len" using lt by simp
  have fix1: "?fl AND MAP_FIXED \<noteq> 0" by (simp add: map_defs)
  have "borrowed x None" by (simp add: borrowed_def)
  note S = do_mmap_locked_spec [OF inv nz low len this disjI1 [OF fix1], where host = host and addr = b
      and prot = prot and offset = 0]
  have moved: "vm_inv x (\<lambda>_. 0) s' \<and> same_space s s' \<and> break_moved s b nb s'"
    if "mmap_result x (\<lambda>_. 0) s b ?len v pop s'" for v pop s'
  proof -
    from that have r: "vm_inv x (\<lambda>_. 0) s'" "same_space s s'"
      "mapped_new s s' (page_keys b (npages b nb)) v pop" by (simp_all add: mmap_result_def)
    note M = mapped_new_nz [OF r(3) inv nz]
    have "break_moved s b nb s'"
      unfolding break_moved_def
    proof (intro allI impI)
      fix u :: u64 assume "u < 2 ^ 39"
      have "key u \<notin> page_keys b (npages b nb) \<longrightarrow> ptes s' (key u) = ptes s (key u)"
        and "key u \<in> page_keys b (npages b nb) \<longrightarrow> ptes s' (key u) \<noteq> 0" using M by blast+
      with keys_between [OF b(1) nb(1) _ hi \<open>u < 2 ^ 39\<close>] lt b(2)
      show "if nb \<le> u \<and> u < b then pte_of u s' = 0
            else if b \<le> u \<and> u < nb then pte_of u s' \<noteq> 0 else pte_of u s' = pte_of u s"
        by (auto simp: pte_of_ptes)
    qed
    with r show ?thesis by simp
  qed
  have "b \<noteq> -1"
  proof
    assume "b = -1"
    then have "unat b = 2 ^ 64 - 1" by (simp add: unsigned_minus_1_eq_mask mask_eq_exp_minus_1)
    with lt hi show False by simp
  qed
  with S moved show ?thesis by (auto split: sum.splits prod.splits)
qed

lemma break_moved_cong:
  assumes "ptes s1 = ptes s" and "ptes s2 = ptes s'"
  shows "break_moved s1 b nb s2 \<longleftrightarrow> break_moved s b nb s'"
  using assms by (simp add: break_moved_def pte_of_ptes)

lemma do_brk_spec:
  fixes addr :: u64
  assumes ready: "vm_ready x s" and ok: "brk_ok (current s)"
  defines "nb \<equiv> clamp (current s) addr" and "b \<equiv> old_break (current s)"
  shows "case do_brk host addr s of
      Inl e \<Rightarrow> e = Assertion
    | Inr (r, s') \<Rightarrow> r = nb \<and> vm_ready x s' \<and> brk (current s') = ROUNDUP nb RISCV_PGSIZE \<and>
        brk_ok (current s') \<and> break_moved s b (ROUNDUP nb RISCV_PGSIZE) s'"
proof -
  let ?c = "current s"
  let ?nbp = "ROUNDUP nb RISCV_PGSIZE"
  define s1 where "s1 = (if brk ?c = 0 then set_current (brk_update (\<lambda>_. b)) (s\<lparr>vm_lock := True\<rparr>)
      else s\<lparr>vm_lock := True\<rparr>)"
  from ready have inv: "vm_inv x (\<lambda>_. 0) s1" and nz: "vmrs_page s1 \<noteq> 0" and unl: "\<not> vm_lock s"
    and low: "low_space s1" and pt: "ptes s1 = ptes s" and c1: "mmap_max (current s1) = mmap_max ?c"
    and b1: "brk (current s1) = b"
    by (auto simp: vm_ready_def s1_def low_space_def b_def old_break_def)
  have max: "unat (mmap_max ?c) \<le> 0x80000000" using ready low_space_unat by (simp add: vm_ready_def)
  have le: "unat (brk_min ?c) \<le> unat (brk_max ?c)" "unat (brk_max ?c) \<le> unat (mmap_max ?c)"
    "unat (brk ?c) \<le> unat (mmap_max ?c)" and al: "aligned (brk ?c)" "aligned (brk_max ?c)"
    using ok by (simp_all add: brk_ok_def word_le_nat_alt)
  have "unat nb \<le> unat (brk_max ?c)"
    using le by (auto simp: nb_def clamp_def word_less_nat_alt)
  note N = round_le [OF this al(2)]
  have nbp: "aligned ?nbp" "unat ?nbp \<le> unat (mmap_max ?c)" using N le max by simp_all
  note M = round_le [OF le(1) al(2)]
  have ab: "aligned b" "unat b \<le> unat (mmap_max ?c)"
    using M al(1) le max by (auto simp: b_def old_break_def)
  have fin: "vm_ready x (set_current (brk_update (\<lambda>_. ?nbp)) s2\<lparr>vm_lock := False\<rparr>) \<and>
      brk_ok (current (set_current (brk_update (\<lambda>_. ?nbp)) s2)) \<and>
      break_moved s b ?nbp (set_current (brk_update (\<lambda>_. ?nbp)) s2\<lparr>vm_lock := False\<rparr>)"
    if "vm_inv x (\<lambda>_. 0) s2" "same_space s1 s2" "break_moved s1 b ?nbp s2" for s2
  proof -
    have "current s2 = current s1" "vmrs_page s2 = vmrs_page s1" using that(2) by (simp_all add: same_space_def)
    moreover have "brk_ok (brk_update (\<lambda>_. ?nbp) (current s1))"
      using ok nbp by (auto simp: brk_ok_def s1_def word_le_nat_alt)
    moreover have "break_moved s1 b ?nbp s2 \<longleftrightarrow>
        break_moved s b ?nbp (set_current (brk_update (\<lambda>_. ?nbp)) s2\<lparr>vm_lock := False\<rparr>)"
      by (rule break_moved_cong) (simp_all add: pt)
    ultimately show ?thesis
      using that(1,3) nz low ready by (simp add: vm_ready_def low_space_def)
  qed
  define step where "step = (if ?nbp < b then do_munmap_locked host ?nbp (b - ?nbp) s1
       else if b < ?nbp then
         bind_res (do_mmap_locked host b (?nbp - b) (-1) (MAP_FIXED OR MAP_PRIVATE OR MAP_ANONYMOUS) None 0 s1)
           (\<lambda>(r, s). kassert (r = b) (Inr s))
       else Inr s1)"
  have eq: "do_brk host addr s = bind_res step
      (\<lambda>s2. Inr (nb, set_current (brk_update (\<lambda>_. ?nbp)) s2\<lparr>vm_lock := False\<rparr>))"
  proof -
    have "do_brk_locked host addr (s\<lparr>vm_lock := True\<rparr>) = bind_res step
        (\<lambda>s2. Inr (nb, set_current (brk_update (\<lambda>_. ?nbp)) s2))"
      using b1 by (auto simp: do_brk_locked_def Let_def step_def nb_def clamp_def s1_def b_def old_break_def)
    then show ?thesis
      using unl by (simp add: do_brk_def locked_def spinlock_lock_def spinlock_unlock_def bind_res_assoc)
  qed
  have "case step of Inl e \<Rightarrow> e = Assertion
     | Inr s2 \<Rightarrow> vm_inv x (\<lambda>_. 0) s2 \<and> same_space s1 s2 \<and> break_moved s1 b ?nbp s2"
  proof -
    consider "?nbp < b" | "b < ?nbp" | "b = ?nbp" by (metis linorder_cases)
    then show ?thesis
    proof cases
      case 1
      have "unat b \<le> 0x80000000" using ab(2) max by simp
      from brk_shrink [OF inv ab(1) this nbp(1) 1, of host] 1 show ?thesis by (auto simp: step_def)
    next
      case 2
      then have n1: "\<not> ?nbp < b" by simp
      have "unat ?nbp \<le> unat (mmap_max (current s1))" using nbp(2) by (simp add: c1)
      note G = brk_grow [OF inv low nz ab(1) 2 nbp(1) this, where host = host and prot = "-1"]
      show ?thesis
        using G 2 n1 by (auto simp: step_def kassert_def bind_res_def split: sum.splits prod.splits)
    next
      case 3
      then show ?thesis using inv by (auto simp: step_def same_space_def break_moved_def)
    qed
  qed
  then show ?thesis using fin by (cases step) (auto simp: eq)
qed

section \<open>Page faults from outside\<close>

lemma handle_page_fault_spec:
  assumes ready: "vm_ready x s"
  shows "case handle_page_fault host vaddr prot s of
      Inl e \<Rightarrow> e = Assertion
    | Inr (r, s') \<Rightarrow> vm_ready x s' \<and> (\<forall>k. k \<noteq> key vaddr \<longrightarrow> ptes s' k = ptes s k) \<and> same_env s s' \<and>
        (r = -1 \<or> r = 0 \<and> populated prot (ptes s' (key vaddr)))"
proof -
  let ?s = "s\<lparr>vm_lock := True\<rparr>"
  have inv: "vm_inv x (\<lambda>_. 0) ?s" and low: "low_space ?s" and unl: "\<not> vm_lock s"
    using ready by (simp_all add: vm_ready_def low_space_def)
  note S = handle_page_fault_locked_spec [OF inv low, where host = host and vaddr = vaddr and prot = prot]
  show ?thesis
  proof (cases "handle_page_fault_locked host vaddr prot ?s")
    case (Inl e)
    with S unl show ?thesis by (simp add: handle_page_fault_def locked_def spinlock_lock_def)
  next
    case (Inr p)
    obtain r s1 where p: "p = (r, s1)" by (cases p)
    have eq: "handle_page_fault host vaddr prot s = Inr (r, s1\<lparr>vm_lock := False\<rparr>)"
      using unl Inr p by (simp add: handle_page_fault_def locked_def spinlock_lock_def spinlock_unlock_def)
    from S Inr p have s1: "vm_inv x (\<lambda>_. 0) s1" "same_env ?s s1" "\<forall>k. k \<noteq> key vaddr \<longrightarrow> ptes s1 k = ptes s k"
      "r = -1 \<or> r = 0 \<and> populated prot (ptes s1 (key vaddr))"
      by (auto simp: fault_result_def populated_def)
    then show ?thesis using ready unl by (auto simp: eq vm_ready_def same_env_def low_space_def)
  qed
qed

section \<open>A first state\<close>

text \<open>
  A state with empty page tables: two pages of the pool are in use, one for the root table and
  one for the regions; the three standard descriptors are open.
\<close>

definition vm0 :: vmstate where
  "vm0 = \<lparr>files = files (std_kstate (\<lambda>_. 0) 0), fds = fds (std_kstate (\<lambda>_. 0) 0), requests = [],
     pmem = (\<lambda>_. 0), first_free_paddr = 0x80500000, pt_mem = (\<lambda>_. 0),
     root_page_table = 0x80400000, vmrs_page = 0x80401000, vmrs = replicate MAX_VMR zero_vmr,
     first_free_page = 0x80400000, next_free_page = 2, free_pages = 256, demand_paging = True,
     current = \<lparr>phent = 0, phnum = 0, is_supervisor = 0, phdr = 0, phdr_size = 0, bias = 0,
       entry = 0, brk_min = 0x20000, brk = 0x20000, brk_max = 0x70000000, mmap_max = 0x70000000,
       stack_top = 0, time0 = 0, cycle0 = 0, instret0 = 0\<rparr>,
     vm_lock = False, satp = 0\<rparr>"

definition std_refs :: "nat \<Rightarrow> nat" where
  "std_refs f = (if f < 3 then 1 else 0)"

lemma tbl_zero: "tbl (\<lambda>_. 0) r p = (if p = [] then Some r else None)"
  by (induction p) auto

lemma vm0_ptes: "ptes vm0 k = 0"
  by (cases k) (simp add: ptes_def vm0_def tbl_zero del: tbl.simps)

lemma in_pool_vm0: "in_pool vm0 0x80400000" "in_pool vm0 0x80401000"
proof -
  have "pool_page vm0 0 = 0x80400000" "pool_page vm0 1 = 0x80401000"
    by (simp_all add: pool_page_def vm0_def)
  moreover have "unat (next_free_page vm0) = 2" by (simp add: vm0_def)
  ultimately show "in_pool vm0 0x80400000" "in_pool vm0 0x80401000"
    unfolding in_pool_def by (metis zero_less_numeral, metis one_less_numeral_iff semiring_norm(76))
qed

lemma vm0_pt_ok: "pt_ok vm0"
proof -
  have "pool_ok vm0" by (simp add: pool_ok_def vm0_def aligned_def)
  moreover have "tables_ok vm0"
    using in_pool_vm0 by (simp add: tables_ok_def vm0_def tbl_zero del: tbl.simps)
  moreover have "in_pool vm0 (vmrs_page vm0)" using in_pool_vm0(2) by (simp add: vm0_def)
  ultimately show ?thesis by (simp add: pt_ok_def)
qed

lemma vm0_inv: "vm_inv std_refs (\<lambda>_. 0) vm0"
proof -
  have vm: "vmrs_page vm0 \<noteq> 0" "aligned (vmrs_page vm0)" "vmrs vm0 = replicate MAX_VMR zero_vmr"
    by (simp_all add: vm0_def aligned_def)
  have "pt.entries vm0 (vmr_ptr vm0 i) = 0" if "i < MAX_VMR" for i
    using vmr_ptr_facts(1) [OF vm(2,1) that] by (simp add: pt.entries_def vm0_ptes)
  then have "regions_ok (\<lambda>_. 0) vm0"
    using vm by (simp add: regions_ok_def entry_ok_def vm0_ptes region_ok_def zero_vmr_def)
  moreover have "file_holds vm0 f = 0" for f
    by (simp add: file_holds_def vm(3) zero_vmr_def)
  moreover have "file_inv std_refs vm0"
    using std_kstate_inv [of "\<lambda>_. 0" 0]
    by (simp add: file_inv_def file_ok_def nrefs_def std_refs_def [abs_def] vm0_def)
  moreover have "\<forall>f. std_refs f < 2 ^ 31" by (simp add: std_refs_def)
  ultimately show ?thesis using vm0_pt_ok by (simp add: vm_inv_def)
qed

lemma vm0_ready: "vm_ready std_refs vm0"
  using vm0_inv by (simp add: vm_ready_def low_space_def DRAM_BASE_def std_refs_def) (simp add: vm0_def)

section \<open>Properties\<close>

text \<open>
  (C8) The page tables are a map. \<^verbatim>\<open>__walk_create\<close> either fails the kernel assertion of
  \<^verbatim>\<open>__page_alloc\<close>, which needs fewer than two free pages, or returns a pointer such that the
  entry of every address is as before, and a store through the pointer changes the entry of
  the addresses of this page and of no other.
\<close>

theorem walk_create_store:
  assumes "pt_ok s"
  shows "case walk_create a s of
      Inl e \<Rightarrow> e = Assertion \<and> unat (free_pages s) < unat (next_free_page s) + 2
    | Inr (p, s') \<Rightarrow>
        (\<forall>b. pte_of b s' = pte_of b s) \<and> walk a s' = Some p \<and>
        (\<forall>e b. pt_ok (set_pte p e s') \<and>
           pte_of b (set_pte p e s') = (if key b = key a then e else pte_of b s))"
proof (cases "walk_create a s")
  case (Inl e)
  have "missing a s \<le> 2" by (simp add: missing_def)
  then show ?thesis using walk_create_spec [OF assms, of a] Inl by simp
next
  case (Inr r)
  obtain p s' where r: "r = (p, s')" by (cases r)
  with Inr walk_create_spec [OF assms, of a] have g: "grown s s'" and sl: "leaf_slot s' (key a) = Some p"
    by simp_all
  then have "pt_ok s'" "ptes s' = ptes s" by (auto elim: grownE)
  then show ?thesis
    using set_pte_ok [OF _ sl] set_pte_ptes [OF _ sl] sl by (simp add: Inr r pte_of_ptes walk_leaf)
qed

theorem walk_create_store_witness:
  "case walk_create 0x20000 vm0 of
      Inl e \<Rightarrow> False
    | Inr (p, s') \<Rightarrow> pte_of 0x20000 (set_pte p 7 s') = 7 \<and> pte_of 0x21000 (set_pte p 7 s') = pte_of 0x21000 vm0"
proof -
  have k: "key 0x21000 \<noteq> key 0x20000" by (simp add: key_eq_iff)
  have "\<not> unat (free_pages vm0) < unat (next_free_page vm0) + 2" by (simp add: vm0_def)
  then show ?thesis
    using walk_create_store [OF vm0_pt_ok, where a = "0x20000"] k by (auto split: sum.splits prod.splits)
qed

text \<open>
  (C4) \<^verbatim>\<open>__vm_alloc\<close> returns the lowest range of free pages at or above the break that ends at or
  below \<^verbatim>\<open>mmap_max\<close>, and 0 exactly when there is none, for every length that fits below
  \<^verbatim>\<open>mmap_max\<close>.
\<close>

theorem vm_alloc_first_fit:
  assumes "0 < unat npage" and "4096 * unat npage \<le> unat (mmap_max (current s))" and "low_space s"
  shows "\<exists>r. vm_alloc npage s = Inr r \<and>
    first_fit s (mmap_max (current s) - npage * RISCV_PGSIZE) (unat npage) (brk (current s)) r"
proof -
  let ?max = "mmap_max (current s)"
  have max: "unat ?max \<le> 0x80000000" by (rule low_space_unat [OF assms(3)])
  have um: "unat (npage * RISCV_PGSIZE) = 4096 * unat npage"
    using assms(2) max by (simp add: unat_word_ariths RISCV_PGSIZE_def)
  have "unat (?max - npage * RISCV_PGSIZE) = unat ?max - 4096 * unat npage"
    using assms(2) um by (subst unat_sub_no_wrap) (simp_all add: word_le_nat_alt)
  then have "unat (?max - npage * RISCV_PGSIZE) + 4096 * unat npage < 2 ^ 64" using assms(2) max by simp
  from vm_alloc_loop_spec [OF assms(1) this, of s "brk (current s)"] show ?thesis
    by (simp add: vm_alloc_def Let_def)
qed

theorem vm_alloc_first_fit_witness:
  "\<exists>r. vm_alloc 4 vm0 = Inr r \<and> first_fit vm0 0x6FFFC000 4 0x20000 r"
  using vm_alloc_first_fit [of 4 vm0]
  by (simp add: vm0_def low_space_def DRAM_BASE_def RISCV_PGSIZE_def)


text \<open>
  (C2) \<^verbatim>\<open>do_munmap\<close> refuses a range that is misaligned or leaves user memory with -EINVAL and no
  change; on any other range it succeeds, clears the entries of the pages of the range and of
  no other address, and keeps the invariant, so every region's count still is the number of
  entries that point to it and every file's count the number of its holders.
\<close>

theorem do_munmap_correct:
  assumes ready: "vm_ready x s"
  shows "if aligned a \<and> valid_user_range a len s
    then \<exists>s'. do_munmap host a len s = Inr (0, s') \<and> vm_ready x s' \<and>
      (\<forall>u < 2 ^ 39. pte_of u s' =
         (if a \<le> u \<and> unat u < unat a + 4096 * npages a (a + len) then 0 else pte_of u s))
    else do_munmap host a len s = Inr (- EINVAL, s)"
proof (cases "aligned a \<and> valid_user_range a len s")
  case True
  then have al: "aligned a" and vr: "valid_user_range a len s" by auto
  have "unat (mmap_max (current s)) \<le> 0x80000000"
    using ready by (intro low_space_unat) (simp add: vm_ready_def)
  then have sum: "unat a + unat len \<le> 0x80000000" using valid_user_range_unat [OF vr] by simp
  then have "unat (a + len) = unat a + unat len" by (intro unat_add_no_wrap) simp
  then have hi: "unat a + 4096 * npages a (a + len) \<le> 2 ^ 39" using sum by (simp add: npages_def)
  from do_munmap_spec [OF ready al vr, of host] obtain s' where
    s': "do_munmap host a len s = Inr (0, s')" "vm_ready x s'"
      "ptes s' = (\<lambda>k. if k \<in> page_keys a (npages a (a + len)) then 0 else ptes s k)" by blast
  then have "pte_of u s' = (if a \<le> u \<and> unat u < unat a + 4096 * npages a (a + len) then 0 else pte_of u s)"
    if "u < 2 ^ 39" for u
    using page_keys_iff [OF al hi that] by (simp add: pte_of_ptes word_le_nat_alt)
  with s' True show ?thesis by auto
next
  case False
  then have "a AND (RISCV_PGSIZE - 1) \<noteq> 0 \<or> \<not> valid_user_range a len s"
    by (simp add: aligned_def RISCV_PGSIZE_def word_and_mask_0_iff)
  then have "do_munmap host a len s = Inr (- EINVAL, s)" by (simp add: do_munmap_def)
  with False show ?thesis by (simp only: if_False)
qed

theorem do_munmap_correct_witness:
  "\<exists>s'. do_munmap (\<lambda>_ _. (0, Map.empty)) 0x20000 0x3000 vm0 = Inr (0, s') \<and> vm_ready std_refs s'"
proof -
  have "aligned 0x20000 \<and> valid_user_range 0x20000 0x3000 vm0"
    by (simp add: aligned_def valid_user_range_def vm0_def)
  then show ?thesis
    using do_munmap_correct [OF vm0_ready, of "0x20000" "0x3000" "\<lambda>_ _. (0, Map.empty)"] by auto
qed

lemma mapped_pages:
  assumes ready: "vm_ready x s" and al: "aligned (brk (current s))" and len: "len \<noteq> 0"
    and pl: "placed s flags addr len r" and u: "u < 2 ^ 39"
    and mn: "mapped_new s s' (page_keys r (npages r (r + len))) v pop"
  shows "if r \<le> u \<and> unat u < unat r + 4096 * npages r (r + len)
    then pte_of u s' \<noteq> 0 \<and> (pop \<longrightarrow> populated (v_prot v) (pte_of u s'))
    else pte_of u s' = pte_of u s"
proof -
  from ready have inv: "vm_inv x (\<lambda>_. 0) s" and nz: "vmrs_page s \<noteq> 0" and low: "low_space s"
    by (simp_all add: vm_ready_def)
  have max: "unat (mmap_max (current s)) \<le> 0x80000000" by (rule low_space_unat [OF low])
  have hi: "unat r + unat len \<le> 0x80000000" using pl max by (simp add: placed_def)
  let ?K = "page_keys r (npages r (r + len))"
  have "unat (r + len) = unat r + unat len" using hi by (intro unat_add_no_wrap) simp
  then have "unat r + 4096 * npages r (r + len) \<le> 2 ^ 39" using hi by (simp add: npages_def)
  moreover have "aligned r" using pl al by (auto simp: placed_def split: if_splits)
  ultimately have key: "key u \<in> ?K \<longleftrightarrow> r \<le> u \<and> unat u < unat r + 4096 * npages r (r + len)"
    using page_keys_iff u by (simp add: word_le_nat_alt)
  have "key u \<notin> ?K \<longrightarrow> ptes s' (key u) = ptes s (key u)" "key u \<in> ?K \<longrightarrow> ptes s' (key u) \<noteq> 0"
    using mapped_new_nz [OF mn inv nz] by blast+
  moreover have "key u \<in> ?K \<longrightarrow> pop \<longrightarrow> populated (v_prot v) (ptes s' (key u))"
    using mn unfolding mapped_new_def by metis
  ultimately show ?thesis using key by (simp add: pte_of_ptes)
qed

text \<open>
  (C1) \<^verbatim>\<open>do_mmap\<close>, for a length that fits: it ends in a kernel assertion (the page pool is used
  up, or the host fails to deliver a page that is populated at once), or returns an error and
  leaves the address space as it was, or returns the address of the new mapping, which is the
  fixed one or the first free range; then every page of the range is mapped, populated with
  the permissions asked for if the caller wanted that, and the entry of no other address
  changes. The invariant holds afterwards in each case.
\<close>

theorem do_mmap_correct:
  assumes ready: "vm_ready x s" and al: "aligned (brk (current s))"
    and fits: "flags AND MAP_FIXED \<noteq> 0 \<or> unat len + 4096 \<le> unat (mmap_max (current s))"
  shows "case do_mmap host addr len prot flags fd offset s of
      Inl e \<Rightarrow> e = Assertion
    | Inr (r, s') \<Rightarrow> vm_ready x s' \<and>
        (r \<in> {- EINVAL, - EBADF, - 1} \<and> (\<forall>u. pte_of u s' = pte_of u s) \<or>
         placed s flags addr len r \<and>
         (\<forall>u < 2 ^ 39.
            if r \<le> u \<and> unat u < unat r + 4096 * npages r (r + len)
            then pte_of u s' \<noteq> 0 \<and>
                 (\<not> demand_paging s \<or> flags AND MAP_POPULATE \<noteq> 0 \<longrightarrow> populated prot (pte_of u s'))
            else pte_of u s' = pte_of u s))"
proof -
  have off: "aligned offset \<longleftrightarrow> offset AND (RISCV_PGSIZE - 1) = 0"
    by (simp add: aligned_def RISCV_PGSIZE_def word_and_mask_0_iff)
  consider "flags AND MAP_PRIVATE = 0 \<or> len = 0 \<or> \<not> aligned offset"
    | "flags AND MAP_PRIVATE \<noteq> 0" "len \<noteq> 0" "aligned offset" "flags AND MAP_ANONYMOUS = 0" "fst (file_get fd s) = None"
    | "flags AND MAP_PRIVATE \<noteq> 0" "len \<noteq> 0" "aligned offset"
      "flags AND MAP_ANONYMOUS = 0 \<Longrightarrow> fst (file_get fd s) \<noteq> None" by blast
  then show ?thesis
  proof cases
    case 1
    then have "do_mmap host addr len prot flags fd offset s = Inr (- EINVAL, s)"
      using off by (auto simp: do_mmap_def)
    then show ?thesis using ready by simp
  next
    case 2
    then obtain s1 where g: "file_get fd s = (None, s1)" by (cases "file_get fd s") auto
    have "s1 = s" by (rule file_get_None [OF g])
    with 2 g off have "do_mmap host addr len prot flags fd offset s = Inr (- EBADF, s)"
      by (simp add: do_mmap_def)
    then show ?thesis using ready by simp
  next
    case 3
    from do_mmap_spec [OF ready 3(1-3) fits 3(4), where host = host and addr = addr and prot = prot]
    show ?thesis
    proof (cases "do_mmap host addr len prot flags fd offset s")
      case (Inr p)
      obtain r s' where p: "p = (r, s')" by (cases p)
      let ?fo = "if flags AND MAP_ANONYMOUS = 0 then fst (file_get fd s) else None"
      let ?pop = "\<not> demand_paging s \<or> flags AND MAP_POPULATE \<noteq> 0"
      from do_mmap_spec [OF ready 3(1-3) fits 3(4), where host = host and addr = addr and prot = prot] Inr p
      have rdy: "vm_ready x s'" and out: "mmap_outcome s addr len prot flags ?fo offset r s'" by simp_all
      have "r = -1 \<and> (\<forall>u. pte_of u s' = pte_of u s) \<or> placed s flags addr len r \<and>
         (\<forall>u < 2 ^ 39. if r \<le> u \<and> unat u < unat r + 4096 * npages r (r + len)
            then pte_of u s' \<noteq> 0 \<and> (?pop \<longrightarrow> populated prot (pte_of u s'))
            else pte_of u s' = pte_of u s)"
      proof -
        from out consider "r = -1" "ptes s' = ptes s" | "placed s flags addr len r"
          "mapped_new s s' (page_keys r (npages r (r + len))) (mmap_vmr r len ?fo offset prot) ?pop"
          by (auto simp: mmap_outcome_def)
        then show ?thesis
        proof cases
          case a: 2
          have vp: "v_prot (mmap_vmr r len ?fo offset prot) = prot" by (simp add: mmap_vmr_def)
          from mapped_pages [OF ready al 3(2) a(1) _ a(2), unfolded vp] a(1) show ?thesis by blast
        qed (simp add: pte_of_ptes)
      qed
      with rdy show ?thesis by (auto simp: Inr p)
    qed simp
  qed
qed

theorem do_mmap_correct_witness:
  "case do_mmap (\<lambda>_ _. (0, Map.empty)) 0x40000 0x2000 3 0x32 0 0 vm0 of
      Inl e \<Rightarrow> e = Assertion
    | Inr (r, s') \<Rightarrow> r \<in> {- EINVAL, - EBADF, - 1} \<or> r = 0x40000 \<and> pte_of 0x41000 s' \<noteq> 0"
proof -
  have "aligned (brk (current vm0))" by (simp add: vm0_def aligned_def)
  from do_mmap_correct [OF vm0_ready this, where flags = "0x32" and len = "0x2000" and addr = "0x40000"
      and prot = 3 and fd = 0 and offset = 0 and host = "\<lambda>_ _. (0, Map.empty)"]
  show ?thesis
    by (auto simp: MAP_FIXED_def placed_def npages_def split: sum.splits prod.splits)
qed

lemma aligned_shift: "aligned a \<Longrightarrow> push_bit 12 (drop_bit 12 a) = a"
proof -
  assume al: "aligned a"
  then have "a AND 4095 = 0" by (simp add: aligned_def word_and_mask_0_iff)
  moreover have "(4095::u64) = mask 12" by (simp add: mask_eq_exp_minus_1)
  ultimately have z: "take_bit 12 a = 0" by (simp add: take_bit_eq_mask)
  have "push_bit 12 (drop_bit 12 a) + take_bit 12 a = a" by (rule bits_ident)
  then show ?thesis by (simp add: z)
qed

lemma frame_number:
  assumes "aligned a" and "aligned p" and "unat a < 2 ^ 40" and "unat p < 2 ^ 40"
  shows "drop_bit 12 a + p div 4096 = drop_bit 12 (a + p)" and "push_bit 12 (drop_bit 12 a + p div 4096) = a + p"
proof -
  have sum: "unat (a + p) = unat a + unat p" using assms by (intro unat_add_no_wrap) simp
  have "unat (drop_bit 12 a + p div 4096) = unat a div 4096 + unat p div 4096"
    using assms by (subst unat_add_no_wrap) (simp_all add: drop_bit_eq_div unat_div)
  also have "\<dots> = (unat a + unat p) div 4096" using assms(1) by (auto simp: aligned_def)
  also have "\<dots> = unat (drop_bit 12 (a + p))" by (simp add: drop_bit_eq_div unat_div sum)
  finally show eq: "drop_bit 12 a + p div 4096 = drop_bit 12 (a + p)" by (simp add: word_unat_eq_iff)
  have "aligned (a + p)" using assms by (simp add: aligned_def sum)
  then show "push_bit 12 (drop_bit 12 a + p div 4096) = a + p" by (simp add: eq aligned_shift)
qed

lemma fault_page_in:
  assumes sl: "leaf_slot s (key a) = Some pte" and nz: "ptes s (key a) \<noteq> 0" and V: "ptes s (key a) AND PTE_V = 0"
    and al: "aligned a" and vr: "valid_user_range a 1 s"
  shows "\<exists>h. handle_page_fault_locked host a prot s =
    bind_res (page_in host (populate_with h) a pte s)
      (\<lambda>s1. Inr (if pt_mem s1 pte AND pte_create 0 (prot_to_type prot True) = pte_create 0 (prot_to_type prot True)
                 then 0 else -1, s1))"
proof -
  have a: "push_bit RISCV_PGSHIFT (drop_bit RISCV_PGSHIFT a) = a"
    by (simp add: RISCV_PGSHIFT_def aligned_shift [OF al])
  have two: "handle_page_fault_locked = handle_page_fault_fuel (Suc 1)"
    by (simp add: handle_page_fault_locked_def numeral_2_eq_2)
  show ?thesis
    unfolding two handle_page_fault_fuel.simps Let_def a walk_leaf sl
    using nz V vr ptes_slot [OF sl]
    by (intro exI [of _ "\<lambda>a p. locked (handle_page_fault_fuel 1 host a p)"])
      (auto simp: bind_res_def split: sum.splits)
qed

lemma fault_zero:
  assumes ready: "vm_ready x s" and i: "i < MAX_VMR" and e: "pte_of a s = vmr_ptr s i"
    and anon: "v_file (vmrs s ! i) = None" and a: "aligned a" "a < mmap_max (current s)"
    and ffp: "aligned (first_free_paddr s)" "unat (first_free_paddr s) < 2 ^ 40"
  shows "\<exists>s'. let new = pte_create (ppn (va2pa s a)) (prot_to_type (v_prot (vmrs s ! i)) True);
              perms = pte_create 0 (prot_to_type prot True)
    in handle_page_fault host a prot s = Inr (if new AND perms = perms then 0 else -1, s') \<and>
       vm_ready x s' \<and> pte_of a s' = new \<and> (\<forall>b. key b \<noteq> key a \<longrightarrow> pte_of b s' = pte_of b s) \<and>
       pmem s' = (\<lambda>p. if p - va2pa s a < RISCV_PGSIZE then 0 else pmem s p)"
proof -
  let ?s = "s\<lparr>vm_lock := True\<rparr>" and ?new = "pte_create (ppn (va2pa s a)) (prot_to_type (v_prot (vmrs s ! i)) True)"
  from ready have inv: "vm_inv x (\<lambda>_. 0) ?s" and nz: "vmrs_page ?s \<noteq> 0" and low: "low_space s"
    and unl: "\<not> vm_lock s" by (simp_all add: vm_ready_def)
  have ptr: "vmr_ptr ?s i = vmr_ptr s i" by (simp add: vmr_ptr_def)
  have pe: "ptes ?s (key a) = vmr_ptr ?s i" using e by (simp add: pte_of_ptes ptr)
  note facts = vmr_ptr_facts(1,2) [OF vm_inv_page(1) [OF inv nz] nz i]
  have nz': "ptes ?s (key a) \<noteq> 0" "ptes ?s (key a) AND PTE_V = 0" using facts pe by simp_all
  obtain pte where sl: "leaf_slot ?s (key a) = Some pte"
    using nz'(1) by (cases "leaf_slot ?s (key a)") (auto simp: ptes_def)
  have max: "unat (mmap_max (current s)) \<le> 0x80000000" by (rule low_space_unat [OF low])
  have lt: "unat a < 0x80000000" using a(2) max by (simp add: word_less_nat_alt)
  have u1: "unat (a + 1) = unat a + 1" using lt by (simp add: unat_add_no_wrap)
  have vr: "valid_user_range a 1 ?s"
    using a(2) by (simp add: valid_user_range_def word_less_nat_alt word_le_nat_alt u1)
  have pa: "va2pa s a = a + first_free_paddr s"
    using lt by (simp add: va2pa_def DRAM_BASE_def word_le_nat_alt)
  have "unat a < 2 ^ 40" using lt by simp
  note F = frame_number [OF a(1) ffp(1) this ffp(2), folded pa]
  obtain h where h: "handle_page_fault_locked host a prot ?s =
    bind_res (page_in host (populate_with h) a pte ?s)
      (\<lambda>s1. Inr (if pt_mem s1 pte AND pte_create 0 (prot_to_type prot True) = pte_create 0 (prot_to_type prot True)
                 then 0 else -1, s1))"
    using fault_page_in [OF sl nz' a(1) vr] by blast
  have room: "unat a + 8192 \<le> 2 ^ 64" using lt by simp
  from page_in_spec(1) [OF inv sl nz i pe a(1) room, where host = host and h = h]
  obtain s1 where s1: "page_in host (populate_with h) a pte ?s = Inr s1" "vm_inv x (\<lambda>_. 0) s1"
    "leaf_slot s1 = leaf_slot ?s" "same_env ?s s1" "ptes s1 = (ptes s)(key a := ?new)"
    "pmem s1 = (\<lambda>p. if p - va2pa s a < RISCV_PGSIZE then 0 else pmem s p)"
    using anon F by (auto simp: pg_defs ppn_def split: sum.splits cong: if_cong)
  have "pt_mem s1 pte = ?new" using sl s1(3,5) ptes_slot [of s1 "key a" pte] by simp
  then have "handle_page_fault host a prot s =
      Inr (if ?new AND pte_create 0 (prot_to_type prot True) = pte_create 0 (prot_to_type prot True)
           then 0 else -1, s1\<lparr>vm_lock := False\<rparr>)"
    using unl by (simp add: handle_page_fault_def locked_def spinlock_lock_def spinlock_unlock_def h s1(1))
  moreover have "vm_ready x (s1\<lparr>vm_lock := False\<rparr>)"
    using ready s1(2,4) by (simp add: vm_ready_def same_env_def low_space_def)
  ultimately show ?thesis
    using s1(5,6) by (intro exI [of _ "s1\<lparr>vm_lock := False\<rparr>"]) (simp add: Let_def pte_of_ptes)
qed

text \<open>
  (C10) A page fault on a page of an anonymous region brings the page in: its frame is the one
  \<^verbatim>\<open>va2pa\<close> names, all bytes of the frame are zero and no other byte of memory changes, the entry
  gets the region's permissions, the region's count goes down with the entry, and no other
  entry changes. The fault is reported as handled exactly when the region's permissions
  include those of the access.
\<close>

theorem anonymous_fault_zero_fills:
  assumes ready: "vm_ready x s" and i: "i < MAX_VMR" and e: "pte_of a s = vmr_ptr s i"
    and anon: "v_file (vmrs s ! i) = None" and a: "aligned a" "a < mmap_max (current s)"
    and ffp: "aligned (first_free_paddr s)" "unat (first_free_paddr s) < 2 ^ 40"
  shows "\<exists>s'. let new = pte_create (ppn (va2pa s a)) (prot_to_type (v_prot (vmrs s ! i)) True);
              perms = pte_create 0 (prot_to_type prot True)
    in handle_page_fault host a prot s = Inr (if new AND perms = perms then 0 else -1, s') \<and>
       vm_ready x s' \<and> pte_of a s' = new \<and> (\<forall>b. key b \<noteq> key a \<longrightarrow> pte_of b s' = pte_of b s) \<and>
       pmem s' = (\<lambda>p. if p - va2pa s a < RISCV_PGSIZE then 0 else pmem s p)"
  by (rule fault_zero [OF assms])

text \<open>A state reached by one call: two anonymous pages mapped at 0x40000, not yet populated.\<close>

definition vm1 :: vmstate where
  "vm1 = (case do_mmap (\<lambda>_ _. (0, Map.empty)) 0x40000 0x2000 3 0x32 0 0 vm0 of
            Inl _ \<Rightarrow> vm0 | Inr (_, s) \<Rightarrow> s)"

lemma vm1_run:
  "case do_mmap (\<lambda>_ _. (0, Map.empty)) 0x40000 0x2000 3 0x32 0 0 vm0 of
     Inl _ \<Rightarrow> False
   | Inr (_, s) \<Rightarrow> pte_of 0x40000 s = vmr_ptr s 0 \<and> v_file (vmrs s ! 0) = None \<and> v_prot (vmrs s ! 0) = 3 \<and>
       mmap_max (current s) = 0x70000000 \<and> first_free_paddr s = 0x80500000 \<and> brk_min (current s) = 0x20000 \<and>
       brk (current s) = 0x20000 \<and> brk_max (current s) = 0x40000"
  by code_simp

lemma vm1_call: "\<exists>r. do_mmap (\<lambda>_ _. (0, Map.empty)) 0x40000 0x2000 3 0x32 0 0 vm0 = Inr (r, vm1)"
  and vm1_facts:
  "pte_of 0x40000 vm1 = vmr_ptr vm1 0" "v_file (vmrs vm1 ! 0) = None" "v_prot (vmrs vm1 ! 0) = 3"
  "mmap_max (current vm1) = 0x70000000" "first_free_paddr vm1 = 0x80500000" "brk_min (current vm1) = 0x20000"
  "brk (current vm1) = 0x20000" "brk_max (current vm1) = 0x40000"
proof -
  obtain r s where "do_mmap (\<lambda>_ _. (0, Map.empty)) 0x40000 0x2000 3 0x32 0 0 vm0 = Inr (r, s)"
    using vm1_run by (auto split: sum.splits)
  then show "\<exists>r. do_mmap (\<lambda>_ _. (0, Map.empty)) 0x40000 0x2000 3 0x32 0 0 vm0 = Inr (r, vm1)"
    and "pte_of 0x40000 vm1 = vmr_ptr vm1 0" "v_file (vmrs vm1 ! 0) = None" "v_prot (vmrs vm1 ! 0) = 3"
    "mmap_max (current vm1) = 0x70000000" "first_free_paddr vm1 = 0x80500000" "brk_min (current vm1) = 0x20000"
    "brk (current vm1) = 0x20000" "brk_max (current vm1) = 0x40000"
    using vm1_run by (simp_all add: vm1_def)
qed

lemma vm1_ready: "vm_ready std_refs vm1"
proof -
  have "(0x32::u32) AND MAP_PRIVATE \<noteq> 0" "(0x32::u32) AND MAP_FIXED \<noteq> 0" "(0x32::u32) AND MAP_ANONYMOUS \<noteq> 0"
    by (simp_all add: map_defs)
  moreover have "aligned 0" by (simp add: aligned_def)
  ultimately show ?thesis
    using do_mmap_spec [OF vm0_ready, where flags = "0x32" and len = "0x2000" and offset = 0
        and fd = 0 and host = "\<lambda>_ _. (0, Map.empty)" and addr = "0x40000" and prot = 3] vm1_call
    by (auto split: sum.splits prod.splits)
qed

theorem anonymous_fault_zero_fills_witness:
  "\<exists>s'. handle_page_fault (\<lambda>_ _. (0, Map.empty)) 0x40000 PROT_WRITE vm1 = Inr (0, s') \<and>
     pte_of 0x40000 s' = pte_create 0x80540 0xD6 \<and> pmem s' 0x80540FFF = 0"
proof -
  have new: "(let new = pte_create (ppn (va2pa vm1 0x40000)) (prot_to_type (v_prot (vmrs vm1 ! 0)) True);
              perms = pte_create 0 (prot_to_type PROT_WRITE True)
    in new AND perms = perms \<and> new = pte_create 0x80540 0xD6 \<and> va2pa vm1 0x40000 = 0x80540000)"
    using vm1_facts by (simp add: va2pa_def ppn_def prot_to_type_def Let_def prot_defs pte_defs pg_defs
        pte_create_def DRAM_BASE_def)
  have "0 < MAX_VMR" by (simp add: MAX_VMR_def)
  moreover have "aligned 0x40000" "(0x40000::u64) < mmap_max (current vm1)" "aligned (first_free_paddr vm1)"
    "unat (first_free_paddr vm1) < 2 ^ 40" using vm1_facts by (simp_all add: aligned_def)
  ultimately show ?thesis
    using anonymous_fault_zero_fills [OF vm1_ready, of 0 "0x40000" PROT_WRITE "\<lambda>_ _. (0, Map.empty)"]
      vm1_facts new by (auto simp: Let_def RISCV_PGSIZE_def)
qed

text \<open>
  (C15) Handling a page fault never raises another one: however many nested faults the model
  allows, the result is the same, it is never the deadlock on \<^verbatim>\<open>vm_lock\<close> that a nested fault
  would end in, and the only failure is the kernel assertion that the host delivers bytes of
  the file. The invariant holds afterwards, and a fault reported as handled has left a valid
  entry with the permissions of the access.
\<close>

theorem page_fault_never_nests:
  assumes "vm_inv x pend s" and "low_space s"
  shows "handle_page_fault_fuel (Suc n) host vaddr prot s = handle_page_fault_locked host vaddr prot s \<and>
    (case handle_page_fault_locked host vaddr prot s of
       Inl e \<Rightarrow> e = Assertion
     | Inr (r, s') \<Rightarrow> vm_inv x pend s' \<and> (r = -1 \<or> r = 0 \<and> populated prot (pte_of vaddr s')))"
proof
  show "handle_page_fault_fuel (Suc n) host vaddr prot s = handle_page_fault_locked host vaddr prot s"
    using handle_page_fault_fuel_spec(2) [OF assms, of n host vaddr prot 1]
    by (simp add: handle_page_fault_locked_def numeral_2_eq_2)
  show "case handle_page_fault_locked host vaddr prot s of
       Inl e \<Rightarrow> e = Assertion
     | Inr (r, s') \<Rightarrow> vm_inv x pend s' \<and> (r = -1 \<or> r = 0 \<and> populated prot (pte_of vaddr s'))"
    using handle_page_fault_locked_spec [OF assms, where host = host and vaddr = vaddr and prot = prot]
    by (auto simp: fault_result_def populated_def pte_of_ptes split: sum.splits)
qed

theorem page_fault_never_nests_witness:
  "handle_page_fault_fuel 7 (\<lambda>_ _. (0, Map.empty)) 0x40008 PROT_READ vm1 =
   handle_page_fault_locked (\<lambda>_ _. (0, Map.empty)) 0x40008 PROT_READ vm1"
proof -
  have "vm_inv std_refs (\<lambda>_. 0) vm1" "low_space vm1" using vm1_ready by (simp_all add: vm_ready_def)
  then show ?thesis
    using page_fault_never_nests [of std_refs "\<lambda>_. 0" vm1 6 "\<lambda>_ _. (0, Map.empty)" "0x40008" PROT_READ]
    by (simp add: eval_nat_numeral)
qed

text \<open>
  (C9) \<^verbatim>\<open>do_brk\<close> returns the requested address clamped to the break's bounds, moves the break to
  the end of the page of that address, maps exactly the pages between the old and the new
  break when it grows and unmaps exactly those when it shrinks.
\<close>

theorem do_brk_correct:
  assumes "vm_ready x s" and "brk_ok (current s)"
  shows "case do_brk host addr s of
      Inl e \<Rightarrow> e = Assertion
    | Inr (r, s') \<Rightarrow> r = clamp (current s) addr \<and> vm_ready x s' \<and> brk_ok (current s') \<and>
        brk (current s') = ROUNDUP r RISCV_PGSIZE \<and>
        break_moved s (old_break (current s)) (brk (current s')) s'"
  using do_brk_spec [OF assms, where host = host and addr = addr] by (auto split: sum.splits)

theorem do_brk_correct_witness:
  "case do_brk (\<lambda>_ _. (0, Map.empty)) 0x23010 vm0 of
      Inl e \<Rightarrow> e = Assertion
    | Inr (r, s') \<Rightarrow> r = 0x23010 \<and> brk (current s') = 0x24000 \<and> pte_of 0x23000 s' \<noteq> 0"
proof -
  have "brk_ok (current vm0)" by (simp add: brk_ok_def vm0_def aligned_def)
  moreover have "clamp (current vm0) 0x23010 = 0x23010" "old_break (current vm0) = 0x20000"
    by (simp_all add: clamp_def old_break_def vm0_def)
  moreover have "ROUNDUP 0x23010 RISCV_PGSIZE = 0x24000" by (simp add: ROUNDUP_def RISCV_PGSIZE_def)
  ultimately show ?thesis
    using do_brk_correct [OF vm0_ready, where host = "\<lambda>_ _. (0, Map.empty)" and addr = "0x23010"]
    by (auto simp: break_moved_def split: sum.splits)
qed

text \<open>
  (C11) \<^verbatim>\<open>do_mprotect\<close> on an aligned range either runs past the end of the address space or
  returns 0, -ENOMEM or -EACCES and keeps the invariant; whatever it returns, no page and no
  region gains a right to write or to execute, no page becomes a user page, and every page
  keeps its frame.
\<close>

theorem do_mprotect_narrows:
  assumes "vm_ready x s" and "aligned a"
  shows "do_mprotect a len prot s = Inl AddrWrap \<or>
    (\<exists>r s'. do_mprotect a len prot s = Inr (r, s') \<and> vm_ready x s' \<and> r \<in> {0, - ENOMEM, - EACCES} \<and>
       (\<forall>u. narrower (pte_of u s) (pte_of u s')) \<and>
       (\<forall>i < MAX_VMR. v_prot (vmrs s' ! i) AND NOT (v_prot (vmrs s ! i)) = 0))"
proof -
  have len: "length (vmrs s) = MAX_VMR"
    using assms(1) by (intro vm_inv_page(2)) (auto simp: vm_ready_def)
  from do_mprotect_spec [OF assms, of len prot] show ?thesis
    unfolding len pte_of_ptes by blast
qed

theorem do_mprotect_narrows_witness:
  "do_mprotect 0x40000 0x1000 PROT_READ vm1 = Inl AddrWrap \<or>
    (\<exists>r s'. do_mprotect 0x40000 0x1000 PROT_READ vm1 = Inr (r, s') \<and> vm_ready std_refs s' \<and>
       v_prot (vmrs s' ! 0) AND NOT 3 = 0)"
proof -
  have "aligned 0x40000" "0 < MAX_VMR" by (simp_all add: aligned_def MAX_VMR_def)
  then show ?thesis
    using do_mprotect_narrows [OF vm1_ready, of "0x40000" "0x1000" PROT_READ] vm1_facts(3) by metis
qed

text \<open>
  (C35) A page mapped with \<^verbatim>\<open>PROT_WRITE\<close> alone is never usable: \<^verbatim>\<open>prot_to_type\<close> gives its entry
  \<^verbatim>\<open>PTE_W\<close> without \<^verbatim>\<open>PTE_R\<close>, an encoding the privileged architecture reserves. The store faults,
  the fault is reported as handled, and the store faults again for ever.
\<close>

theorem write_only_page_livelock:
  assumes ready: "vm_ready x s" and i: "i < MAX_VMR" and e: "pte_of a s = vmr_ptr s i"
    and anon: "v_file (vmrs s ! i) = None" and a: "aligned a" "a < mmap_max (current s)"
    and ffp: "aligned (first_free_paddr s)" "unat (first_free_paddr s) < 2 ^ 40"
    and prot: "v_prot (vmrs s ! i) = PROT_WRITE"
  shows "touch (handle_page_fault host) PROT_WRITE a s = Inl Livelock"
proof -
  let ?n = "ppn (va2pa s a)"
  have new: "pte_create ?n (prot_to_type PROT_WRITE True) AND pte_create 0 (prot_to_type PROT_WRITE True) =
      pte_create 0 (prot_to_type PROT_WRITE True)"
    by (rule bit_word_eqI) (auto simp: pte_create_def bit_simps)
  have nr: "pte_create ?n (prot_to_type PROT_WRITE True) AND PTE_R = 0"
    by (simp add: pte_create_low pte_defs) (simp add: prot_to_type_def Let_def prot_defs pte_defs)
  obtain s' where h: "handle_page_fault host a PROT_WRITE s = Inr (0, s')"
    and s': "pte_of a s' = pte_create ?n (prot_to_type PROT_WRITE True)"
    using fault_zero [OF ready i e anon a ffp, where host = host and prot = PROT_WRITE] new
    by (auto simp: prot Let_def)
  have nacc: "\<not> accessible a PROT_WRITE t" if "pte_of a t AND PTE_V = 0 \<or> pte_of a t AND PTE_R = 0" for t
    using that by (auto simp: accessible_def pte_of_def split: option.splits)
  from ready have inv: "vm_inv x (\<lambda>_. 0) s" and nz: "vmrs_page s \<noteq> 0" by (simp_all add: vm_ready_def)
  have "pte_of a s AND PTE_V = 0"
    using vmr_ptr_facts(2) [OF vm_inv_page(1) [OF inv nz] nz i] e by simp
  then show ?thesis
    using h s' nr nacc [of s] nacc [of s'] by (simp add: touch_def) (simp add: PROT_WRITE_def)
qed

definition vm2 :: vmstate where
  "vm2 = (case do_mmap (\<lambda>_ _. (0, Map.empty)) 0x40000 0x1000 2 0x32 0 0 vm0 of
            Inl _ \<Rightarrow> vm0 | Inr (_, s) \<Rightarrow> s)"

lemma vm2_run:
  "case do_mmap (\<lambda>_ _. (0, Map.empty)) 0x40000 0x1000 2 0x32 0 0 vm0 of
     Inl _ \<Rightarrow> False
   | Inr (_, s) \<Rightarrow> pte_of 0x40000 s = vmr_ptr s 0 \<and> v_file (vmrs s ! 0) = None \<and> v_prot (vmrs s ! 0) = 2 \<and>
       mmap_max (current s) = 0x70000000 \<and> first_free_paddr s = 0x80500000"
  by code_simp

lemma vm2_call: "\<exists>r. do_mmap (\<lambda>_ _. (0, Map.empty)) 0x40000 0x1000 2 0x32 0 0 vm0 = Inr (r, vm2)"
  and vm2_facts:
  "pte_of 0x40000 vm2 = vmr_ptr vm2 0" "v_file (vmrs vm2 ! 0) = None" "v_prot (vmrs vm2 ! 0) = 2"
  "mmap_max (current vm2) = 0x70000000" "first_free_paddr vm2 = 0x80500000"
proof -
  obtain r s where "do_mmap (\<lambda>_ _. (0, Map.empty)) 0x40000 0x1000 2 0x32 0 0 vm0 = Inr (r, s)"
    using vm2_run by (auto split: sum.splits)
  then show "\<exists>r. do_mmap (\<lambda>_ _. (0, Map.empty)) 0x40000 0x1000 2 0x32 0 0 vm0 = Inr (r, vm2)"
    and "pte_of 0x40000 vm2 = vmr_ptr vm2 0" "v_file (vmrs vm2 ! 0) = None" "v_prot (vmrs vm2 ! 0) = 2"
    "mmap_max (current vm2) = 0x70000000" "first_free_paddr vm2 = 0x80500000"
    using vm2_run by (simp_all add: vm2_def)
qed

lemma vm2_ready: "vm_ready std_refs vm2"
proof -
  have "(0x32::u32) AND MAP_PRIVATE \<noteq> 0" "(0x32::u32) AND MAP_FIXED \<noteq> 0" "(0x32::u32) AND MAP_ANONYMOUS \<noteq> 0"
    by (simp_all add: map_defs)
  moreover have "aligned 0" by (simp add: aligned_def)
  ultimately show ?thesis
    using do_mmap_spec [OF vm0_ready, where flags = "0x32" and len = "0x1000" and offset = 0
        and fd = 0 and host = "\<lambda>_ _. (0, Map.empty)" and addr = "0x40000" and prot = 2] vm2_call
    by (auto split: sum.splits prod.splits)
qed

theorem write_only_page_livelock_witness:
  "touch (handle_page_fault (\<lambda>_ _. (0, Map.empty))) PROT_WRITE 0x40000 vm2 = Inl Livelock"
  using write_only_page_livelock [OF vm2_ready, of 0 "0x40000" "\<lambda>_ _. (0, Map.empty)"] vm2_facts
  by (simp add: MAX_VMR_def aligned_def PROT_WRITE_def)

end
