(* ===== verification/C_Strings.thy ===== *)
theory C_Strings
  imports Prelude
begin

text \<open>
  Byte memory and C strings in it, shared by the two string libraries: word stores, the
  string that starts at an address, pointer loops that end the run in \<^const>\<open>AddrWrap\<close> where the
  pointer would wrap, and the lemmas that relate a word of memory to its eight bytes.
\<close>

type_synonym mem = "u64 \<Rightarrow> u8"

section \<open>Word stores\<close>

text \<open>The bytes of a string literal, without the terminating zero.\<close>

definition lit :: "string \<Rightarrow> u8 list" where
  "lit cs = map of_char cs"

definition store64 :: "mem \<Rightarrow> u64 \<Rightarrow> u64 \<Rightarrow> mem" where
  "store64 m a w = (\<lambda>p. if p - a < 8 then ucast (drop_bit (8 * unat (p - a)) w) else m p)"

definition fill_mem :: "mem \<Rightarrow> u64 \<Rightarrow> u64 \<Rightarrow> u8 \<Rightarrow> mem" where
  "fill_mem m a n b = (\<lambda>p. if p - a < n then b else m p)"

definition copy_mem :: "mem \<Rightarrow> u64 \<Rightarrow> u64 \<Rightarrow> u64 \<Rightarrow> mem" where
  "copy_mem m d s n = (\<lambda>p. if p - d < n then m (s + (p - d)) else m p)"

text \<open>\<^verbatim>\<open>*p++\<close> and its wider relatives: the advanced pointer, or the end of the run.\<close>

definition advance :: "u64 \<Rightarrow> u64 \<Rightarrow> (u64 \<Rightarrow> 'a res) \<Rightarrow> 'a res" where
  "advance k p c = (if p + k < p then Inl AddrWrap else c (p + k))"

lemma advance_cong [fundef_cong]:
  "k = k' \<Longrightarrow> p = p' \<Longrightarrow> (\<not> p' + k' < p' \<Longrightarrow> c (p' + k') = c' (p' + k')) \<Longrightarrow> advance k p c = advance k' p' c'"
  by (simp add: advance_def)

lemma no_wrap_add: "\<not> p + k < p \<Longrightarrow> unat (p + k) = unat p + unat (k :: 'a::len word)"
  by (simp add: unat_plus_simple [symmetric] not_less)

lemma advance_ok: "unat p + unat k < 2 ^ 64 \<Longrightarrow> advance k p c = c (p + k)"
  by (simp add: advance_def word_less_nat_alt unat_word_ariths)

lemma advance_measure:
  "\<not> p + k < p \<Longrightarrow> 0 < k \<Longrightarrow>
   18446744073709551616 - unat (p + k) < 18446744073709551616 - unat (p :: u64)"
  using no_wrap_add [of p k] unsigned_less [of "p + k", where 'a = nat]
  by (simp add: word_less_nat_alt)

section \<open>The string at an address\<close>

text \<open>
  \<^verbatim>\<open>string_at m p n\<close>: the \<^verbatim>\<open>n\<close> bytes at \<^verbatim>\<open>p\<close> are not zero, the byte after them is, and the
  terminating zero lies below the end of the address space.
\<close>

definition string_at :: "mem \<Rightarrow> u64 \<Rightarrow> nat \<Rightarrow> bool" where
  "string_at m p n \<longleftrightarrow> unat p + n < 2 ^ 64 \<and> (\<forall>i < n. m (p + of_nat i) \<noteq> 0) \<and> m (p + of_nat n) = 0"

definition bytes_at :: "mem \<Rightarrow> u64 \<Rightarrow> nat \<Rightarrow> u8 list" where
  "bytes_at m p n = map (\<lambda>i. m (p + of_nat i)) [0..<n]"

lemma length_bytes_at [simp]: "length (bytes_at m p n) = n"
  by (simp add: bytes_at_def)

lemma nth_bytes_at [simp]: "i < n \<Longrightarrow> bytes_at m p n ! i = m (p + of_nat i)"
  by (simp add: bytes_at_def)

lemma bytes_at_0 [simp]: "bytes_at m p 0 = []"
  by (simp add: bytes_at_def)

lemma bytes_at_Suc: "bytes_at m p (Suc n) = m p # bytes_at m (p + 1) n"
proof -
  have "[0..<Suc n] = 0 # map Suc [0..<n]" by (simp add: upt_conv_Cons map_Suc_upt del: upt_Suc)
  then show ?thesis by (simp add: bytes_at_def comp_def add.assoc del: upt_Suc)
qed

lemma string_at_0: "string_at m p 0 \<longleftrightarrow> m p = 0"
  using unsigned_less [of p, where 'a = nat] by (simp add: string_at_def)

lemma string_at_Suc: "string_at m p (Suc n) \<longleftrightarrow> m p \<noteq> 0 \<and> unat p + 1 < 2 ^ 64 \<and> string_at m (p + 1) n"
proof -
  have a: "(\<forall>i < Suc n. P (p + of_nat i)) \<longleftrightarrow> P p \<and> (\<forall>i < n. P (p + 1 + of_nat i))" for P :: "u64 \<Rightarrow> bool"
    by (auto simp: less_Suc_eq_0_disj algebra_simps)
  show ?thesis
  proof (cases "unat p + 1 < 2 ^ 64")
    case True
    then have "unat (p + 1) = unat p + 1" by (simp add: unat_word_ariths)
    with True a [of "\<lambda>q. m q \<noteq> 0"] show ?thesis by (auto simp: string_at_def add.assoc)
  next
    case False
    then show ?thesis by (auto simp: string_at_def)
  qed
qed

lemma string_at_unique: "string_at m p n \<Longrightarrow> string_at m p k \<Longrightarrow> n = k"
  unfolding string_at_def by (metis linorder_neqE_nat)

text \<open>The loop \<^verbatim>\<open>while (*p) p++\<close> both libraries have: the address of the terminating zero.\<close>

function strend :: "mem \<Rightarrow> u64 \<Rightarrow> u64 res" where
  "strend m p = (if m p \<noteq> 0 then advance 1 p (strend m) else Inr p)"
  by pat_completeness auto

termination strend
  by (relation "measure (\<lambda>(m, p). 2 ^ 64 - unat p)") (auto intro!: advance_measure)

declare strend.simps [simp del]

lemma strend_run: "string_at m p n \<Longrightarrow> strend m p = Inr (p + of_nat n)"
proof (induction n arbitrary: p)
  case 0
  then show ?case by (simp add: strend.simps string_at_0)
next
  case (Suc n)
  then show ?case by (subst strend.simps) (simp add: string_at_Suc advance_ok add.assoc)
qed

lemma string_at_drop:
  assumes "string_at m p n" and "k \<le> n"
  shows "string_at m (p + of_nat k) (n - k)"
proof -
  have b: "unat p + n < 2 ^ 64" using assms(1) by (simp add: string_at_def)
  then have u: "unat (p + of_nat k) = unat p + k"
    using assms(2) by (simp add: unat_word_ariths unat_of_nat)
  have "m (p + of_nat k + of_nat i) \<noteq> 0" if "i < n - k" for i
  proof -
    have "k + i < n" using that by simp
    then have "m (p + of_nat (k + i)) \<noteq> 0" using assms(1) unfolding string_at_def by blast
    then show ?thesis by (simp add: add.assoc)
  qed
  moreover have "m (p + of_nat k + of_nat (n - k)) = 0"
    using assms by (simp add: string_at_def of_nat_diff)
  ultimately show ?thesis using b u assms(2) by (simp add: string_at_def)
qed

text \<open>A string that has no terminating zero below the end of the address space.\<close>

lemma no_string_cases:
  assumes "\<nexists>n. string_at m p n" and "unat p + i < 2 ^ 64"
  shows "m (p + of_nat i) \<noteq> 0"
proof
  assume z: "m (p + of_nat i) = 0"
  define n where "n = (LEAST n. m (p + of_nat n) = 0)"
  have n: "m (p + of_nat n) = 0" unfolding n_def by (rule LeastI) (rule z)
  have le: "n \<le> i" unfolding n_def by (rule Least_le) (rule z)
  have "\<forall>k < n. m (p + of_nat k) \<noteq> 0" unfolding n_def using not_less_Least by blast
  with n le assms(2) have "string_at m p n" by (simp add: string_at_def)
  with assms(1) show False by blast
qed

lemma no_string_drop:
  assumes "\<nexists>n. string_at m p n" and "unat p + k < 2 ^ 64"
  shows "\<nexists>n. string_at m (p + of_nat k) n"
proof
  assume "\<exists>n. string_at m (p + of_nat k) n"
  then obtain n where n: "string_at m (p + of_nat k) n" ..
  moreover have "unat (p + of_nat k) = unat p + k" using assms(2) by (simp add: unat_word_ariths unat_of_nat)
  ultimately have "unat p + (k + n) < 2 ^ 64" and "m (p + of_nat (k + n)) = 0"
    by (simp_all add: string_at_def add.assoc)
  with no_string_cases [OF assms(1)] show False by blast
qed

lemma strend_wrap: "\<nexists>n. string_at m p n \<Longrightarrow> strend m p = Inl AddrWrap"
proof (induction m p rule: strend.induct)
  case (1 m p)
  have nz: "m p \<noteq> 0" using no_string_cases [OF 1(2), of 0] unsigned_less [of p, where 'a = nat] by simp
  show ?case
  proof (cases "p + 1 < p")
    case True
    then show ?thesis using nz by (subst strend.simps) (simp add: advance_def)
  next
    case False
    then have "unat p + 1 < 2 ^ 64"
      using no_wrap_add [OF False] unsigned_less [of "p + 1", where 'a = nat] by simp
    then have "\<nexists>n. string_at m (p + 1) n" using no_string_drop [OF 1(2), of 1] by simp
    then show ?thesis using nz False 1(1) by (subst strend.simps) (simp add: advance_def)
  qed
qed

section \<open>A word and its bytes\<close>

definition byte_of :: "u64 \<Rightarrow> nat \<Rightarrow> u8" where
  "byte_of w i = ucast (drop_bit (8 * i) w)"

lemma bit_byte_of: "bit (byte_of w i) k \<longleftrightarrow> k < 8 \<and> bit w (8 * i + k)"
  by (simp add: byte_of_def bit_simps)

lemma bit_le_word:
  "bit (le_word bs :: 'a::len word) n \<longleftrightarrow> n < LENGTH('a) \<and> n div 8 < length bs \<and> bit (bs ! (n div 8)) (n mod 8)"
proof (induction bs arbitrary: n)
  case Nil
  then show ?case by (simp add: le_word_def)
next
  case (Cons b bs)
  have step: "(le_word (b # bs) :: 'a word) = ucast b OR push_bit 8 (le_word bs)" by (simp add: le_word_def)
  show ?case
  proof (cases "n < 8")
    case True
    then show ?thesis by (auto simp: step bit_simps)
  next
    case False
    then obtain k where "n = k + 8" by (metis add.commute le_add_diff_inverse not_less)
    moreover have "\<not> bit b (k + 8)" using bit_imp_le_length [of b "k + 8"] by auto
    moreover have "(k + 8) div 8 = Suc (k div 8)" by simp
    ultimately show ?thesis using Cons.IH [of k] by (auto simp: step bit_simps)
  qed
qed

lemma load64_bytes: "load64 m a = le_word (bytes_at m a 8)"
  by (simp add: load64_def bytes_at_def upt_rec)

lemma byte_of_load64:
  assumes "i < 8"
  shows "byte_of (load64 m a) i = m (a + of_nat i)"
proof (rule bit_word_eqI)
  fix k assume "k < LENGTH(8)"
  then have k: "k < 8" by simp
  with assms have "8 * i + k < 64" "(8 * i + k) div 8 = i" "(8 * i + k) mod 8 = k" by auto
  then show "bit (byte_of (load64 m a) i) k = bit (m (a + of_nat i)) k"
    using k assms by (simp add: bit_byte_of load64_bytes bit_le_word)
qed

lemma store64_load64: "store64 m d (load64 m s) = copy_mem m d s 8"
proof
  fix p
  show "store64 m d (load64 m s) p = copy_mem m d s 8 p"
  proof (cases "p - d < 8")
    case True
    then have "unat (p - d) < 8" by (simp add: word_less_nat_alt)
    from byte_of_load64 [OF this, of m s] True show ?thesis
      by (simp add: store64_def copy_mem_def byte_of_def)
  next
    case False
    then show ?thesis by (simp add: store64_def copy_mem_def)
  qed
qed

section \<open>Copying and filling in pieces\<close>

definition disjoint :: "u64 \<Rightarrow> u64 \<Rightarrow> nat \<Rightarrow> bool" where
  "disjoint d s n \<longleftrightarrow> unat d + n \<le> unat s \<or> unat s + n \<le> unat d"

lemma word_offset_less:
  fixes p d :: u64
  assumes "unat d + n \<le> 2 ^ 64"
  shows "unat (p - d) < n \<longleftrightarrow> d \<le> p \<and> unat p < unat d + n"
proof (cases "d \<le> p")
  case True
  then show ?thesis by (auto simp: unat_sub word_le_nat_alt)
next
  case False
  then have "unat (p - d) = 2 ^ 64 + unat p - unat d"
    by (simp add: word_le_nat_alt unat_sub_if')
  with assms False show ?thesis by (auto simp: word_le_nat_alt)
qed

lemma copy_mem_step:
  assumes d: "unat d + (k + j) \<le> 2 ^ 64" and s: "unat s + (k + j) \<le> 2 ^ 64" and dis: "disjoint d s (k + j)"
    and n: "k + j < 2 ^ 64"
  shows "copy_mem (copy_mem m d s (of_nat k)) (d + of_nat k) (s + of_nat k) (of_nat j) =
    copy_mem m d s (of_nat (k + j))"
proof
  fix p
  define x where "x = p - d"
  have p: "p = d + x" by (simp add: x_def)
  have k: "unat (of_nat k :: u64) = k" "unat (of_nat j :: u64) = j" "unat (of_nat (k + j) :: u64) = k + j"
    using n by (simp_all add: unat_of_nat del: of_nat_add)
  have src: "\<not> unat (s + x - d) < k" if "unat x < k + j"
  proof -
    have "unat (s + x) = unat s + unat x" using s that by (simp add: unat_word_ariths)
    moreover have "unat d + k \<le> 2 ^ 64" using d by simp
    ultimately show ?thesis
      using dis that word_offset_less [of d k "s + x"] by (auto simp: disjoint_def word_le_nat_alt)
  qed
  have low: "\<not> unat (x - of_nat k) < j" if "unat x < k"
    using that n k by (simp add: unat_sub_if' word_le_nat_alt)
  have high: "unat (x - of_nat k) < j \<longleftrightarrow> unat x < k + j" if "\<not> unat x < k"
    using that k by (simp add: unat_sub_if' word_le_nat_alt) linarith
  have sum: "s + of_nat k + (x - of_nat k) = s + x" by simp
  have off: "d + x - (d + of_nat k) = x - of_nat k" "d + x - d = x" by simp_all
  show "copy_mem (copy_mem m d s (of_nat k)) (d + of_nat k) (s + of_nat k) (of_nat j) p =
    copy_mem m d s (of_nat (k + j)) p"
    unfolding p copy_mem_def off sum word_less_nat_alt k
    using src low high by auto
qed

lemma fill_mem_step:
  assumes "k + j < 2 ^ 64"
  shows "fill_mem (fill_mem m a (of_nat k) b) (a + of_nat k) (of_nat j) b = fill_mem m a (of_nat (k + j)) b"
proof
  fix p
  define x where "x = p - a"
  have p: "p = a + x" by (simp add: x_def)
  have k: "unat (of_nat k :: u64) = k" "unat (of_nat j :: u64) = j" "unat (of_nat (k + j) :: u64) = k + j"
    using assms by (simp_all add: unat_of_nat del: of_nat_add)
  have high: "unat (x - of_nat k) < j \<longleftrightarrow> unat x < k + j" if "\<not> unat x < k"
    using that k by (simp add: unat_sub_if' word_le_nat_alt) linarith
  have low: "\<not> unat (x - of_nat k) < j" if "unat x < k"
    using that assms k by (simp add: unat_sub_if' word_le_nat_alt)
  have off: "a + x - (a + of_nat k) = x - of_nat k" "a + x - a = x" by simp_all
  show "fill_mem (fill_mem m a (of_nat k) b) (a + of_nat k) (of_nat j) b p = fill_mem m a (of_nat (k + j)) b p"
    unfolding p fill_mem_def off word_less_nat_alt k using high low by auto
qed

lemma copy_mem_0 [simp]: "copy_mem m d s 0 = m"
  by (simp add: copy_mem_def)

lemma fill_mem_0 [simp]: "fill_mem m a 0 b = m"
  by (simp add: fill_mem_def)

lemma copy_mem_1: "m(d := m s) = copy_mem m d s 1"
  by (auto simp: copy_mem_def fun_eq_iff word_less_nat_alt unat_eq_0)

lemma fill_mem_1: "m(a := b) = fill_mem m a 1 b"
  by (auto simp: fill_mem_def fun_eq_iff word_less_nat_alt unat_eq_0)

end
