(* ===== verification/Util_String.thy ===== *)
theory Util_String
  imports C_Strings
begin

text \<open>
  The kernel's string functions, \<^verbatim>\<open>util/string.c\<close>: \<^verbatim>\<open>memcpy\<close> and \<^verbatim>\<open>memset\<close> with their
  word-at-a-time paths, \<^verbatim>\<open>strlen\<close>, \<^verbatim>\<open>strcmp\<close>, \<^verbatim>\<open>strcpy\<close> and \<^verbatim>\<open>atol\<close>. Each is a function of
  the byte memory; a pointer is a 64-bit word. \<^verbatim>\<open>char\<close> is unsigned on the target.
\<close>

section \<open>Definitions\<close>

function memcpy_words :: "mem \<Rightarrow> u64 \<Rightarrow> u64 \<Rightarrow> u64 \<Rightarrow> (u64 \<times> u64 \<times> mem) res" where
  "memcpy_words m d s e =
     (if d < e then
        advance 8 d (\<lambda>d'. advance 8 s (\<lambda>s'. memcpy_words (store64 m d (load64 m s)) d' s' e))
      else Inr (d, s, m))"
  by pat_completeness auto

termination memcpy_words
  by (relation "measure (\<lambda>(m, d, s, e). 2 ^ 64 - unat d)") (auto intro!: advance_measure)

function memcpy_bytes :: "mem \<Rightarrow> u64 \<Rightarrow> u64 \<Rightarrow> u64 \<Rightarrow> mem res" where
  "memcpy_bytes m d s e =
     (if d < e then advance 1 d (\<lambda>d'. advance 1 s (\<lambda>s'. memcpy_bytes (m(d := m s)) d' s' e))
      else Inr m)"
  by pat_completeness auto

termination memcpy_bytes
  by (relation "measure (\<lambda>(m, d, s, e). 2 ^ 64 - unat d)") (auto intro!: advance_measure)

definition memcpy :: "mem \<Rightarrow> u64 \<Rightarrow> u64 \<Rightarrow> u64 \<Rightarrow> (u64 \<times> mem) res" where
  "memcpy m dest src len =
     bind_res (if (dest OR src) AND 7 = 0 then memcpy_words m dest src (dest + len - 7) else Inr (dest, src, m))
       (\<lambda>(d, s, m). bind_res (memcpy_bytes m d s (dest + len)) (\<lambda>m. Inr (dest, m)))"

function memset_words :: "mem \<Rightarrow> u64 \<Rightarrow> u64 \<Rightarrow> u64 \<Rightarrow> mem res" where
  "memset_words m d e w =
     (if d < e then advance 8 d (\<lambda>d'. memset_words (store64 m d w) d' e w) else Inr m)"
  by pat_completeness auto

termination memset_words
  by (relation "measure (\<lambda>(m, d, e, w). 2 ^ 64 - unat d)") (auto intro!: advance_measure)

function memset_bytes :: "mem \<Rightarrow> u64 \<Rightarrow> u64 \<Rightarrow> u8 \<Rightarrow> mem res" where
  "memset_bytes m d e b =
     (if d < e then advance 1 d (\<lambda>d'. memset_bytes (m(d := b)) d' e b) else Inr m)"
  by pat_completeness auto

termination memset_bytes
  by (relation "measure (\<lambda>(m, d, e, b). 2 ^ 64 - unat d)") (auto intro!: advance_measure)

definition splat :: "u32 \<Rightarrow> u64" where
  "splat byte =
     (let w = ucast (byte AND 0xFF);
          w = w OR push_bit 8 w;
          w = w OR push_bit 16 w
      in w OR push_bit 16 (push_bit 16 w))"

definition memset :: "mem \<Rightarrow> u64 \<Rightarrow> u32 \<Rightarrow> u64 \<Rightarrow> (u64 \<times> mem) res" where
  "memset m dest byte len =
     bind_res (if (dest OR len) AND 7 = 0 then memset_words m dest (dest + len) (splat byte)
               else memset_bytes m dest (dest + len) (ucast byte))
       (\<lambda>m. Inr (dest, m))"

definition strlen :: "mem \<Rightarrow> u64 \<Rightarrow> u64 res" where
  "strlen m s = bind_res (strend m s) (\<lambda>p. Inr (p - s))"

function strcmp :: "mem \<Rightarrow> u64 \<Rightarrow> u64 \<Rightarrow> u32 res" where
  "strcmp m s1 s2 =
     (let c1 = m s1; c2 = m s2
      in if c1 \<noteq> 0 \<and> c1 = c2 then advance 1 s1 (\<lambda>s1. advance 1 s2 (\<lambda>s2. strcmp m s1 s2))
         else Inr (ucast c1 - ucast c2))"
  by pat_completeness auto

termination strcmp
  by (relation "measure (\<lambda>(m, s1, s2). 2 ^ 64 - unat s1)") (auto intro!: advance_measure)

function strcpy_loop :: "mem \<Rightarrow> u64 \<Rightarrow> u64 \<Rightarrow> mem res" where
  "strcpy_loop m d s =
     (let c = m s; m = m(d := c)
      in if c \<noteq> 0 then advance 1 d (\<lambda>d. advance 1 s (\<lambda>s. strcpy_loop m d s)) else Inr m)"
  by pat_completeness auto

termination strcpy_loop
  by (relation "measure (\<lambda>(m, d, s). 2 ^ 64 - unat d)") (auto intro!: advance_measure)

definition strcpy :: "mem \<Rightarrow> u64 \<Rightarrow> u64 \<Rightarrow> (u64 \<times> mem) res" where
  "strcpy m dest src = bind_res (strcpy_loop m dest src) (\<lambda>m. Inr (dest, m))"

text \<open>\<^verbatim>\<open>atol\<close>. The accumulator wraps where the digits denote a number outside of \<^verbatim>\<open>long\<close>.\<close>

function skip_blanks :: "mem \<Rightarrow> u64 \<Rightarrow> u64 res" where
  "skip_blanks m p = (if m p = 32 then advance 1 p (skip_blanks m) else Inr p)"
  by pat_completeness auto

termination skip_blanks
  by (relation "measure (\<lambda>(m, p). 2 ^ 64 - unat p)") (auto intro!: advance_measure)

function atol_digits :: "mem \<Rightarrow> u64 \<Rightarrow> u64 \<Rightarrow> u64 res" where
  "atol_digits m p r =
     (if m p \<noteq> 0 then advance 1 p (\<lambda>p'. atol_digits m p' (r * 10 + (ucast (m p) - 48))) else Inr r)"
  by pat_completeness auto

termination atol_digits
  by (relation "measure (\<lambda>(m, p, r). 2 ^ 64 - unat p)") (auto intro!: advance_measure)

definition atol :: "mem \<Rightarrow> u64 \<Rightarrow> u64 res" where
  "atol m str =
     bind_res (skip_blanks m str)
       (\<lambda>p. let sign = m p = 45
            in bind_res (if m p = 45 \<or> m p = 43 then advance 1 p Inr else Inr p)
                 (\<lambda>p. bind_res (atol_digits m p 0) (\<lambda>r. Inr (if sign then - r else r))))"

declare memcpy_words.simps [simp del] memcpy_bytes.simps [simp del] memset_words.simps [simp del]
  memset_bytes.simps [simp del] strcmp.simps [simp del]
  strcpy_loop.simps [simp del] skip_blanks.simps [simp del] atol_digits.simps [simp del]

section \<open>memcpy and memset\<close>

lemma disjoint_shift:
  assumes "disjoint d s (k + n)" and "unat d + k < 2 ^ 64" and "unat s + k < 2 ^ 64"
  shows "disjoint (d + of_nat k) (s + of_nat k) n"
  using assms by (auto simp: disjoint_def unat_word_ariths unat_of_nat)

lemma memcpy_words_run:
  assumes "unat d + 8 * n < 2 ^ 64" and "unat s + 8 * n < 2 ^ 64" and "disjoint d s (8 * n)"
    and "\<forall>i < n. d + 8 * of_nat i < e" and "\<not> d + 8 * of_nat n < e"
  shows "memcpy_words m d s e = Inr (d + of_nat (8 * n), s + of_nat (8 * n), copy_mem m d s (of_nat (8 * n)))"
  using assms
proof (induction n arbitrary: m d s)
  case 0
  then show ?case by (simp add: memcpy_words.simps)
next
  case (Suc n)
  have d: "unat (d + 8) = unat d + 8" "unat (s + 8) = unat s + 8"
    using Suc.prems(1,2) by (simp_all add: unat_word_ariths)
  have dis: "disjoint (d + 8) (s + 8) (8 * n)"
    using disjoint_shift [of d s 8 "8 * n"] Suc.prems(1-3) by simp
  have lt: "d + 8 + 8 * of_nat i < e" if "i < n" for i
    using Suc.prems(4) [rule_format, of "Suc i"] that by (simp add: algebra_simps)
  have "d < e" using Suc.prems(4) [rule_format, of 0] by simp
  moreover have "\<not> d + 8 + 8 * of_nat n < e" using Suc.prems(5) by (simp add: algebra_simps)
  ultimately have "memcpy_words m d s e =
      Inr (d + 8 + of_nat (8 * n), s + 8 + of_nat (8 * n),
           copy_mem (copy_mem m d s 8) (d + 8) (s + 8) (of_nat (8 * n)))"
    using Suc.IH [of "d + 8" "s + 8" "copy_mem m d s 8"] Suc.prems(1,2) d dis lt
    by (subst memcpy_words.simps) (simp add: advance_ok store64_load64)
  moreover have "copy_mem (copy_mem m d s 8) (d + 8) (s + 8) (of_nat (8 * n)) = copy_mem m d s (of_nat (8 * Suc n))"
    using copy_mem_step [of d 8 "8 * n" s m] Suc.prems(1-3) by simp
  ultimately show ?case by (simp add: algebra_simps)
qed

lemma memcpy_bytes_run:
  assumes "unat d + n < 2 ^ 64" and "unat s + n < 2 ^ 64" and "disjoint d s n"
  shows "memcpy_bytes m d s (d + of_nat n) = Inr (copy_mem m d s (of_nat n))"
  using assms
proof (induction n arbitrary: m d s)
  case 0
  then show ?case by (simp add: memcpy_bytes.simps)
next
  case (Suc n)
  have d: "unat (d + 1) = unat d + 1" "unat (s + 1) = unat s + 1"
    using Suc.prems(1,2) by (simp_all add: unat_word_ariths)
  have dis: "disjoint (d + 1) (s + 1) n"
    using disjoint_shift [of d s 1 n] Suc.prems by simp
  have "d < d + of_nat (Suc n)"
    using Suc.prems(1) by (simp add: word_less_nat_alt unat_word_ariths unat_of_nat)
  then have "memcpy_bytes m d s (d + of_nat (Suc n)) =
      Inr (copy_mem (copy_mem m d s 1) (d + 1) (s + 1) (of_nat n))"
    using Suc.IH [of "d + 1" "s + 1" "copy_mem m d s 1"] Suc.prems d dis
    by (subst memcpy_bytes.simps) (simp add: advance_ok copy_mem_1 add.assoc)
  moreover have "copy_mem (copy_mem m d s 1) (d + 1) (s + 1) (of_nat n) = copy_mem m d s (of_nat (Suc n))"
    using copy_mem_step [of d 1 n s m] Suc.prems by simp
  ultimately show ?case by simp
qed

lemma memcpy_run:
  assumes d: "unat dest + unat len < 2 ^ 64" and s: "unat src + unat len < 2 ^ 64"
    and dis: "disjoint dest src (unat len)" and low: "7 \<le> unat dest + unat len"
  shows "memcpy m dest src len = Inr (dest, copy_mem m dest src len)"
proof (cases "(dest OR src) AND 7 = 0")
  case False
  then show ?thesis
    using memcpy_bytes_run [OF d s dis] by (simp add: memcpy_def)
next
  case True
  define n where "n = unat len div 8"
  define j where "j = unat len mod 8"
  have nj: "unat len = 8 * n + j" and j: "j < 8" by (simp_all add: n_def j_def)
  have un: "unat (of_nat n :: u64) = n" using nj d by (simp add: unat_of_nat)
  have e: "unat (dest + len - 7) = unat dest + unat len - 7"
    using d low by (simp add: unat_sub word_le_nat_alt unat_word_ariths)
  have off: "unat (dest + 8 * of_nat i) = unat dest + 8 * i" if "i \<le> n" for i
  proof -
    have "unat (of_nat (8 * i) :: u64) = 8 * i" using that nj d by (simp add: unat_of_nat del: of_nat_mult)
    then show ?thesis using that nj d by (simp add: unat_word_ariths)
  qed
  have dis': "disjoint dest src (8 * n)" using dis nj by (auto simp: disjoint_def)
  have w: "memcpy_words m dest src (dest + len - 7) =
      Inr (dest + of_nat (8 * n), src + of_nat (8 * n), copy_mem m dest src (of_nat (8 * n)))"
    by (rule memcpy_words_run)
      (use d s dis' nj j e off in \<open>auto simp: word_less_nat_alt\<close>)
  have len: "len = of_nat (8 * n + j)" by (simp only: nj [symmetric]) simp
  have "memcpy_bytes (copy_mem m dest src (of_nat (8 * n))) (dest + of_nat (8 * n)) (src + of_nat (8 * n)) (dest + len) =
      Inr (copy_mem m dest src (of_nat (8 * n + j)))"
  proof -
    have b: "unat (dest + of_nat (8 * n)) = unat dest + 8 * n" "unat (src + of_nat (8 * n)) = unat src + 8 * n"
      using nj d s by (simp_all add: unat_word_ariths unat_of_nat del: of_nat_mult)
    have "memcpy_bytes (copy_mem m dest src (of_nat (8 * n))) (dest + of_nat (8 * n)) (src + of_nat (8 * n))
        (dest + of_nat (8 * n) + of_nat j) =
      Inr (copy_mem (copy_mem m dest src (of_nat (8 * n))) (dest + of_nat (8 * n)) (src + of_nat (8 * n)) (of_nat j))"
      by (rule memcpy_bytes_run) (use b nj d s dis in \<open>auto simp: disjoint_def\<close>)
    also have "copy_mem (copy_mem m dest src (of_nat (8 * n))) (dest + of_nat (8 * n)) (src + of_nat (8 * n)) (of_nat j) =
        copy_mem m dest src (of_nat (8 * n + j))"
      by (rule copy_mem_step) (use nj d s dis in auto)
    finally show ?thesis by (simp add: len algebra_simps)
  qed
  then show ?thesis using True unfolding len [symmetric] by (simp add: memcpy_def w)
qed

lemma splat_byte:
  assumes "i < 8"
  shows "byte_of (splat c) i = ucast c"
proof (rule bit_word_eqI)
  fix k assume "k < LENGTH(8)"
  then have k: "k < 8" by simp
  have m: "(0xFF::u32) = mask 8" by (simp add: mask_eq_exp_minus_1)
  have cases: "i \<in> {0, 1, 2, 3, 4, 5, 6, 7}" using assms by auto
  show "bit (byte_of (splat c) i) k = bit (ucast c :: u8) k"
    using cases k unfolding splat_def Let_def m
    by (elim insertE emptyE) (simp_all add: bit_byte_of bit_simps)
qed

lemma store64_splat: "store64 m a (splat c) = fill_mem m a 8 (ucast c)"
proof
  fix p
  show "store64 m a (splat c) p = fill_mem m a 8 (ucast c) p"
  proof (cases "p - a < 8")
    case True
    then have "unat (p - a) < 8" by (simp add: word_less_nat_alt)
    from splat_byte [OF this, of c] True show ?thesis
      by (simp add: store64_def fill_mem_def byte_of_def)
  next
    case False
    then show ?thesis by (simp add: store64_def fill_mem_def)
  qed
qed

lemma memset_words_run:
  assumes "unat d + 8 * n < 2 ^ 64"
  shows "memset_words m d (d + of_nat (8 * n)) (splat c) = Inr (fill_mem m d (of_nat (8 * n)) (ucast c))"
  using assms
proof (induction n arbitrary: m d)
  case 0
  then show ?case by (simp add: memset_words.simps)
next
  case (Suc n)
  have d: "unat (d + 8) = unat d + 8" using Suc.prems by (simp add: unat_word_ariths)
  have e: "d + of_nat (8 * Suc n) = d + 8 + of_nat (8 * n)" by (simp add: algebra_simps)
  have "unat (d + of_nat (8 * Suc n)) = unat d + 8 * Suc n"
    using Suc.prems by (simp add: unat_word_ariths unat_of_nat del: of_nat_mult)
  then have "d < d + of_nat (8 * Suc n)" by (simp add: word_less_nat_alt)
  then have "memset_words m d (d + of_nat (8 * Suc n)) (splat c) =
      Inr (fill_mem (fill_mem m d 8 (ucast c)) (d + 8) (of_nat (8 * n)) (ucast c))"
    using Suc.IH [of "d + 8" "fill_mem m d 8 (ucast c)"] Suc.prems d
    by (subst memset_words.simps) (simp add: advance_ok store64_splat add.assoc)
  also have "fill_mem (fill_mem m d 8 (ucast c)) (d + 8) (of_nat (8 * n)) (ucast c) =
      fill_mem m d (of_nat (8 * Suc n)) (ucast c)"
    using fill_mem_step [of 8 "8 * n" m d "ucast c"] Suc.prems by simp
  finally show ?case .
qed

lemma memset_bytes_run:
  assumes "unat d + n < 2 ^ 64"
  shows "memset_bytes m d (d + of_nat n) b = Inr (fill_mem m d (of_nat n) b)"
  using assms
proof (induction n arbitrary: m d)
  case 0
  then show ?case by (simp add: memset_bytes.simps)
next
  case (Suc n)
  have d: "unat (d + 1) = unat d + 1" using Suc.prems by (simp add: unat_word_ariths)
  have "d < d + of_nat (Suc n)"
    using Suc.prems by (simp add: word_less_nat_alt unat_word_ariths unat_of_nat)
  then have "memset_bytes m d (d + of_nat (Suc n)) b = Inr (fill_mem (fill_mem m d 1 b) (d + 1) (of_nat n) b)"
    using Suc.IH [of "d + 1" "fill_mem m d 1 b"] Suc.prems d
    by (subst memset_bytes.simps) (simp add: advance_ok fill_mem_1 add.assoc)
  also have "fill_mem (fill_mem m d 1 b) (d + 1) (of_nat n) b = fill_mem m d (of_nat (Suc n)) b"
    using fill_mem_step [of 1 n m d b] Suc.prems by simp
  finally show ?case .
qed

lemma memset_run:
  assumes "unat dest + unat len < 2 ^ 64"
  shows "memset m dest byte len = Inr (dest, fill_mem m dest len (ucast byte))"
proof (cases "(dest OR len) AND 7 = 0")
  case False
  then show ?thesis using memset_bytes_run [OF assms, of m "ucast byte"] by (simp add: memset_def)
next
  case True
  have "len AND 7 = 0"
  proof (rule bit_word_eqI)
    fix k :: nat
    show "bit (len AND 7) k = bit 0 k"
      using arg_cong [OF True, of "\<lambda>w. bit w k"] by (auto simp: bit_simps)
  qed
  then have "8 dvd unat len"
    using and_mask_dvd_nat [of 3 len] by (simp add: mask_eq_exp_minus_1)
  then obtain n where n: "unat len = 8 * n" by blast
  have len: "len = of_nat (8 * n)" by (simp only: n [symmetric]) simp
  show ?thesis
    using memset_words_run [of dest n m byte] assms n True unfolding len [symmetric] by (simp add: memset_def)
qed

section \<open>Strings\<close>

lemma strlen_run: "string_at m p n \<Longrightarrow> strlen m p = Inr (of_nat n)"
  by (simp add: strlen_def strend_run)

lemma byte_diff:
  fixes a b :: u8
  shows "sint (ucast a - ucast b :: u32) = int (unat a) - int (unat b)"
proof -
  have a: "uint a < 256" "uint b < 256" "0 \<le> uint a" "0 \<le> uint b"
    using unsigned_less [of a, where 'a = int] unsigned_less [of b, where 'a = int] by simp_all
  have "(ucast a - ucast b :: u32) = word_of_int (uint a - uint b)"
    by (simp only: ucast_eq of_int_diff)
  then have "sint (ucast a - ucast b :: u32) = signed_take_bit 31 (uint a - uint b)"
    by (simp only: signed_of_int) simp
  also have "\<dots> = uint a - uint b"
  proof (rule signed_take_bit_int_eq_self)
    have b: "- (2 ^ 31) \<le> x - y \<and> x - y < 2 ^ 31" if "x < 256" "y < 256" "0 \<le> x" "0 \<le> y" for x y :: int
      using that by simp
    show "- (2 ^ 31) \<le> uint a - uint b" "uint a - uint b < 2 ^ 31" using b [OF a] by simp_all
  qed
  finally show ?thesis by simp
qed

text \<open>
  \<^verbatim>\<open>strcmp\<close> compares the strings as sequences of unsigned bytes: its result is 0 for equal
  strings and negative exactly when the first is before the second in the lexicographic order.
\<close>

lemma strcmp_run:
  assumes "string_at m s1 n1" and "string_at m s2 n2"
  shows "\<exists>r. strcmp m s1 s2 = Inr r \<and> (r = 0 \<longleftrightarrow> bytes_at m s1 n1 = bytes_at m s2 n2) \<and>
    (sint r < 0 \<longleftrightarrow> ord_class.lexordp (bytes_at m s1 n1) (bytes_at m s2 n2))"
  using assms
proof (induction n1 arbitrary: s1 s2 n2)
  case 0
  then have z: "m s1 = 0" by (simp add: string_at_0)
  have r: "strcmp m s1 s2 = Inr (ucast (m s1) - ucast (m s2))"
    by (subst strcmp.simps) (simp add: z Let_def)
  show ?case
  proof (cases n2)
    case 0
    with "0.prems" r z show ?thesis by (simp add: string_at_0)
  next
    case (Suc k)
    with "0.prems" have nz: "m s2 \<noteq> 0" by (simp add: string_at_Suc)
    then have "0 < uint (m s2)" by (metis uint_0_iff uint_ge_0 less_le)
    then have "sint (ucast (m s1) - ucast (m s2) :: u32) < 0"
      using byte_diff [of "m s1" "m s2"] z by simp
    then show ?thesis using r Suc by (auto simp: bytes_at_Suc)
  qed
next
  case (Suc n1)
  then have nz: "m s1 \<noteq> 0" and s1: "string_at m (s1 + 1) n1" "unat s1 + 1 < 2 ^ 64"
    by (simp_all add: string_at_Suc)
  show ?case
  proof (cases "m s1 = m s2")
    case True
    with nz Suc.prems(2) obtain k where k: "n2 = Suc k" by (cases n2) (auto simp: string_at_0)
    with Suc.prems(2) have s2: "string_at m (s2 + 1) k" "unat s2 + 1 < 2 ^ 64" by (simp_all add: string_at_Suc)
    have "strcmp m s1 s2 = strcmp m (s1 + 1) (s2 + 1)"
      using True nz s1(2) s2(2) by (subst strcmp.simps) (simp add: Let_def advance_ok)
    with Suc.IH [OF s1(1) s2(1)] True show ?thesis by (auto simp: k bytes_at_Suc)
  next
    case False
    have r: "strcmp m s1 s2 = Inr (ucast (m s1) - ucast (m s2))"
      using False by (subst strcmp.simps) (simp add: Let_def)
    have d: "sint (ucast (m s1) - ucast (m s2) :: u32) = uint (m s1) - uint (m s2)"
      using byte_diff [of "m s1" "m s2"] by simp
    have "uint (m s1) \<noteq> uint (m s2)" using False by (simp add: word_uint_eq_iff)
    with d have ne: "(ucast (m s1) - ucast (m s2) :: u32) \<noteq> 0" by (metis diff_eq_eq add_0 signed_0)
    have lt: "sint (ucast (m s1) - ucast (m s2) :: u32) < 0 \<longleftrightarrow> m s1 < m s2"
      using d by (simp add: word_less_def)
    show ?thesis
      using r ne lt False nz Suc.prems(2)
      by (cases n2) (auto simp: bytes_at_Suc string_at_0)
  qed
qed

lemma strcpy_loop_run:
  assumes "string_at m s n" and "unat d + n < 2 ^ 64" and "disjoint d s (Suc n)"
  shows "strcpy_loop m d s = Inr (copy_mem m d s (of_nat (Suc n)))"
  using assms
proof (induction n arbitrary: m d s)
  case 0
  then show ?case by (subst strcpy_loop.simps) (simp add: string_at_0 Let_def copy_mem_1 [symmetric])
next
  case (Suc n)
  have s: "m s \<noteq> 0" "unat s + 1 < 2 ^ 64" "string_at m (s + 1) n" using Suc.prems(1) by (simp_all add: string_at_Suc)
  have d: "unat (d + 1) = unat d + 1" "unat (s + 1) = unat s + 1"
    using Suc.prems(2) s(2) by (simp_all add: unat_word_ariths)
  let ?m = "copy_mem m d s 1"
  have keep: "?m (s + 1 + of_nat i) = m (s + 1 + of_nat i)" if "i \<le> n" for i
  proof -
    have "unat (s + 1 + of_nat i) = unat s + 1 + i"
      using Suc.prems(1) that d by (simp add: string_at_def unat_word_ariths unat_of_nat)
    then have "s + 1 + of_nat i \<noteq> d" using Suc.prems(3) that by (auto simp: disjoint_def)
    then show ?thesis by (simp add: copy_mem_1 [symmetric])
  qed
  then have s': "string_at ?m (s + 1) n"
    using s(3) by (auto simp: string_at_def simp del: of_nat_Suc)
  have dis: "disjoint (d + 1) (s + 1) (Suc n)"
    using disjoint_shift [of d s 1 "Suc n"] Suc.prems(2,3) s(2) by simp
  have big: "unat s + Suc (Suc n) \<le> 2 ^ 64" "Suc (Suc n) < 2 ^ 64"
    using Suc.prems by (auto simp: string_at_def disjoint_def)
  have "strcpy_loop m d s = strcpy_loop ?m (d + 1) (s + 1)"
    using s Suc.prems(2) by (subst strcpy_loop.simps) (simp add: Let_def advance_ok copy_mem_1)
  also have "\<dots> = Inr (copy_mem ?m (d + 1) (s + 1) (of_nat (Suc n)))"
    using Suc.IH [OF s' _ dis] Suc.prems(2) d by simp
  finally show ?case
    using copy_mem_step [of d 1 "Suc n" s m] Suc.prems(2,3) big by simp
qed

end
