(* ===== verification/Util_Printf.thy ===== *)
theory Util_Printf
  imports Util_String
begin

text \<open>
  The kernel's formatted output, \<^verbatim>\<open>util/snprintf.c\<close>. The format is the list of its characters
  before the terminating zero; the variable arguments are the list of their 64-bit slots, of
  which an \<^verbatim>\<open>int\<close> argument uses the low half; \<^verbatim>\<open>%s\<close> reads its string from memory. The state is
  the number of characters produced and the buffer; a store past the end of the buffer is
  \<^const>\<open>BadAccess\<close>.

  The functional specification is \<^verbatim>\<open>format_text\<close>, the whole text the format stands for. The
  main lemma says that \<^verbatim>\<open>vsnprintf\<close> returns the length of that text and stores as much of it as
  fits before a terminating zero, and nothing else.
\<close>

section \<open>Definitions\<close>

type_synonym pbuf = "nat \<times> u8 list"

definition put :: "nat \<Rightarrow> u8 \<Rightarrow> pbuf \<Rightarrow> pbuf res" where
  "put n c st =
     (case st of (pos, out) \<Rightarrow>
        if pos + 1 < n then if pos < length out then Inr (pos + 1, out[pos := c]) else Inl BadAccess
        else Inr (pos + 1, out))"

definition hex_digit :: "u64 \<Rightarrow> u8" where
  "hex_digit d = (if d < 10 then 48 + ucast d else 97 + ucast d - 10)"

fun put_hex :: "nat \<Rightarrow> nat \<Rightarrow> u64 \<Rightarrow> pbuf \<Rightarrow> pbuf res" where
  "put_hex n 0 num st = Inr st"
| "put_hex n (Suc i) num st =
     bind_res (put n (hex_digit (drop_bit (4 * i) num AND 0xF)) st) (put_hex n i num)"

fun count_digits :: "nat \<Rightarrow> nat" where
  "count_digits nn = (if nn div 10 = 0 then 1 else Suc (count_digits (nn div 10)))"

fun put_dec :: "nat \<Rightarrow> nat \<Rightarrow> nat \<Rightarrow> nat \<Rightarrow> u8 list \<Rightarrow> u8 list res" where
  "put_dec n pos 0 num out = Inr out"
| "put_dec n pos (Suc i) num out =
     (if pos + i + 1 < n then
        if pos + i < length out
        then put_dec n pos i (num div 10) (out[pos + i := 48 + of_nat (num mod 10)])
        else Inl BadAccess
      else put_dec n pos i (num div 10) out)"

definition put_num :: "nat \<Rightarrow> u64 \<Rightarrow> pbuf \<Rightarrow> pbuf res" where
  "put_num n num st =
     bind_res
       (if sint num < 0 then
          if num = 0x8000000000000000 then Inl Undefined
          else bind_res (put n 45 st) (\<lambda>st. Inr (- num, st))
        else Inr (num, st))
       (\<lambda>(num, pos, out).
          let digits = count_digits (unat num)
          in bind_res (put_dec n pos digits (unat num) out) (\<lambda>out. Inr (pos + digits, out)))"

function put_str :: "mem \<Rightarrow> nat \<Rightarrow> u64 \<Rightarrow> pbuf \<Rightarrow> pbuf res" where
  "put_str m n p st =
     (if m p \<noteq> 0 then bind_res (put n (m p) st) (\<lambda>st. advance 1 p (\<lambda>p. put_str m n p st)) else Inr st)"
  by pat_completeness auto

termination put_str
  by (relation "measure (\<lambda>(m, n, p, st). 2 ^ 64 - unat p)") (auto intro!: advance_measure)

declare put_str.simps [simp del]

text \<open>An \<^verbatim>\<open>int\<close> argument is sign extended to \<^verbatim>\<open>long\<close>.\<close>

definition take_arg :: "bool \<Rightarrow> u64 list \<Rightarrow> (u64 \<Rightarrow> u64 list \<Rightarrow> 'a res) \<Rightarrow> 'a res" where
  "take_arg longarg va k =
     (case va of [] \<Rightarrow> Inl Undefined | a # va \<Rightarrow> k (if longarg then a else scast (ucast a :: u32)) va)"

fun vsnprintf_loop :: "mem \<Rightarrow> nat \<Rightarrow> bool \<Rightarrow> bool \<Rightarrow> u8 list \<Rightarrow> u64 list \<Rightarrow> pbuf \<Rightarrow> pbuf res" where
  "vsnprintf_loop m n format longarg [] va st = Inr st"
| "vsnprintf_loop m n format longarg (c # s) va st =
     (if format then
        if c = 108 then vsnprintf_loop m n True True s va st
        else if c = 112 then
          bind_res (put n 48 st) (\<lambda>st. bind_res (put n 120 st)
            (\<lambda>st. take_arg True va
               (\<lambda>num va. bind_res (put_hex n 16 num st) (vsnprintf_loop m n False False s va))))
        else if c = 120 then
          take_arg longarg va
            (\<lambda>num va. bind_res (put_hex n (if longarg then 16 else 8) num st) (vsnprintf_loop m n False False s va))
        else if c = 100 then
          take_arg longarg va (\<lambda>num va. bind_res (put_num n num st) (vsnprintf_loop m n False False s va))
        else if c = 115 then
          take_arg True va (\<lambda>p va. bind_res (put_str m n p st) (vsnprintf_loop m n False False s va))
        else if c = 99 then
          take_arg False va (\<lambda>a va. bind_res (put n (ucast a) st) (vsnprintf_loop m n False False s va))
        else vsnprintf_loop m n True longarg s va st
      else if c = 37 then vsnprintf_loop m n True longarg s va st
      else bind_res (put n c st) (vsnprintf_loop m n False longarg s va))"

definition vsnprintf :: "mem \<Rightarrow> u8 list \<Rightarrow> nat \<Rightarrow> u8 list \<Rightarrow> u64 list \<Rightarrow> (u32 \<times> u8 list) res" where
  "vsnprintf m out n s va =
     bind_res (vsnprintf_loop m n False False s va (0, out))
       (\<lambda>(pos, out).
          if pos < n then if pos < length out then Inr (of_nat pos, out[pos := 0]) else Inl BadAccess
          else if n \<noteq> 0 then if n - 1 < length out then Inr (of_nat pos, out[n - 1 := 0]) else Inl BadAccess
          else Inr (of_nat pos, out))"

definition snprintf :: "mem \<Rightarrow> u8 list \<Rightarrow> nat \<Rightarrow> u8 list \<Rightarrow> u64 list \<Rightarrow> (u32 \<times> u8 list) res" where
  "snprintf m out n s va = vsnprintf m out n s va"

section \<open>The text a format stands for\<close>

fun digits10 :: "nat \<Rightarrow> u8 list" where
  "digits10 v = (if v < 10 then [48 + of_nat v] else digits10 (v div 10) @ [48 + of_nat (v mod 10)])"

definition signed_text :: "u64 \<Rightarrow> u8 list" where
  "signed_text num = (if sint num < 0 then 45 # digits10 (unat (- num)) else digits10 (unat num))"

definition hex_text :: "nat \<Rightarrow> u64 \<Rightarrow> u8 list" where
  "hex_text k num = map (\<lambda>i. hex_digit (drop_bit (4 * i) num AND 0xF)) (rev [0..<k])"

fun format_text :: "mem \<Rightarrow> bool \<Rightarrow> bool \<Rightarrow> u8 list \<Rightarrow> u64 list \<Rightarrow> u8 list res" where
  "format_text m format longarg [] va = Inr []"
| "format_text m format longarg (c # s) va =
     (let emit = (\<lambda>xs va. bind_res (format_text m False False s va) (\<lambda>ys. Inr (xs @ ys)))
      in if format then
           if c = 108 then format_text m True True s va
           else if c = 112 then take_arg True va (\<lambda>num. emit (48 # 120 # hex_text 16 num))
           else if c = 120 then take_arg longarg va (\<lambda>num. emit (hex_text (if longarg then 16 else 8) num))
           else if c = 100 then
             take_arg longarg va (\<lambda>num va. if num = 0x8000000000000000 then Inl Undefined else emit (signed_text num) va)
           else if c = 115 then
             take_arg True va (\<lambda>p va. bind_res (strend m p) (\<lambda>e. emit (bytes_at m p (unat (e - p))) va))
           else if c = 99 then take_arg False va (\<lambda>a. emit [ucast a])
           else format_text m True longarg s va
         else if c = 37 then format_text m True longarg s va
         else bind_res (format_text m False longarg s va) (\<lambda>ys. Inr (c # ys)))"

declare digits10.simps [simp del] count_digits.simps [simp del]

section \<open>The buffer\<close>

text \<open>The buffer after the text \<^verbatim>\<open>xs\<close> has been put: the part that fits, then the old contents.\<close>

definition overlay :: "nat \<Rightarrow> u8 list \<Rightarrow> u8 list \<Rightarrow> pbuf" where
  "overlay n xs out = (length xs, take (n - 1) xs @ drop (min (length xs) (n - 1)) out)"

lemma nth_overlay:
  assumes "n \<le> length out"
  shows "length (snd (overlay n xs out)) = length out"
    and "j < length out \<Longrightarrow> snd (overlay n xs out) ! j = (if j < length xs \<and> j + 1 < n then xs ! j else out ! j)"
  using assms by (auto simp: overlay_def nth_append min_def)

lemma overlay_eqI:
  assumes "n \<le> length out" and "length b = length out" and "p = length xs"
    and "\<And>j. j < length out \<Longrightarrow> b ! j = (if j < length xs \<and> j + 1 < n then xs ! j else out ! j)"
  shows "(p, b) = overlay n xs out"
proof -
  have "b = snd (overlay n xs out)" using assms nth_overlay [OF assms(1)] by (intro nth_equalityI) auto
  then show ?thesis using assms(3) by (simp add: overlay_def)
qed

lemma put_overlay:
  assumes "n \<le> length out"
  shows "put n c (overlay n xs out) = Inr (overlay n (xs @ [c]) out)"
proof -
  note o = nth_overlay [OF assms, where xs = xs]
  have e: "overlay n xs out = (length xs, snd (overlay n xs out))" by (simp add: overlay_def)
  show ?thesis
  proof (cases "length xs + 1 < n")
    case True
    then have "(length xs + 1, (snd (overlay n xs out))[length xs := c]) = overlay n (xs @ [c]) out"
      using assms o by (intro overlay_eqI) (auto simp: nth_list_update nth_append less_Suc_eq)
    then show ?thesis using True assms o(1) by (subst e) (simp add: put_def)
  next
    case False
    then have "(length xs + 1, snd (overlay n xs out)) = overlay n (xs @ [c]) out"
      using assms o by (intro overlay_eqI) (auto simp: nth_append less_Suc_eq)
    then show ?thesis using False by (subst e) (simp add: put_def)
  qed
qed

lemma put_hex_overlay:
  assumes "n \<le> length out"
  shows "put_hex n k num (overlay n xs out) = Inr (overlay n (xs @ hex_text k num) out)"
proof (induction k arbitrary: xs)
  case 0
  then show ?case by (simp add: hex_text_def)
next
  case (Suc k)
  then show ?case by (simp add: put_overlay [OF assms] hex_text_def)
qed

fun dec_list :: "nat \<Rightarrow> nat \<Rightarrow> u8 list" where
  "dec_list 0 v = []"
| "dec_list (Suc i) v = dec_list i (v div 10) @ [48 + of_nat (v mod 10)]"

lemma length_dec_list [simp]: "length (dec_list i v) = i"
  by (induction i arbitrary: v) simp_all

lemma put_dec_nth:
  assumes "n \<le> length out"
  shows "\<exists>b. put_dec n pos i v out = Inr b \<and> length b = length out \<and>
    (\<forall>j < length out. b ! j = (if pos \<le> j \<and> j < pos + i \<and> j + 1 < n then dec_list i v ! (j - pos) else out ! j))"
  using assms
proof (induction i arbitrary: v out)
  case 0
  then show ?case by auto
next
  case (Suc i)
  show ?case
  proof (cases "pos + i + 1 < n")
    case True
    let ?o = "out[pos + i := 48 + of_nat (v mod 10)]"
    obtain b where b: "put_dec n pos i (v div 10) ?o = Inr b" "length b = length out"
      "\<forall>j < length out. b ! j = (if pos \<le> j \<and> j < pos + i \<and> j + 1 < n then dec_list i (v div 10) ! (j - pos) else ?o ! j)"
      using Suc.IH [of ?o "v div 10"] Suc.prems by auto
    have "b ! j = (if pos \<le> j \<and> j < pos + Suc i \<and> j + 1 < n then dec_list (Suc i) v ! (j - pos) else out ! j)"
      if "j < length out" for j
      using b(3) that True by (auto simp: nth_append nth_list_update less_Suc_eq)
    then show ?thesis using b(1,2) True Suc.prems by auto
  next
    case False
    obtain b where b: "put_dec n pos i (v div 10) out = Inr b" "length b = length out"
      "\<forall>j < length out. b ! j = (if pos \<le> j \<and> j < pos + i \<and> j + 1 < n then dec_list i (v div 10) ! (j - pos) else out ! j)"
      using Suc.IH [of out "v div 10"] Suc.prems by auto
    have "b ! j = (if pos \<le> j \<and> j < pos + Suc i \<and> j + 1 < n then dec_list (Suc i) v ! (j - pos) else out ! j)"
      if "j < length out" for j
      using b(3) that False by (auto simp: nth_append)
    then show ?thesis using b(1,2) False by auto
  qed
qed

lemma dec_list_digits10: "dec_list (count_digits v) v = digits10 v"
proof (induction v rule: digits10.induct)
  case (1 v)
  then show ?case
    by (cases "v < 10") (simp_all add: digits10.simps [of v] count_digits.simps [of v] div_eq_0_iff)
qed

lemma put_num_overlay:
  assumes "n \<le> length out" and "num \<noteq> 0x8000000000000000"
  shows "put_num n num (overlay n xs out) = Inr (overlay n (xs @ signed_text num) out)"
proof -
  have dec: "bind_res (put_dec n (length ys) (count_digits v) v (snd (overlay n ys out)))
      (\<lambda>out. Inr (length ys + count_digits v, out)) = Inr (overlay n (ys @ digits10 v) out)" for ys v
  proof -
    note o = nth_overlay [OF assms(1), where xs = ys]
    obtain b where b: "put_dec n (length ys) (count_digits v) v (snd (overlay n ys out)) = Inr b"
      "length b = length out"
      "\<forall>j < length out. b ! j = (if length ys \<le> j \<and> j < length ys + count_digits v \<and> j + 1 < n
         then digits10 v ! (j - length ys) else snd (overlay n ys out) ! j)"
      using put_dec_nth [of n "snd (overlay n ys out)" "length ys" "count_digits v" v] assms(1) o(1)
      by (auto simp: dec_list_digits10)
    have len: "length (digits10 v) = count_digits v" by (simp add: dec_list_digits10 [symmetric])
    have "(length ys + count_digits v, b) = overlay n (ys @ digits10 v) out"
      by (rule overlay_eqI [OF assms(1) b(2)]) (use b(3) o len in \<open>auto simp: nth_append\<close>)
    then show ?thesis using b(1) by simp
  qed
  have e: "overlay n ys out = (length ys, snd (overlay n ys out))" for ys by (simp add: overlay_def)
  show ?thesis
  proof (cases "sint num < 0")
    case True
    then have "put_num n num (overlay n xs out) =
        (case overlay n (xs @ [45]) out of (pos, out) \<Rightarrow>
          bind_res (put_dec n pos (count_digits (unat (- num))) (unat (- num)) out)
            (\<lambda>out. Inr (pos + count_digits (unat (- num)), out)))"
      using assms by (simp add: put_num_def put_overlay Let_def)
    also have "\<dots> = Inr (overlay n ((xs @ [45]) @ digits10 (unat (- num))) out)"
      using dec [of "xs @ [45]" "unat (- num)"] by (subst e) (simp only: prod.case)
    finally show ?thesis using True by (simp add: signed_text_def)
  next
    case False
    then show ?thesis using dec [of xs "unat num"] by (subst e) (simp add: put_num_def Let_def signed_text_def)
  qed
qed

lemma put_str_run:
  assumes "n \<le> length out"
  shows "string_at m p k \<Longrightarrow> put_str m n p (overlay n xs out) = Inr (overlay n (xs @ bytes_at m p k) out)"
proof (induction k arbitrary: p xs)
  case 0
  then show ?case by (subst put_str.simps) (simp add: string_at_0)
next
  case (Suc k)
  then show ?case
    by (subst put_str.simps) (simp add: string_at_Suc put_overlay [OF assms] advance_ok bytes_at_Suc)
qed

lemma put_str_wrap:
  assumes "n \<le> length out" and "\<nexists>k. string_at m p k"
  shows "put_str m n p (overlay n xs out) = Inl AddrWrap"
  using assms(2)
proof (induction m p arbitrary: xs rule: strend.induct)
  case (1 m p)
  have nz: "m p \<noteq> 0" using no_string_cases [OF 1(2), of 0] unsigned_less [of p, where 'a = nat] by simp
  show ?case
  proof (cases "p + 1 < p")
    case True
    then show ?thesis using nz by (subst put_str.simps) (simp add: put_overlay [OF assms(1)] advance_def)
  next
    case False
    then have "unat p + 1 < 2 ^ 64"
      using no_wrap_add [OF False] unsigned_less [of "p + 1", where 'a = nat] by simp
    then have "\<nexists>k. string_at m (p + 1) k" using no_string_drop [OF 1(2), of 1] by simp
    then show ?thesis
      using nz False 1(1) by (subst put_str.simps) (simp add: put_overlay [OF assms(1)] advance_def)
  qed
qed

lemma put_str_overlay:
  assumes "n \<le> length out"
  shows "put_str m n p (overlay n xs out) =
    bind_res (strend m p) (\<lambda>e. Inr (overlay n (xs @ bytes_at m p (unat (e - p))) out))"
proof (cases "\<exists>k. string_at m p k")
  case True
  then obtain k where k: "string_at m p k" ..
  then have "k < 2 ^ 64" by (simp add: string_at_def)
  then have "unat (of_nat k :: u64) = k" by (simp add: unat_of_nat)
  then show ?thesis by (simp add: put_str_run [OF assms k] strend_run [OF k])
next
  case False
  then show ?thesis by (simp add: put_str_wrap [OF assms] strend_wrap)
qed

lemma vsnprintf_loop_text:
  assumes "n \<le> length out"
  shows "vsnprintf_loop m n format longarg s va (overlay n xs out) =
    bind_res (format_text m format longarg s va) (\<lambda>ys. Inr (overlay n (xs @ ys) out))"
proof (induction s arbitrary: format longarg va xs)
  case Nil
  then show ?case by simp
next
  case (Cons c s)
  have min: "put_num n 0x8000000000000000 st = Inl Undefined" for st by (simp add: put_num_def)
  note out = put_overlay [OF assms] put_hex_overlay [OF assms] put_num_overlay [OF assms] put_str_overlay [OF assms]
  show ?case
    by (cases va) (auto simp: take_arg_def Let_def Cons out min bind_res_assoc)
qed

lemma vsnprintf_text:
  assumes "n \<le> length out"
  shows "vsnprintf m out n s va =
    bind_res (format_text m False False s va)
      (\<lambda>text. Inr (of_nat (length text),
         if n = 0 then out else take (n - 1) text @ 0 # drop (Suc (min (length text) (n - 1))) out))"
proof -
  have e: "overlay n [] out = (0, out)" by (simp add: overlay_def)
  have stop: "(take k xs @ drop (min (length xs) k) out)[min (length xs) k := 0] =
      take k xs @ 0 # drop (Suc (min (length xs) k)) out" if "min (length xs) k < length out" for k xs
  proof -
    have "(drop (min (length xs) k) out)[0 := 0] = 0 # drop (Suc (min (length xs) k)) out"
      using that by (simp add: Cons_nth_drop_Suc [symmetric])
    then show ?thesis by (simp add: list_update_append)
  qed
  show ?thesis
  proof (cases "format_text m False False s va")
    case (Inl f)
    then show ?thesis
      using vsnprintf_loop_text [OF assms, where xs = "[]"] by (simp add: vsnprintf_def e)
  next
    case (Inr ys)
    then have loop: "vsnprintf_loop m n False False s va (0, out) = Inr (overlay n ys out)"
      using vsnprintf_loop_text [OF assms, where xs = "[]"] by (simp add: e)
    show ?thesis
    proof (cases n)
      case 0
      then show ?thesis using loop Inr by (simp add: vsnprintf_def overlay_def)
    next
      case (Suc k)
      then have k: "min (length ys) k < length out" using assms by simp
      then show ?thesis
        using loop Inr Suc stop [OF k] assms
        by (cases "length ys \<le> k") (simp_all add: vsnprintf_def overlay_def min_def)
    qed
  qed
qed

section \<open>Reading a printed number back\<close>

lemma digits10_nonempty: "digits10 v \<noteq> []"
  by (subst digits10.simps) simp

lemma length_digits10: "v < 10 ^ k \<Longrightarrow> 0 < k \<Longrightarrow> length (digits10 v) \<le> k"
proof (induction k arbitrary: v)
  case (Suc k)
  show ?case
  proof (cases "v < 10")
    case True
    then show ?thesis by (simp add: digits10.simps [of v])
  next
    case False
    then have "0 < k" using Suc.prems(1) by (cases k) auto
    moreover have "v div 10 < 10 ^ k" using Suc.prems(1) by (intro less_mult_imp_div_less) (simp add: mult.commute)
    ultimately show ?thesis using Suc.IH [of "v div 10"] False by (simp add: digits10.simps [of v])
  qed
qed simp

lemma digits10_range: "c \<in> set (digits10 v) \<Longrightarrow> \<exists>d < 10. c = 48 + of_nat d"
proof (induction v rule: digits10.induct)
  case (1 v)
  show ?case
  proof (cases "v < 10")
    case True
    then show ?thesis using 1(2) by (auto simp: digits10.simps [of v])
  next
    case False
    then consider "c \<in> set (digits10 (v div 10))" | "c = 48 + of_nat (v mod 10)"
      using 1(2) by (auto simp: digits10.simps [of v])
    then show ?thesis
    proof cases
      case 2
      moreover have "v mod 10 < 10" by simp
      ultimately show ?thesis by blast
    qed (use 1(1) False in blast)
  qed
qed

definition digit_step :: "u64 \<Rightarrow> u8 \<Rightarrow> u64" where
  "digit_step r c = r * 10 + (ucast c - 48)"

lemma digit_step: "d < 10 \<Longrightarrow> digit_step r (48 + of_nat d) = r * 10 + of_nat d"
proof -
  assume "d < 10"
  then have "d \<in> {0, 1, 2, 3, 4, 5, 6, 7, 8, 9}" by auto
  then show ?thesis by (elim insertE emptyE) (simp_all add: digit_step_def)
qed

lemma fold_digits10: "\<exists>k. foldl digit_step r (digits10 v) = r * 10 ^ k + of_nat v"
proof (induction v arbitrary: r rule: digits10.induct)
  case (1 v)
  show ?case
  proof (cases "v < 10")
    case True
    then have "foldl digit_step r (digits10 v) = r * 10 ^ 1 + of_nat v"
      by (simp add: digits10.simps [of v] digit_step)
    then show ?thesis by blast
  next
    case False
    then obtain k where "foldl digit_step r (digits10 (v div 10)) = r * 10 ^ k + of_nat (v div 10)"
      using 1 by blast
    then have "foldl digit_step r (digits10 v) = (r * 10 ^ k + of_nat (v div 10)) * 10 + of_nat (v mod 10)"
      using False by (simp add: digits10.simps [of v] digit_step)
    also have "\<dots> = r * 10 ^ Suc k + (10 * of_nat (v div 10) + of_nat (v mod 10))" by (simp add: algebra_simps)
    also have "10 * of_nat (v div 10) + of_nat (v mod 10) = (of_nat (10 * (v div 10) + v mod 10) :: u64)"
      by (simp only: of_nat_add of_nat_mult of_nat_numeral)
    also have "10 * (v div 10) + v mod 10 = v" by simp
    finally show ?thesis by blast
  qed
qed

lemma atol_digits_run:
  "string_at m p k \<Longrightarrow> atol_digits m p r = Inr (foldl digit_step r (bytes_at m p k))"
proof (induction k arbitrary: p r)
  case 0
  then show ?case by (subst atol_digits.simps) (simp add: string_at_0)
next
  case (Suc k)
  then show ?case
    by (subst atol_digits.simps) (simp add: string_at_Suc bytes_at_Suc advance_ok flip: digit_step_def)
qed

lemma atol_digits10:
  assumes "string_at m p k" and "bytes_at m p k = digits10 v"
  shows "atol_digits m p 0 = Inr (of_nat v)"
  using atol_digits_run [OF assms(1), of 0] fold_digits10 [of 0 v] assms(2) by auto

lemma atol_signed_text:
  assumes s: "string_at m p k" and t: "bytes_at m p k = signed_text num"
  shows "atol m p = Inr num"
proof -
  obtain c cs where txt0: "signed_text num = c # cs"
    using digits10_nonempty [of "unat num"]
    by (cases "signed_text num") (auto simp: signed_text_def split: if_splits)
  then obtain k' where k: "k = Suc k'" using t by (cases k) auto
  have c: "m p = c" using t txt0 by (simp add: k bytes_at_Suc)
  have s': "string_at m (p + 1) k'" "unat p + 1 < 2 ^ 64" using s by (simp_all add: k string_at_Suc)
  show ?thesis
  proof (cases "sint num < 0")
    case True
    then have 45: "c = 45" "bytes_at m (p + 1) k' = digits10 (unat (- num))"
      using t txt0 by (simp_all add: signed_text_def k bytes_at_Suc)
    have "skip_blanks m p = Inr p" using c 45(1) by (subst skip_blanks.simps) simp
    then show ?thesis
      using c 45(1) s'(2) atol_digits10 [OF s'(1) 45(2)] by (simp add: atol_def advance_ok)
  next
    case False
    then have d: "bytes_at m p k = digits10 (unat num)" using t by (simp add: signed_text_def)
    then have "c \<in> set (digits10 (unat num))" using txt0 t by (metis list.set_intros(1))
    then obtain e where e: "e < 10" "c = 48 + of_nat e" using digits10_range by blast
    then have "e \<in> {0, 1, 2, 3, 4, 5, 6, 7, 8, 9}" by auto
    then have ne: "c \<noteq> 32" "c \<noteq> 45" "c \<noteq> 43" using e(2) by (elim insertE emptyE; simp)+
    have "skip_blanks m p = Inr p" using c ne by (subst skip_blanks.simps) simp
    then show ?thesis using c ne atol_digits10 [OF s d] by (simp add: atol_def)
  qed
qed

lemma length_signed_text: "length (signed_text num) \<le> 21"
proof -
  have "unat w < 10 ^ 20" for w :: u64 using unsigned_less [of w, where 'a = nat] by simp
  then have l: "length (digits10 (unat w)) \<le> 20" for w :: u64 by (intro length_digits10) auto
  show ?thesis using l [of num] l [of "- num"] by (simp add: signed_text_def)
qed

section \<open>Properties\<close>

text \<open>
  (C14) \<^verbatim>\<open>vsnprintf\<close> on a buffer of at least \<^verbatim>\<open>n\<close> bytes returns the length of the whole text its
  format and arguments stand for, stores the first \<^verbatim>\<open>n - 1\<close> characters of it at most, then a
  zero, and leaves every byte after that alone: it never stores outside of the buffer. It does
  not return where the text is not defined (too few arguments, the most negative number, a
  string without end).
\<close>

theorem vsnprintf_correct:
  assumes "n \<le> length out"
  shows "vsnprintf m out n s va =
    bind_res (format_text m False False s va)
      (\<lambda>text. Inr (of_nat (length text),
         if n = 0 then out else take (n - 1) text @ 0 # drop (Suc (min (length text) (n - 1))) out))"
  by (rule vsnprintf_text [OF assms])

theorem vsnprintf_correct_witness:
  "vsnprintf (\<lambda>_. 0) [1, 2, 3, 4, 5] 5 [112, 99, 32, 37, 120] [0x12345678] = Inr (11, [112, 99, 32, 49, 0])"
proof -
  have t: "format_text (\<lambda>_. 0) False False [112, 99, 32, 37, 120] [0x12345678] =
      Inr [112, 99, 32, 49, 50, 51, 52, 53, 54, 55, 56]"
    by code_simp
  show ?thesis
    using vsnprintf_correct [of 5 "[1, 2, 3, 4, 5]" "\<lambda>_. 0" "[112, 99, 32, 37, 120]" "[0x12345678]"] t by simp
qed

text \<open>
  (C31) What the kernel prints with \<^verbatim>\<open>%ld\<close>, \<^verbatim>\<open>atol\<close> reads back: for every \<^verbatim>\<open>long\<close> but the most
  negative one, and a buffer of 22 bytes or more.
\<close>

theorem snprintf_atol_roundtrip:
  assumes "num \<noteq> 0x8000000000000000" and "22 \<le> n" and "n \<le> length out" and "unat p + n < 2 ^ 64"
    and "snprintf m0 out n [37, 108, 100] [num] = Inr (r, out')"
    and "\<forall>i < n. m (p + of_nat i) = out' ! i"
  shows "atol m p = Inr num"
proof -
  let ?t = "signed_text num"
  have lt: "length ?t \<le> n - 1" "length ?t < n" using length_signed_text [of num] assms(2) by simp_all
  have "format_text m0 False False [37, 108, 100] [num] = Inr ?t" using assms(1) by (simp add: take_arg_def Let_def)
  then have out: "out' = ?t @ 0 # drop (Suc (length ?t)) out"
    using assms(5) vsnprintf_text [OF assms(3), of m0 "[37, 108, 100]" "[num]"] lt assms(2)
    by (simp add: snprintf_def)
  have b: "bytes_at m p (length ?t) = ?t"
    using assms(6) lt(2) by (intro nth_equalityI) (auto simp: out nth_append)
  have nz: "c \<noteq> 0" if "c \<in> set ?t" for c
  proof -
    have "c \<noteq> 0" if c: "c \<in> set (digits10 v)" for v
    proof -
      obtain d where d: "d < 10" "c = 48 + of_nat d" using digits10_range [OF c] by blast
      then have "d \<in> {0, 1, 2, 3, 4, 5, 6, 7, 8, 9}" by auto
      then show ?thesis using d(2) by (elim insertE emptyE; simp)
    qed
    then show ?thesis using that by (auto simp: signed_text_def split: if_splits)
  qed
  have "string_at m p (length ?t)"
    unfolding string_at_def
    using assms(4,6) lt(2) nz by (auto simp: out nth_append)
  then show ?thesis by (rule atol_signed_text [OF _ b])
qed

theorem snprintf_atol_roundtrip_witness:
  "atol (\<lambda>a. if a - 0x1000 < 32 then ([45, 52, 50, 0] @ replicate 28 7) ! unat (a - 0x1000) else 9) 0x1000 = Inr (- 42)"
proof -
  let ?o = "[45, 52, 50, 0] @ replicate 28 (7::u8)"
  let ?m = "\<lambda>a::u64. if a - 0x1000 < 32 then ?o ! unat (a - 0x1000) else 9"
  have r: "snprintf (\<lambda>_. 0) (replicate 32 7) 32 [37, 108, 100] [- 42] = Inr (3, ?o)" by code_simp
  have "?m (0x1000 + of_nat i) = ?o ! i" if "i < 32" for i :: nat
    using that by (simp add: word_less_nat_alt unat_of_nat)
  then show ?thesis
    using snprintf_atol_roundtrip [OF _ _ _ _ r, where p = "0x1000" and m = ?m] by simp
qed

end
