(* ===== verification/Pk_Syscall.thy ===== *)
theory Pk_Syscall
  imports Pk_Calls Util_Printf
begin

text \<open>
  The system calls of the proxy kernel, \<^verbatim>\<open>pk/syscall.c\<close>, and its console, \<^verbatim>\<open>pk/console.c\<close>.

  The kernel reads and writes the memory of the user program through the page tables: every byte
  access goes through \<^verbatim>\<open>touch\<close> and may page the byte in. What the environment gives a call is a
  record: the host, the addresses of two buffers on the kernel's stack, the layout of the C
  library's \<^verbatim>\<open>struct stat\<close> as the offsets and bytes of its fields, and the values of the three
  hardware counters. A call returns the value of its C type and the new state; \<^verbatim>\<open>do_syscall\<close>
  extends an \<^verbatim>\<open>int\<close> to a \<^verbatim>\<open>long\<close> as the calling convention does.
\<close>

section \<open>Memory of the program\<close>

record kenv =
  e_host :: host
  e_out :: u64
  e_buf :: u64
  e_layout :: "stat \<Rightarrow> (u64 \<times> u8) list"
  e_time :: u64
  e_cycle :: u64
  e_instret :: u64

definition phys :: "u64 \<Rightarrow> vmstate \<Rightarrow> u64" where
  "phys a s = push_bit RISCV_PGSHIFT (pte_ppn (pte_of a s)) OR (a AND (RISCV_PGSIZE - 1))"

definition uload8 :: "host \<Rightarrow> u64 \<Rightarrow> vmstate \<Rightarrow> (u8 \<times> vmstate) res" where
  "uload8 host a s =
     bind_res (touch (handle_page_fault host) PROT_READ a s) (\<lambda>s. Inr (pmem s (phys a s), s))"

definition ustore8 :: "host \<Rightarrow> u64 \<Rightarrow> u8 \<Rightarrow> vmstate \<Rightarrow> vmstate res" where
  "ustore8 host a b s =
     bind_res (touch (handle_page_fault host) PROT_WRITE a s)
       (\<lambda>s. Inr (s\<lparr>pmem := (pmem s)(phys a s := b)\<rparr>))"

fun uload :: "host \<Rightarrow> nat \<Rightarrow> u64 \<Rightarrow> vmstate \<Rightarrow> (u8 list \<times> vmstate) res" where
  "uload host 0 a s = Inr ([], s)"
| "uload host (Suc n) a s =
     bind_res (uload8 host a s)
       (\<lambda>(b, s). bind_res (uload host n (a + 1) s) (\<lambda>(bs, s). Inr (b # bs, s)))"

fun ustore :: "host \<Rightarrow> (u64 \<times> u8) list \<Rightarrow> vmstate \<Rightarrow> vmstate res" where
  "ustore host [] s = Inr s"
| "ustore host ((a, b) # ws) s = bind_res (ustore8 host a b s) (ustore host ws)"

definition at_addr :: "u64 \<Rightarrow> u8 list \<Rightarrow> (u64 \<times> u8) list" where
  "at_addr a bs = map (\<lambda>i. (a + of_nat i, bs ! i)) [0..<length bs]"

definition long_bytes :: "u64 \<Rightarrow> u8 list" where
  "long_bytes w = map (\<lambda>i. ucast (drop_bit (8 * i) w)) [0..<8]"

definition uload_long :: "host \<Rightarrow> u64 \<Rightarrow> vmstate \<Rightarrow> (u64 \<times> vmstate) res" where
  "uload_long host a s = bind_res (uload host 8 a s) (\<lambda>(bs, s). Inr (le_word bs, s))"

definition ustore_long :: "host \<Rightarrow> u64 \<Rightarrow> u64 \<Rightarrow> vmstate \<Rightarrow> vmstate res" where
  "ustore_long host a w s = ustore host (at_addr a (long_bytes w)) s"

text \<open>\<^verbatim>\<open>strlen\<close> of a string of the program.\<close>

function ustrend :: "host \<Rightarrow> u64 \<Rightarrow> vmstate \<Rightarrow> (u64 \<times> vmstate) res" where
  "ustrend host p s =
     bind_res (uload8 host p s)
       (\<lambda>(c, s). if c \<noteq> 0 then advance 1 p (\<lambda>p. ustrend host p s) else Inr (p, s))"
  by pat_completeness auto

termination ustrend
  by (relation "measure (\<lambda>(host, p, s). 2 ^ 64 - unat p)") (auto intro!: advance_measure)

declare ustrend.simps [simp del]

definition ustrlen :: "host \<Rightarrow> vmstate measure" where
  "ustrlen host a s = bind_res (ustrend host a s) (\<lambda>(e, s). Inr (e - a, s))"

section \<open>The console\<close>

text \<open>\<^verbatim>\<open>vprintk\<close> formats into a buffer of 256 bytes on the kernel's stack and writes it to the
  host's standard error, entry 2 of the file table.\<close>

definition vprintk :: "kenv \<Rightarrow> u8 list \<Rightarrow> u64 list \<Rightarrow> vmstate \<Rightarrow> vmstate res" where
  "vprintk env fmt va s =
     bind_res (vsnprintf (\<lambda>a. pmem s (va2pa s a)) (bytes_at (pmem s) (e_out env) 256) 256 fmt va)
       (\<lambda>(r, out).
          let s = s\<lparr>pmem := (\<lambda>a. if a - e_out env < 256 then out ! unat (a - e_out env) else pmem s a)\<rparr>
          in bind_res (file_write (e_host env) (populate_mapping (e_host env)) 2 (e_out env)
                 (if scast r < (256 :: u64) then scast r else 256) s)
               (\<lambda>(_, s). Inr s))"

definition printk :: "kenv \<Rightarrow> u8 list \<Rightarrow> u64 list \<Rightarrow> vmstate \<Rightarrow> vmstate res" where
  "printk env fmt va s = vprintk env fmt va s"

text \<open>\<^verbatim>\<open>do_panic\<close> prints and shuts down with -1; the run ends, as it ends in \<^verbatim>\<open>kassert_fail\<close>.\<close>

definition do_panic :: "kenv \<Rightarrow> u8 list \<Rightarrow> u64 list \<Rightarrow> vmstate \<Rightarrow> 'b res" where
  "do_panic env fmt va s = bind_res (vprintk env fmt va s) (\<lambda>s. shutdown (-1))"

section \<open>The calls\<close>

abbreviation (input) SYS_exit_group :: u64 where "SYS_exit_group \<equiv> 94"
abbreviation (input) SYS_getpid :: u64 where "SYS_getpid \<equiv> 172"
abbreviation (input) SYS_kill :: u64 where "SYS_kill \<equiv> 129"
abbreviation (input) SYS_brk :: u64 where "SYS_brk \<equiv> 214"
abbreviation (input) SYS_linkat :: u64 where "SYS_linkat \<equiv> 37"
abbreviation (input) SYS_unlinkat :: u64 where "SYS_unlinkat \<equiv> 35"
abbreviation (input) SYS_mkdirat :: u64 where "SYS_mkdirat \<equiv> 34"
abbreviation (input) SYS_renameat :: u64 where "SYS_renameat \<equiv> 38"
abbreviation (input) SYS_chdir :: u64 where "SYS_chdir \<equiv> 49"
abbreviation (input) SYS_getcwd :: u64 where "SYS_getcwd \<equiv> 17"
abbreviation (input) SYS_fstatat :: u64 where "SYS_fstatat \<equiv> 79"
abbreviation (input) SYS_faccessat :: u64 where "SYS_faccessat \<equiv> 48"
abbreviation (input) SYS_uname :: u64 where "SYS_uname \<equiv> 160"
abbreviation (input) SYS_getuid :: u64 where "SYS_getuid \<equiv> 174"
abbreviation (input) SYS_geteuid :: u64 where "SYS_geteuid \<equiv> 175"
abbreviation (input) SYS_getgid :: u64 where "SYS_getgid \<equiv> 176"
abbreviation (input) SYS_getegid :: u64 where "SYS_getegid \<equiv> 177"
abbreviation (input) SYS_mmap :: u64 where "SYS_mmap \<equiv> 222"
abbreviation (input) SYS_munmap :: u64 where "SYS_munmap \<equiv> 215"
abbreviation (input) SYS_mremap :: u64 where "SYS_mremap \<equiv> 216"
abbreviation (input) SYS_mprotect :: u64 where "SYS_mprotect \<equiv> 226"
abbreviation (input) SYS_prlimit64 :: u64 where "SYS_prlimit64 \<equiv> 261"
abbreviation (input) SYS_getmainvars :: u64 where "SYS_getmainvars \<equiv> 2011"
abbreviation (input) SYS_rt_sigaction :: u64 where "SYS_rt_sigaction \<equiv> 134"
abbreviation (input) SYS_writev :: u64 where "SYS_writev \<equiv> 66"
abbreviation (input) SYS_gettimeofday :: u64 where "SYS_gettimeofday \<equiv> 169"
abbreviation (input) SYS_times :: u64 where "SYS_times \<equiv> 153"
abbreviation (input) SYS_fcntl :: u64 where "SYS_fcntl \<equiv> 25"
abbreviation (input) SYS_getdents :: u64 where "SYS_getdents \<equiv> 61"
abbreviation (input) SYS_dup :: u64 where "SYS_dup \<equiv> 23"
abbreviation (input) SYS_readlinkat :: u64 where "SYS_readlinkat \<equiv> 78"
abbreviation (input) SYS_rt_sigprocmask :: u64 where "SYS_rt_sigprocmask \<equiv> 135"
abbreviation (input) SYS_ioctl :: u64 where "SYS_ioctl \<equiv> 29"
abbreviation (input) SYS_getrlimit :: u64 where "SYS_getrlimit \<equiv> 163"
abbreviation (input) SYS_setrlimit :: u64 where "SYS_setrlimit \<equiv> 164"
abbreviation (input) SYS_getrusage :: u64 where "SYS_getrusage \<equiv> 165"
abbreviation (input) SYS_clock_gettime :: u64 where "SYS_clock_gettime \<equiv> 113"
abbreviation (input) SYS_set_tid_address :: u64 where "SYS_set_tid_address \<equiv> 96"
abbreviation (input) SYS_set_robust_list :: u64 where "SYS_set_robust_list \<equiv> 99"
definition OLD_SYSCALL_THRESHOLD :: u64 where "OLD_SYSCALL_THRESHOLD = 1024"
abbreviation (input) SYS_open :: u64 where "SYS_open \<equiv> 1024"
abbreviation (input) SYS_link :: u64 where "SYS_link \<equiv> 1025"
abbreviation (input) SYS_unlink :: u64 where "SYS_unlink \<equiv> 1026"
abbreviation (input) SYS_mkdir :: u64 where "SYS_mkdir \<equiv> 1030"
abbreviation (input) SYS_access :: u64 where "SYS_access \<equiv> 1033"
abbreviation (input) SYS_stat :: u64 where "SYS_stat \<equiv> 1038"
abbreviation (input) SYS_lstat :: u64 where "SYS_lstat \<equiv> 1039"
abbreviation (input) SYS_time :: u64 where "SYS_time \<equiv> 1062"

definition CLOCK_FREQ :: u64 where "CLOCK_FREQ = 1000000000"

definition sys_exit :: "kenv \<Rightarrow> u32 \<Rightarrow> vmstate \<Rightarrow> 'b res" where
  "sys_exit env code s =
     bind_res
       (if cycle0 (current s) \<noteq> 0 then
          let dt = e_time env - time0 (current s);
              dc = e_cycle env - cycle0 (current s);
              di = e_instret env - instret0 (current s)
          in bind_res (printk env (lit ''%ld ticks\<newline>'') [dt] s)
               (\<lambda>s. bind_res (printk env (lit ''%ld cycles\<newline>'') [dc] s)
                 (\<lambda>s. bind_res (printk env (lit ''%ld instructions\<newline>'') [di] s)
                   (\<lambda>s. if di = 0 then Inl Undefined
                        else printk env (lit ''%d.%d%d CPI\<newline>'')
                               [dc div di, 10 * dc div di mod 10, (100 * dc + di div 2) div di mod 10] s)))
        else Inr s)
       (\<lambda>s. shutdown code)"

text \<open>The pattern of the calls on an open descriptor: borrow the file, work, give it back.\<close>

definition with_file ::
  "kenv \<Rightarrow> u32 \<Rightarrow> 'b \<Rightarrow> (nat \<Rightarrow> vmstate \<Rightarrow> ('b \<times> vmstate) res) \<Rightarrow> vmstate \<Rightarrow> ('b \<times> vmstate) res" where
  "with_file env fd bad work s =
     (case file_get fd s of
        (None, s) \<Rightarrow> Inr (bad, s)
      | (Some f, s) \<Rightarrow>
          bind_res (work f s) (\<lambda>(r, s). bind_res (file_decref (e_host env) f s) (\<lambda>s. Inr (r, s))))"

definition sys_read :: "kenv \<Rightarrow> u32 \<Rightarrow> u64 \<Rightarrow> u64 \<Rightarrow> vmstate \<Rightarrow> (u64 \<times> vmstate) res" where
  "sys_read env fd buf n =
     with_file env fd (- EBADF) (\<lambda>f. file_read (e_host env) (populate_mapping (e_host env)) f buf n)"

definition sys_pread :: "kenv \<Rightarrow> u32 \<Rightarrow> u64 \<Rightarrow> u64 \<Rightarrow> u64 \<Rightarrow> vmstate \<Rightarrow> (u64 \<times> vmstate) res" where
  "sys_pread env fd buf n offset =
     with_file env fd (- EBADF) (\<lambda>f. file_pread (e_host env) (populate_mapping (e_host env)) f buf n offset)"

definition sys_write :: "kenv \<Rightarrow> u32 \<Rightarrow> u64 \<Rightarrow> u64 \<Rightarrow> vmstate \<Rightarrow> (u64 \<times> vmstate) res" where
  "sys_write env fd buf n =
     with_file env fd (- EBADF) (\<lambda>f. file_write (e_host env) (populate_mapping (e_host env)) f buf n)"

definition at_kfd :: "u32 \<Rightarrow> vmstate \<Rightarrow> u32 \<times> vmstate" where
  "at_kfd dirfd s =
     (if dirfd = AT_FDCWD then (AT_FDCWD, s)
      else case file_get dirfd s of (None, s) \<Rightarrow> (-1, s) | (Some dir, s) \<Rightarrow> (kfd (files s ! dir), s))"

definition sys_openat :: "kenv \<Rightarrow> u32 \<Rightarrow> u64 \<Rightarrow> u32 \<Rightarrow> u32 \<Rightarrow> vmstate \<Rightarrow> (u32 \<times> vmstate) res" where
  "sys_openat env dirfd name flags mode s =
     (case at_kfd dirfd s of
        (k, s) \<Rightarrow>
          if k \<noteq> -1 then
            bind_res (file_openat (e_host env) (ustrlen (e_host env)) k name flags mode s)
              (\<lambda>(r, s). case r of
                 Inl err \<Rightarrow> if IS_ERR_VALUE err then Inr (ucast err, s) else Inl BadAccess
               | Inr f \<Rightarrow>
                   bind_res (file_dup f s)
                     (\<lambda>(fd, s). if sint fd < 0
                        then bind_res (file_decref (e_host env) f s) (\<lambda>s. Inr (- ucast ENOMEM, s))
                        else Inr (fd, s)))
          else Inr (- ucast EBADF, s))"

definition sys_open :: "kenv \<Rightarrow> u64 \<Rightarrow> u32 \<Rightarrow> u32 \<Rightarrow> vmstate \<Rightarrow> (u32 \<times> vmstate) res" where
  "sys_open env name flags mode = sys_openat env AT_FDCWD name flags mode"

definition sys_close :: "kenv \<Rightarrow> u32 \<Rightarrow> vmstate \<Rightarrow> (u32 \<times> vmstate) res" where
  "sys_close env fd s =
     bind_res (fd_close (e_host env) fd s) (\<lambda>(r, s). Inr (if sint r < 0 then - ucast EBADF else r, s))"

text \<open>A host request with the physical address and the size of one name of the program.\<close>

definition name_request ::
  "kenv \<Rightarrow> u64 \<Rightarrow> (u64 \<Rightarrow> u64 \<Rightarrow> vmstate \<Rightarrow> u64 \<times> vmstate) \<Rightarrow> vmstate \<Rightarrow> (u64 \<times> vmstate) res" where
  "name_request env name req s =
     bind_res (ustrlen (e_host env) name s) (\<lambda>(n, s). Inr (req (va2pa s name) (n + 1) s))"

definition sys_renameat ::
  "kenv \<Rightarrow> u32 \<Rightarrow> u64 \<Rightarrow> u32 \<Rightarrow> u64 \<Rightarrow> vmstate \<Rightarrow> (u32 \<times> vmstate) res" where
  "sys_renameat env old_fd old_path new_fd new_path s =
     (let (old_kfd, s) = at_kfd old_fd s; (new_kfd, s) = at_kfd new_fd s
      in if old_kfd \<noteq> -1 \<and> new_kfd \<noteq> -1 then
           bind_res (ustrlen (e_host env) old_path s)
             (\<lambda>(m, s). bind_res (ustrlen (e_host env) new_path s)
                (\<lambda>(n, s). let (r, s) = frontend_syscall (e_host env) SYS_renameat (scast old_kfd) (va2pa s old_path) (m + 1)
                                (scast new_kfd) (va2pa s new_path) (n + 1) 0 s
                          in Inr (ucast r, s)))
         else Inr (- ucast EBADF, s))"

text \<open>The bytes \<^verbatim>\<open>copy_stat\<close> stores at \<^verbatim>\<open>st\<close>, from the buffer the host has filled.\<close>

definition store_stat :: "kenv \<Rightarrow> u64 \<Rightarrow> stat \<Rightarrow> vmstate \<Rightarrow> vmstate res" where
  "store_stat env st x s = ustore (e_host env) (map (\<lambda>(off, b). (st + off, b)) (e_layout env x)) s"

definition sys_fstat :: "kenv \<Rightarrow> u32 \<Rightarrow> u64 \<Rightarrow> vmstate \<Rightarrow> (u32 \<times> vmstate) res" where
  "sys_fstat env fd st =
     with_file env fd (- ucast EBADF)
       (\<lambda>f s. let ((r, x), s) = file_stat (e_host env) (e_buf env) f s
              in bind_res (store_stat env st x s) (\<lambda>s. Inr (r, s)))"

definition sys_fcntl :: "kenv \<Rightarrow> u32 \<Rightarrow> u32 \<Rightarrow> u32 \<Rightarrow> vmstate \<Rightarrow> (u32 \<times> vmstate) res" where
  "sys_fcntl env fd cmd arg =
     with_file env fd (- ucast EBADF)
       (\<lambda>f s. let (r, s) = frontend_syscall (e_host env) SYS_fcntl (scast (kfd (files s ! f))) (scast cmd) (scast arg) 0 0 0 0 s
              in Inr (ucast r, s))"

definition sys_ftruncate :: "kenv \<Rightarrow> u32 \<Rightarrow> u64 \<Rightarrow> vmstate \<Rightarrow> (u32 \<times> vmstate) res" where
  "sys_ftruncate env fd len =
     with_file env fd (- ucast EBADF) (\<lambda>f s. Inr (file_truncate (e_host env) f len s))"

definition sys_dup :: "kenv \<Rightarrow> u32 \<Rightarrow> vmstate \<Rightarrow> (u32 \<times> vmstate) res" where
  "sys_dup env fd = with_file env fd (- ucast EBADF) file_dup"

definition sys_lseek :: "kenv \<Rightarrow> u32 \<Rightarrow> u64 \<Rightarrow> u32 \<Rightarrow> vmstate \<Rightarrow> (u64 \<times> vmstate) res" where
  "sys_lseek env fd ptr dir =
     with_file env fd (- EBADF) (\<lambda>f s. Inr (file_lseek (e_host env) f ptr dir s))"

text \<open>The calls that name a file: the request, then the \<^verbatim>\<open>stat\<close> buffer for the two that fill one.\<close>

definition stat_request :: "kenv \<Rightarrow> u64 \<Rightarrow> (u64 \<times> vmstate) res \<Rightarrow> (u64 \<times> vmstate) res" where
  "stat_request env st m =
     bind_res m
       (\<lambda>(r, s). bind_res
          (store_stat env st (copy_stat (read_frontend_stat (pmem s) (va2pa s (e_buf env)))) s)
          (\<lambda>s. Inr (r, s)))"

definition sys_lstat :: "kenv \<Rightarrow> u64 \<Rightarrow> u64 \<Rightarrow> vmstate \<Rightarrow> (u64 \<times> vmstate) res" where
  "sys_lstat env name st s =
     stat_request env st
       (name_request env name
          (\<lambda>pa n s. frontend_syscall (e_host env) SYS_lstat pa n (va2pa s (e_buf env)) 0 0 0 0 s) s)"

text \<open>The calls relative to a directory.\<close>

definition with_dir ::
  "u32 \<Rightarrow> (u32 \<Rightarrow> vmstate \<Rightarrow> (u64 \<times> vmstate) res) \<Rightarrow> vmstate \<Rightarrow> (u64 \<times> vmstate) res" where
  "with_dir dirfd work s = (let (k, s) = at_kfd dirfd s in if k \<noteq> -1 then work k s else Inr (- EBADF, s))"

definition sys_fstatat :: "kenv \<Rightarrow> u32 \<Rightarrow> u64 \<Rightarrow> u64 \<Rightarrow> u32 \<Rightarrow> vmstate \<Rightarrow> (u64 \<times> vmstate) res" where
  "sys_fstatat env dirfd name st flags =
     with_dir dirfd
       (\<lambda>k s. stat_request env st
          (name_request env name
             (\<lambda>pa n s. frontend_syscall (e_host env) SYS_fstatat (scast k) pa n (va2pa s (e_buf env)) (scast flags) 0 0 s) s))"

definition sys_stat :: "kenv \<Rightarrow> u64 \<Rightarrow> u64 \<Rightarrow> vmstate \<Rightarrow> (u64 \<times> vmstate) res" where
  "sys_stat env name st = sys_fstatat env AT_FDCWD name st 0"

definition sys_faccessat :: "kenv \<Rightarrow> u32 \<Rightarrow> u64 \<Rightarrow> u32 \<Rightarrow> vmstate \<Rightarrow> (u64 \<times> vmstate) res" where
  "sys_faccessat env dirfd name mode =
     with_dir dirfd
       (\<lambda>k. name_request env name
          (\<lambda>pa n. frontend_syscall (e_host env) SYS_faccessat (scast k) pa n (scast mode) 0 0 0))"

definition sys_access :: "kenv \<Rightarrow> u64 \<Rightarrow> u32 \<Rightarrow> vmstate \<Rightarrow> (u64 \<times> vmstate) res" where
  "sys_access env name mode = sys_faccessat env AT_FDCWD name mode"

definition sys_linkat ::
  "kenv \<Rightarrow> u32 \<Rightarrow> u64 \<Rightarrow> u32 \<Rightarrow> u64 \<Rightarrow> u32 \<Rightarrow> vmstate \<Rightarrow> (u64 \<times> vmstate) res" where
  "sys_linkat env old_dirfd old_name new_dirfd new_name flags s =
     (let (old_kfd, s) = at_kfd old_dirfd s; (new_kfd, s) = at_kfd new_dirfd s
      in if old_kfd \<noteq> -1 \<and> new_kfd \<noteq> -1 then
           bind_res (ustrlen (e_host env) old_name s)
             (\<lambda>(m, s). bind_res (ustrlen (e_host env) new_name s)
                (\<lambda>(n, s). Inr (frontend_syscall (e_host env) SYS_linkat (scast old_kfd) (va2pa s old_name) (m + 1)
                                (scast new_kfd) (va2pa s new_name) (n + 1) (scast flags) s)))
         else Inr (- EBADF, s))"

definition sys_link :: "kenv \<Rightarrow> u64 \<Rightarrow> u64 \<Rightarrow> vmstate \<Rightarrow> (u64 \<times> vmstate) res" where
  "sys_link env old_name new_name = sys_linkat env AT_FDCWD old_name AT_FDCWD new_name 0"

definition sys_unlinkat :: "kenv \<Rightarrow> u32 \<Rightarrow> u64 \<Rightarrow> u32 \<Rightarrow> vmstate \<Rightarrow> (u64 \<times> vmstate) res" where
  "sys_unlinkat env dirfd name flags =
     with_dir dirfd
       (\<lambda>k. name_request env name
          (\<lambda>pa n. frontend_syscall (e_host env) SYS_unlinkat (scast k) pa n (scast flags) 0 0 0))"

definition sys_unlink :: "kenv \<Rightarrow> u64 \<Rightarrow> vmstate \<Rightarrow> (u64 \<times> vmstate) res" where
  "sys_unlink env name = sys_unlinkat env AT_FDCWD name 0"

definition sys_mkdirat :: "kenv \<Rightarrow> u32 \<Rightarrow> u64 \<Rightarrow> u32 \<Rightarrow> vmstate \<Rightarrow> (u64 \<times> vmstate) res" where
  "sys_mkdirat env dirfd name mode =
     with_dir dirfd
       (\<lambda>k. name_request env name
          (\<lambda>pa n. frontend_syscall (e_host env) SYS_mkdirat (scast k) pa n (scast mode) 0 0 0))"

definition sys_mkdir :: "kenv \<Rightarrow> u64 \<Rightarrow> u32 \<Rightarrow> vmstate \<Rightarrow> (u64 \<times> vmstate) res" where
  "sys_mkdir env name mode = sys_mkdirat env AT_FDCWD name mode"

definition sys_getcwd :: "kenv \<Rightarrow> u64 \<Rightarrow> u64 \<Rightarrow> vmstate \<Rightarrow> (u64 \<times> vmstate) res" where
  "sys_getcwd env buf n s =
     bind_res (populate_mapping (e_host env) buf n PROT_WRITE s)
       (\<lambda>s. Inr (frontend_syscall (e_host env) SYS_getcwd (va2pa s buf) n 0 0 0 0 0 s))"

definition sys_brk :: "kenv \<Rightarrow> u64 \<Rightarrow> vmstate \<Rightarrow> (u64 \<times> vmstate) res" where
  "sys_brk env pos = do_brk (e_host env) pos"

definition sys_uname :: "kenv \<Rightarrow> u64 \<Rightarrow> vmstate \<Rightarrow> (u32 \<times> vmstate) res" where
  "sys_uname env buf s =
     bind_res
       (ustore (e_host env)
          (at_addr buf (lit ''Proxy Kernel'' @ [0]) @ at_addr (buf + 65) [0] @
           at_addr (buf + 130) (lit ''4.15.0'' @ [0]) @ at_addr (buf + 195) [0] @
           at_addr (buf + 260) [0] @ at_addr (buf + 325) [0]) s)
       (\<lambda>s. Inr (0, s))"

definition sys_getpid :: "vmstate \<Rightarrow> (u32 \<times> vmstate) res" where
  "sys_getpid s = Inr (0, s)"

definition sys_getuid :: "vmstate \<Rightarrow> (u32 \<times> vmstate) res" where
  "sys_getuid s = Inr (0, s)"

definition sys_mmap :: "kenv \<Rightarrow> u64 \<Rightarrow> u64 \<Rightarrow> u32 \<Rightarrow> u32 \<Rightarrow> u32 \<Rightarrow> u64 \<Rightarrow> vmstate \<Rightarrow> (u64 \<times> vmstate) res" where
  "sys_mmap env addr len prot flags fd offset = do_mmap (e_host env) addr len prot flags fd offset"

text \<open>\<^verbatim>\<open>do_munmap\<close> returns an \<^verbatim>\<open>int\<close>; its values 0 and -EINVAL extend to the same \<^verbatim>\<open>long\<close>.\<close>

definition sys_munmap :: "kenv \<Rightarrow> u64 \<Rightarrow> u64 \<Rightarrow> vmstate \<Rightarrow> (u32 \<times> vmstate) res" where
  "sys_munmap env addr len s = bind_res (do_munmap (e_host env) addr len s) (\<lambda>(r, s). Inr (ucast r, s))"

definition sys_mremap :: "kenv \<Rightarrow> u64 \<Rightarrow> u64 \<Rightarrow> u64 \<Rightarrow> u32 \<Rightarrow> vmstate \<Rightarrow> (u64 \<times> vmstate) res" where
  "sys_mremap env addr old_size new_size flags s = Inr (do_mremap addr old_size new_size flags, s)"

definition sys_mprotect :: "kenv \<Rightarrow> u64 \<Rightarrow> u64 \<Rightarrow> u32 \<Rightarrow> vmstate \<Rightarrow> (u64 \<times> vmstate) res" where
  "sys_mprotect env addr len prot = do_mprotect addr len prot"

definition sys_rt_sigaction :: "kenv \<Rightarrow> u32 \<Rightarrow> u64 \<Rightarrow> u64 \<Rightarrow> u64 \<Rightarrow> vmstate \<Rightarrow> (u32 \<times> vmstate) res" where
  "sys_rt_sigaction env sig act oact sssz s =
     bind_res (if oact \<noteq> 0 then ustore (e_host env) (at_addr oact (replicate 24 0)) s else Inr s) (\<lambda>s. Inr (0, s))"

definition sys_time :: "kenv \<Rightarrow> u64 \<Rightarrow> vmstate \<Rightarrow> (u64 \<times> vmstate) res" where
  "sys_time env loc s =
     (let t = e_cycle env div CLOCK_FREQ
      in bind_res (if loc \<noteq> 0 then ustore_long (e_host env) loc t s else Inr s) (\<lambda>s. Inr (t, s)))"

definition sys_times :: "kenv \<Rightarrow> u64 \<Rightarrow> vmstate \<Rightarrow> (u32 \<times> vmstate) res" where
  "sys_times env loc s =
     (let t = e_cycle env
      in kassert (CLOCK_FREQ mod 1000000 = 0)
           (bind_res (ustore_long (e_host env) loc (t div (CLOCK_FREQ div 1000000)) s)
              (\<lambda>s. bind_res (ustore_long (e_host env) (loc + 8) 0 s)
                 (\<lambda>s. bind_res (ustore_long (e_host env) (loc + 16) 0 s)
                    (\<lambda>s. bind_res (ustore_long (e_host env) (loc + 24) 0 s) (\<lambda>s. Inr (0, s)))))))"

definition sys_gettimeofday :: "kenv \<Rightarrow> u64 \<Rightarrow> vmstate \<Rightarrow> (u32 \<times> vmstate) res" where
  "sys_gettimeofday env loc s =
     (let t = e_cycle env
      in bind_res (ustore_long (e_host env) loc (t div CLOCK_FREQ) s)
           (\<lambda>s. bind_res (ustore_long (e_host env) (loc + 8) ((t mod CLOCK_FREQ) div (CLOCK_FREQ div 1000000)) s)
              (\<lambda>s. Inr (0, s))))"

text \<open>\<^verbatim>\<open>k\<close> entries of the vector remain, the next one at \<^verbatim>\<open>iov\<close>.\<close>

fun writev_loop :: "kenv \<Rightarrow> u32 \<Rightarrow> u64 \<Rightarrow> nat \<Rightarrow> u64 \<Rightarrow> vmstate \<Rightarrow> (u64 \<times> vmstate) res" where
  "writev_loop env fd iov 0 ret s = Inr (ret, s)"
| "writev_loop env fd iov (Suc k) ret s =
     bind_res (uload_long (e_host env) iov s)
       (\<lambda>(base, s). bind_res (uload_long (e_host env) (iov + 8) s)
          (\<lambda>(len, s). bind_res (sys_write env fd base len s)
             (\<lambda>(r, s). if sint r < 0 then Inr (r, s) else writev_loop env fd (iov + 16) k (ret + r) s)))"

definition sys_writev :: "kenv \<Rightarrow> u32 \<Rightarrow> u64 \<Rightarrow> u32 \<Rightarrow> vmstate \<Rightarrow> (u64 \<times> vmstate) res" where
  "sys_writev env fd iov cnt s = writev_loop env fd iov (nat (sint cnt)) 0 s"

definition sys_chdir :: "kenv \<Rightarrow> u64 \<Rightarrow> vmstate \<Rightarrow> (u32 \<times> vmstate) res" where
  "sys_chdir env path s =
     (let (r, s) = frontend_syscall (e_host env) SYS_chdir (va2pa s path) 0 0 0 0 0 0 s in Inr (ucast r, s))"

definition sys_getdents :: "u32 \<Rightarrow> u64 \<Rightarrow> u32 \<Rightarrow> vmstate \<Rightarrow> (u32 \<times> vmstate) res" where
  "sys_getdents fd dirbuf cnt s = Inr (0, s)"

definition sys_stub_success :: "vmstate \<Rightarrow> (u32 \<times> vmstate) res" where
  "sys_stub_success s = Inr (0, s)"

definition sys_stub_nosys :: "vmstate \<Rightarrow> (u32 \<times> vmstate) res" where
  "sys_stub_nosys s = Inr (- ucast ENOSYS, s)"

section \<open>Dispatch\<close>

text \<open>An \<^verbatim>\<open>int\<close> in a register is the sign extension of its 32 bits; as an argument, the low half counts.\<close>

definition ret_int :: "(u32 \<times> vmstate) res \<Rightarrow> (u64 \<times> vmstate) res" where
  "ret_int m = bind_res m (\<lambda>(r, s). Inr (scast r, s))"

type_synonym syscall_t = "vmstate \<Rightarrow> (u64 \<times> vmstate) res"

definition syscall_table :: "kenv \<Rightarrow> u64 \<Rightarrow> u64 \<Rightarrow> u64 \<Rightarrow> u64 \<Rightarrow> u64 \<Rightarrow> u64 \<Rightarrow> (u64 \<times> syscall_t) list" where
  "syscall_table env a0 a1 a2 a3 a4 a5 =
    [(SYS_exit, sys_exit env (ucast a0)),
     (SYS_exit_group, sys_exit env (ucast a0)),
     (SYS_read, sys_read env (ucast a0) a1 a2),
     (SYS_pread, sys_pread env (ucast a0) a1 a2 a3),
     (SYS_write, sys_write env (ucast a0) a1 a2),
     (SYS_openat, \<lambda>s. ret_int (sys_openat env (ucast a0) a1 (ucast a2) (ucast a3) s)),
     (SYS_close, \<lambda>s. ret_int (sys_close env (ucast a0) s)),
     (SYS_fstat, \<lambda>s. ret_int (sys_fstat env (ucast a0) a1 s)),
     (SYS_lseek, sys_lseek env (ucast a0) a1 (ucast a2)),
     (SYS_fstatat, sys_fstatat env (ucast a0) a1 a2 (ucast a3)),
     (SYS_linkat, sys_linkat env (ucast a0) a1 (ucast a2) a3 (ucast a4)),
     (SYS_unlinkat, sys_unlinkat env (ucast a0) a1 (ucast a2)),
     (SYS_mkdirat, sys_mkdirat env (ucast a0) a1 (ucast a2)),
     (SYS_renameat, \<lambda>s. ret_int (sys_renameat env (ucast a0) a1 (ucast a2) a3 s)),
     (SYS_getcwd, sys_getcwd env a0 a1),
     (SYS_brk, sys_brk env a0),
     (SYS_uname, \<lambda>s. ret_int (sys_uname env a0 s)),
     (SYS_getpid, \<lambda>s. ret_int (sys_getpid s)),
     (SYS_getuid, \<lambda>s. ret_int (sys_getuid s)),
     (SYS_geteuid, \<lambda>s. ret_int (sys_getuid s)),
     (SYS_getgid, \<lambda>s. ret_int (sys_getuid s)),
     (SYS_getegid, \<lambda>s. ret_int (sys_getuid s)),
     (SYS_mmap, sys_mmap env a0 a1 (ucast a2) (ucast a3) (ucast a4) a5),
     (SYS_munmap, \<lambda>s. ret_int (sys_munmap env a0 a1 s)),
     (SYS_mremap, sys_mremap env a0 a1 a2 (ucast a3)),
     (SYS_mprotect, sys_mprotect env a0 a1 (ucast a2)),
     (SYS_prlimit64, \<lambda>s. ret_int (sys_stub_nosys s)),
     (SYS_rt_sigaction, \<lambda>s. ret_int (sys_rt_sigaction env (ucast a0) a1 a2 a3 s)),
     (SYS_gettimeofday, \<lambda>s. ret_int (sys_gettimeofday env a0 s)),
     (SYS_times, \<lambda>s. ret_int (sys_times env a0 s)),
     (SYS_writev, sys_writev env (ucast a0) a1 (ucast a2)),
     (SYS_faccessat, sys_faccessat env (ucast a0) a1 (ucast a2)),
     (SYS_fcntl, \<lambda>s. ret_int (sys_fcntl env (ucast a0) (ucast a1) (ucast a2) s)),
     (SYS_ftruncate, \<lambda>s. ret_int (sys_ftruncate env (ucast a0) a1 s)),
     (SYS_getdents, \<lambda>s. ret_int (sys_getdents (ucast a0) a1 (ucast a2) s)),
     (SYS_dup, \<lambda>s. ret_int (sys_dup env (ucast a0) s)),
     (SYS_readlinkat, \<lambda>s. ret_int (sys_stub_nosys s)),
     (SYS_rt_sigprocmask, \<lambda>s. ret_int (sys_stub_success s)),
     (SYS_ioctl, \<lambda>s. ret_int (sys_stub_nosys s)),
     (SYS_clock_gettime, \<lambda>s. ret_int (sys_stub_nosys s)),
     (SYS_getrusage, \<lambda>s. ret_int (sys_stub_nosys s)),
     (SYS_getrlimit, \<lambda>s. ret_int (sys_stub_nosys s)),
     (SYS_setrlimit, \<lambda>s. ret_int (sys_stub_nosys s)),
     (SYS_chdir, \<lambda>s. ret_int (sys_chdir env a0 s)),
     (SYS_set_tid_address, \<lambda>s. ret_int (sys_stub_nosys s)),
     (SYS_set_robust_list, \<lambda>s. ret_int (sys_stub_nosys s))]"

definition old_syscall_table :: "kenv \<Rightarrow> u64 \<Rightarrow> u64 \<Rightarrow> u64 \<Rightarrow> (u64 \<times> syscall_t) list" where
  "old_syscall_table env a0 a1 a2 =
    [(- OLD_SYSCALL_THRESHOLD + SYS_open, \<lambda>s. ret_int (sys_open env a0 (ucast a1) (ucast a2) s)),
     (- OLD_SYSCALL_THRESHOLD + SYS_link, sys_link env a0 a1),
     (- OLD_SYSCALL_THRESHOLD + SYS_unlink, sys_unlink env a0),
     (- OLD_SYSCALL_THRESHOLD + SYS_mkdir, sys_mkdir env a0 (ucast a1)),
     (- OLD_SYSCALL_THRESHOLD + SYS_access, sys_access env a0 (ucast a1)),
     (- OLD_SYSCALL_THRESHOLD + SYS_stat, sys_stat env a0 a1),
     (- OLD_SYSCALL_THRESHOLD + SYS_lstat, sys_lstat env a0 a1),
     (- OLD_SYSCALL_THRESHOLD + SYS_time, sys_time env a0)]"

text \<open>The tables have 262 and 39 entries; an entry without a function is a null pointer.\<close>

definition do_syscall ::
  "kenv \<Rightarrow> u64 \<Rightarrow> u64 \<Rightarrow> u64 \<Rightarrow> u64 \<Rightarrow> u64 \<Rightarrow> u64 \<Rightarrow> u64 \<Rightarrow> vmstate \<Rightarrow> (u64 \<times> vmstate) res" where
  "do_syscall env a0 a1 a2 a3 a4 a5 n s =
     (let f = if n < 262 then map_of (syscall_table env a0 a1 a2 a3 a4 a5) n
              else if n - OLD_SYSCALL_THRESHOLD < 39
              then map_of (old_syscall_table env a0 a1 a2) (n - OLD_SYSCALL_THRESHOLD)
              else None
      in case f of
           None \<Rightarrow> do_panic env (lit ''bad syscall #%ld!\<newline>'') [n] s
         | Some f \<Rightarrow> f s)"

end
