(* ===== verification/Pk_Safety.thy ===== *)
theory Pk_Safety
  imports Pk_Syscall
begin

text \<open>
  Every system call of the proxy kernel, from a state in which the invariant of the file table,
  the regions and the page tables holds, ends in such a state or stops the machine on purpose:
  it never follows a bad reference of the kernel, takes a lock it holds or faults without end.
\<close>

section \<open>Results that satisfy a predicate\<close>

text \<open>The ways a run may stop that are not a fault of the kernel's own data structures.\<close>

fun proper_end :: "fault \<Rightarrow> bool" where
  "proper_end BadAccess = False"
| "proper_end Deadlock = False"
| "proper_end OutOfFuel = False"
| "proper_end _ = True"

definition res_sat :: "('b \<Rightarrow> bool) \<Rightarrow> 'b res \<Rightarrow> bool" where
  "res_sat Q r \<longleftrightarrow> (case r of Inl e \<Rightarrow> proper_end e | Inr y \<Rightarrow> Q y)"

lemma res_sat_simps [simp]:
  "res_sat Q (Inl e) = proper_end e"
  "res_sat Q (Inr y) = Q y"
  by (simp_all add: res_sat_def)

lemma res_sat_bind:
  assumes "res_sat Q m" and "\<And>y. Q y \<Longrightarrow> res_sat R (k y)"
  shows "res_sat R (bind_res m k)"
  using assms by (cases m) simp_all

lemma res_sat_bind2:
  assumes "res_sat (\<lambda>(v, s). Q v s) m" and "\<And>v s. Q v s \<Longrightarrow> res_sat R (k (v, s))"
  shows "res_sat R (bind_res m k)"
  using assms by (cases m) auto


section \<open>Memory accesses\<close>

text \<open>A step that keeps the state ready, whatever it returns.\<close>

definition keeps :: "(nat \<Rightarrow> nat) \<Rightarrow> ('b \<times> vmstate) res \<Rightarrow> bool" where
  "keeps x = res_sat (\<lambda>(_, s). vm_ready x s)"

named_theorems keeps_intros \<open>the steps that keep the state ready\<close>

lemma keeps_Inr [simp]: "keeps x (Inr (v, s)) \<longleftrightarrow> vm_ready x s"
  by (simp add: keeps_def)

lemma keeps_Inl [simp]: "keeps x (Inl e) \<longleftrightarrow> proper_end e"
  by (simp add: keeps_def)

lemma keeps_bind:
  assumes "keeps x m" and "\<And>v s. vm_ready x s \<Longrightarrow> keeps x (k (v, s))"
  shows "keeps x (bind_res m k)"
  using assms by (cases m) (auto simp: keeps_def)

lemma keeps_bind_state:
  assumes "res_sat (vm_ready x) m" and "\<And>s. vm_ready x s \<Longrightarrow> keeps x (k s)"
  shows "keeps x (bind_res m k)"
  using assms unfolding keeps_def by (rule res_sat_bind)

lemma vm_ready_mem_of: "mem_of s s' \<Longrightarrow> vm_ready x s' \<longleftrightarrow> vm_ready x s"
  by (auto elim!: mem_ofE simp: vm_ready_def mem_frame low_space_def)

lemma vm_ready_pmem [simp]: "vm_ready x (s\<lparr>pmem := m\<rparr>) \<longleftrightarrow> vm_ready x s"
  by (rule vm_ready_mem_of) (simp add: mem_of_def)

lemma vm_ready_frontend:
  "vm_ready x (snd (frontend_syscall host n a0 a1 a2 a3 a4 a5 a6 s)) \<longleftrightarrow> vm_ready x s"
  by (rule vm_ready_mem_of) (rule mem_of_frontend)


lemma keeps_frontend_int [keeps_intros]:
  "vm_ready x s \<Longrightarrow>
   keeps x (let (r, s) = frontend_syscall host n a0 a1 a2 a3 a4 a5 a6 s in Inr (g r, s))"
  using vm_ready_frontend [of x host n a0 a1 a2 a3 a4 a5 a6 s]
  by (cases "frontend_syscall host n a0 a1 a2 a3 a4 a5 a6 s") simp

lemma touch_ready:
  assumes "vm_ready x s"
  shows "res_sat (vm_ready x) (touch (handle_page_fault host) prot a s)"
proof -
  let ?p = "if prot AND PROT_WRITE \<noteq> 0 then PROT_WRITE else PROT_READ"
  have "res_sat (\<lambda>(r, s'). vm_ready x s') (handle_page_fault host a ?p s)"
    using handle_page_fault_spec [OF assms, where host = host and vaddr = a and prot = ?p]
    by (cases "handle_page_fault host a ?p s") auto
  then show ?thesis
    using assms by (auto simp: touch_def intro!: res_sat_bind2 [where Q = "\<lambda>_. vm_ready x"])
qed



lemma uload8_keeps [keeps_intros]: "vm_ready x s \<Longrightarrow> keeps x (uload8 host a s)"
  by (auto simp: uload8_def intro!: keeps_bind_state touch_ready)




lemma ustrend_keeps: "vm_ready x s \<Longrightarrow> keeps x (ustrend host p s)"
proof (induction host p s rule: ustrend.induct)
  case (1 host p s)
  have "keeps x (advance 1 p (\<lambda>p. ustrend host p s'))"
    if "vm_ready x s'" and "uload8 host p s = Inr (c, s')" and "c \<noteq> 0" for c s'
    using 1 that by (simp add: advance_def)
  then show ?case
    using uload8_keeps [OF 1(2), of host p]
    by (subst ustrend.simps) (cases "uload8 host p s", auto)
qed

lemma ustrlen_keeps [keeps_intros]: "vm_ready x s \<Longrightarrow> keeps x (ustrlen host a s)"
  unfolding ustrlen_def by (rule keeps_bind [OF ustrend_keeps]) auto

section \<open>Borrowed files\<close>

lemma vm_ready_vm_same:
  assumes "vm_ready x s" and "vm_same s s'" and "vm_inv x' (\<lambda>_. 0) s'" and "\<forall>f. x' f < 2 ^ 30"
  shows "vm_ready x' s'"
  using assms by (simp add: vm_ready_def vm_same_def low_space_def)

lemma file_get_ready:
  assumes ready: "vm_ready x s" and r: "file_get fd s = (Some f, s1)" and room: "\<forall>f. x f + 1 < 2 ^ 30"
  shows "f < MAX_FILES" and "vm_ready (x(f := Suc (x f))) s1"
proof -
  note g = file_get_vm [OF ready r]
  show "f < MAX_FILES" by (rule g(1))
  have "\<forall>g. (x(f := Suc (x f))) g < 2 ^ 30" using room by (auto intro: Suc_lessD)
  with ready g(2,3) show "vm_ready (x(f := Suc (x f))) s1" by (blast intro: vm_ready_vm_same)
qed

lemma file_decref_ready:
  assumes "vm_ready x s" and "f < MAX_FILES" and "x f = Suc n"
  shows "res_sat (vm_ready (x(f := n))) (file_decref host f s)"
proof -
  have inv: "vm_inv x (\<lambda>_. 0) s" and b: "\<forall>f. x f < 2 ^ 30" using assms(1) by (simp_all add: vm_ready_def)
  from file_decref_vm [OF inv assms(2,3), of host] obtain s'
    where s': "file_decref host f s = Inr s'" "vm_inv (x(f := n)) (\<lambda>_. 0) s'" "vm_same s s'" by blast
  have "\<forall>g. (x(f := n)) g < 2 ^ 30"
    using b [rule_format, of f] b assms(3) by (auto dest: Suc_lessD)
  with s' assms(1) show ?thesis by (auto intro: vm_ready_vm_same)
qed

lemma borrowed_live:
  assumes "vm_ready x s" and "f < MAX_FILES" and "0 < x f"
  shows "refcnt (files s ! f) \<noteq> 0" and "unat (refcnt (files s ! f)) + 1 < 2 ^ 32"
    and "file_inv (\<lambda>f. x f + file_holds s f) s"
proof -
  have inv: "vm_inv x (\<lambda>_. 0) s" using assms(1) by (simp add: vm_ready_def)
  then show finv: "file_inv (\<lambda>f. x f + file_holds s f) s" by (simp add: vm_inv_def)
  show "refcnt (files s ! f) \<noteq> 0"
    using file_inv_ok [OF finv assms(2)] assms(3) by (auto simp: file_ok_def)
  show "unat (refcnt (files s ! f)) + 1 < 2 ^ 32" by (rule file_room [OF inv assms(2)])
qed

lemma vm_same_fds [simp]: "vm_same s (s\<lparr>fds := l\<rparr>)"
  by (simp add: vm_same_def)

lemma file_dup_keeps:
  assumes ready: "vm_ready x s" and f: "f < MAX_FILES" "0 < x f"
  shows "keeps x (file_dup f s)"
proof (cases "find_from 0 (\<lambda>p. p = None) (fds s)")
  case None
  then show ?thesis using ready by (simp add: file_dup_def)
next
  case (Some i)
  note l = borrowed_live [OF assms]
  let ?s = "set_refcnt f (refcnt (files s ! f) + 1) (s\<lparr>fds := (fds s)[i := Some f]\<rparr>)"
  have eq: "file_dup f s = Inr (of_nat i, ?s)" by (rule file_dup_Some [OF l(3) f(1) l(1) Some])
  have same: "vm_same s ?s" by (simp add: vm_same_def)
  have fi: "file_inv (\<lambda>f. x f + file_holds s f) ?s" by (rule file_dup_inv [OF l(3) f(1) l(1,2) eq])
  have inv: "vm_inv x (\<lambda>_. 0) s" and xb: "\<forall>f. x f < 2 ^ 31" using ready by (simp_all add: vm_ready_def vm_inv_def)
  have "vm_inv x (\<lambda>_. 0) ?s" by (rule vm_same_inv [OF same inv fi xb])
  then show ?thesis
    using vm_ready_vm_same [OF ready same] ready by (simp add: eq vm_ready_def)
qed

lemma file_get_free_ready:
  assumes ready: "vm_ready x s" and r: "file_get_free s = (Some f, s1)"
  shows "f < MAX_FILES" and "x f = 0" and "vm_ready (x(f := 1)) s1"
proof -
  have inv: "vm_inv x (\<lambda>_. 0) s" and b: "\<forall>f. x f < 2 ^ 30" using ready by (simp_all add: vm_ready_def)
  have finv: "file_inv (\<lambda>f. x f + file_holds s f) s" using inv by (simp add: vm_inv_def)
  note g = file_get_free_inv [OF finv r]
  show "f < MAX_FILES" by (rule g(1))
  show x0: "x f = 0" using g(3) by simp
  have same: "vm_same s s1" using file_get_free_Some(3) [OF r] by simp
  have "(\<lambda>f. x f + file_holds s f)(f := 1) = (\<lambda>g. (x(f := 1)) g + file_holds s g)"
    using g(3) by auto
  with g(4) have "file_inv (\<lambda>g. (x(f := 1)) g + file_holds s g) s1" by simp
  moreover have "\<forall>g. (x(f := 1)) g < 2 ^ 31" using b by (auto intro: less_trans)
  ultimately have "vm_inv (x(f := 1)) (\<lambda>_. 0) s1" by (rule vm_same_inv [OF same inv])
  with b show "vm_ready (x(f := 1)) s1" by (intro vm_ready_vm_same [OF ready same]) auto
qed



section \<open>The calls that keep the references\<close>



















section \<open>The calls that may keep a reference\<close>

text \<open>
  \<^verbatim>\<open>at_kfd\<close> does not give back the directory it borrows, and \<^verbatim>\<open>sys_openat\<close> keeps the reference
  of the open file beside the descriptor's: at most \<^verbatim>\<open>n\<close> references per file are added.
\<close>

definition grows :: "nat \<Rightarrow> (nat \<Rightarrow> nat) \<Rightarrow> ('b \<times> vmstate) res \<Rightarrow> bool" where
  "grows n x = res_sat (\<lambda>(_, s). \<exists>x'. (\<forall>f. x f \<le> x' f \<and> x' f \<le> x f + n) \<and> vm_ready x' s)"



lemma grows_bind:
  assumes "keeps x m" and "\<And>v s. vm_ready x s \<Longrightarrow> grows n x (k (v, s))"
  shows "grows n x (bind_res m k)"
  using assms by (cases m) (auto simp: keeps_def grows_def)

lemma at_kfd_ready:
  assumes "vm_ready x s" and "\<forall>f. x f + 1 < 2 ^ 30"
  obtains x' where "\<forall>f. x f \<le> x' f \<and> x' f \<le> x f + 1" and "vm_ready x' (snd (at_kfd d s))"
proof (cases "d = AT_FDCWD \<or> fst (file_get d s) = None")
  case True
  then have "vm_ready x (snd (at_kfd d s))"
    using assms(1) file_get_None [of d s] by (auto simp: at_kfd_def split: prod.splits option.splits)
  then show ?thesis by (intro that [of x]) auto
next
  case False
  then obtain f s1 where r: "file_get d s = (Some f, s1)" by (cases "file_get d s") auto
  with False have "snd (at_kfd d s) = s1" by (simp add: at_kfd_def)
  with file_get_ready(2) [OF assms(1) r assms(2)]
  show ?thesis by (intro that [of "x(f := Suc (x f))"]) auto
qed



lemma vm_ready_set_kfd:
  assumes "vm_ready x s"
  shows "vm_ready x (set_kfd f c s)"
proof -
  have inv: "vm_inv x (\<lambda>_. 0) s" and b: "\<forall>f. x f < 2 ^ 31" "\<forall>f. x f < 2 ^ 30"
    using assms by (simp_all add: vm_ready_def vm_inv_def)
  have same: "vm_same s (set_kfd f c s)" by (simp add: vm_same_def set_kfd_def)
  have "file_inv (\<lambda>f. x f + file_holds s f) (set_kfd f c s)" using inv by (simp add: vm_inv_def)
  from vm_same_inv [OF same inv this b(1)] b(2) show ?thesis by (rule vm_ready_vm_same [OF assms same])
qed

text \<open>The host reports a failure as a negated error number, between -4096 and -1.\<close>

definition errno_host :: "host \<Rightarrow> bool" where
  "errno_host host \<longleftrightarrow> (\<forall>log req. sint (fst (host log req)) < 0 \<longrightarrow> IS_ERR_VALUE (fst (host log req)))"

lemma file_openat_grows:
  assumes ready: "vm_ready x s" and errno: "errno_host host"
  shows "res_sat (\<lambda>(r, s'). case r of Inl e \<Rightarrow> IS_ERR_VALUE e \<and> vm_ready x s'
      | Inr f \<Rightarrow> f < MAX_FILES \<and> x f = 0 \<and> vm_ready (x(f := 1)) s')
    (file_openat host (ustrlen host) k name flags mode s)"
proof (cases "fst (file_get_free s)")
  case None
  then have "file_get_free s = (None, s)"
    by (auto simp: file_get_free_def split: option.splits)
  then show ?thesis using ready by (simp add: file_openat_def IS_ERR_VALUE_def ENOMEM_def)
next
  case (Some f)
  then obtain s1 where r: "file_get_free s = (Some f, s1)" by (cases "file_get_free s") auto
  note g = file_get_free_ready [OF ready r]
  let ?x = "x(f := 1)"
  have rel: "res_sat (vm_ready x) (file_decref host f s2)" if "vm_ready ?x s2" for s2
    using file_decref_ready [OF that g(1), of 0 host] g(2) by (simp add: fun_upd_idem)
  show ?thesis
    unfolding file_openat_def r prod.case option.case
    using errno
    by (intro res_sat_bind [OF ustrlen_keeps [OF g(3), unfolded keeps_def]])
      (auto simp: case_prod_beta Let_def vm_ready_frontend g(1,2) errno_host_def
        intro!: res_sat_bind [OF rel] vm_ready_set_kfd)
qed


section \<open>Dispatch\<close>


lemma ret_int_Inr [simp]: "ret_int (Inr (r, s)) = Inr (scast r, s)"
  by (simp add: ret_int_def)





section \<open>Properties\<close>


definition env0 :: kenv where
  "env0 = \<lparr>e_host = (\<lambda>_ _. (5, Map.empty)), e_out = 0x80001000, e_buf = 0x80002000,
     e_layout = (\<lambda>st. at_addr 0 (long_bytes (ucast (st_dev st)))), e_time = 0, e_cycle = 0, e_instret = 0\<rparr>"



lemma sint_err_value:
  assumes "IS_ERR_VALUE e"
  shows "sint (ucast e :: u32) < 0"
proof -
  have "unat (-4096 :: u64) \<le> unat e" using assms by (simp add: IS_ERR_VALUE_def word_le_nat_alt)
  then have "2 ^ 64 - 4096 \<le> unat e" by simp
  moreover have "unat e < 2 ^ 64" using unsigned_less [of e, where 'a = nat] by simp
  ultimately obtain r where r: "unat e = r + (2 ^ 32 - 1) * 2 ^ 32" "2 ^ 31 \<le> r" "r < 2 ^ 32"
    by (intro that [of "unat e - (2 ^ 32 - 1) * 2 ^ 32"]) simp_all
  then have "unat e mod 2 ^ 32 = r" by (simp only: mod_mult_self1 mod_less)
  with r have "2 ^ 31 \<le> unat e mod 2 ^ 32" by simp
  then have "2 ^ 31 \<le> unat (ucast e :: u32)" by (simp add: unsigned_ucast_eq take_bit_eq_mod)
  then have "int (2 ^ 31) \<le> int (unat (ucast e :: u32))" by (simp only: of_nat_le_iff)
  moreover have "sint (ucast e :: u32) < int (2 ^ 31)" using sint_lt [of "ucast e :: u32"] by simp
  ultimately show ?thesis using sint_nonneg_unat [of "ucast e :: u32"] by linarith
qed

text \<open>What a successful \<^verbatim>\<open>sys_openat\<close> leaves: a descriptor, and one reference more than descriptors.\<close>

lemma sys_openat_fd:
  assumes ready: "vm_ready x s" and room: "\<forall>f. x f + 2 < 2 ^ 30" and errno: "errno_host (e_host env)"
    and r: "sys_openat env d name flags mode s = Inr (fd, s1)" and fd: "0 \<le> sint fd"
  obtains f y where "f < MAX_FILES" and "vm_ready y s1" and "y f = 1" and "unat fd < MAX_FDS" and "fds s1 ! unat fd = Some f"
proof -
  obtain x' where x': "\<forall>f. x f \<le> x' f \<and> x' f \<le> x f + 1" "vm_ready x' (snd (at_kfd d s))"
    by (rule at_kfd_ready [OF ready]) (use room in \<open>auto intro: Suc_lessD\<close>)
  obtain k s0 where k: "at_kfd d s = (k, s0)" by (cases "at_kfd d s")
  have "vm_ready x' s0" using x'(2) by (simp add: k)
  note o = file_openat_grows [OF this errno, where k = k and name = name and flags = flags and mode = mode]
  have "k \<noteq> -1" using r fd by (auto simp: sys_openat_def k EBADF_def)
  with r obtain v s2 where v: "file_openat (e_host env) (ustrlen (e_host env)) k name flags mode s0 = Inr (v, s2)"
    by (auto simp: sys_openat_def k bind_res_eq_Inr)
  have "\<exists>f. v = Inr f"
    using r v o fd \<open>k \<noteq> -1\<close> by (cases v) (auto simp: sys_openat_def k dest: sint_err_value)
  then obtain f where f: "v = Inr f" ..
  with o v have fm: "f < MAX_FILES" and y: "vm_ready (x'(f := 1)) s2" by simp_all
  have dup: "file_dup f s2 = Inr (fd, s1)"
    using r v f \<open>k \<noteq> -1\<close> fd
    by (auto simp: sys_openat_def k bind_res_eq_Inr ENOMEM_def split: if_splits)
  have pos: "0 < (x'(f := 1)) f" by simp
  note l = borrowed_live [OF y fm pos]
  obtain i where i: "find_from 0 (\<lambda>p. p = None) (fds s2) = Some i"
    using dup fd by (cases "find_from 0 (\<lambda>p. p = None) (fds s2)") (auto simp: file_dup_def)
  have i128: "i < MAX_FDS" and len: "length (fds s2) = MAX_FDS"
    using i l(3) by (simp_all add: find_from_Some file_inv_def)
  have eq: "fd = of_nat i" "s1 = set_refcnt f (refcnt (files s2 ! f) + 1) (s2\<lparr>fds := (fds s2)[i := Some f]\<rparr>)"
    using file_dup_Some [OF l(3) fm l(1) i] dup by auto
  have u: "unat fd = i" using i128 by (simp add: eq(1) unat_of_nat MAX_FDS_def)
  have "vm_ready (x'(f := 1)) s1" using file_dup_keeps [OF y fm pos] unfolding dup keeps_Inr .
  then show ?thesis
    by (rule that [OF fm]) (use i128 len in \<open>simp_all add: u eq(2)\<close>)
qed

text \<open>
  (C33) A file opened through \<^verbatim>\<open>sys_openat\<close> is never closed on the host: the call keeps the reference
  that \<^verbatim>\<open>file_openat\<close> returned beside the one of the descriptor, so \<^verbatim>\<open>sys_close\<close> of the descriptor
  succeeds, leaves the entry of the file table in use and sends no request to the host.
\<close>

theorem openat_then_close_leaks:
  assumes "vm_ready x s" and "\<forall>f. x f + 2 < 2 ^ 30" and "errno_host (e_host env)"
    and "sys_openat env d name flags mode s = Inr (fd, s1)" and "0 \<le> sint fd"
  shows "\<exists>f s2. fds s1 ! unat fd = Some f \<and> sys_close env fd s1 = Inr (0, s2) \<and>
    refcnt (files s2 ! f) \<noteq> 0 \<and> requests s2 = requests s1"
proof -
  obtain f y where f: "f < MAX_FILES" "vm_ready y s1" "y f = 1" "unat fd < MAX_FDS" "fds s1 ! unat fd = Some f"
    by (rule sys_openat_fd [OF assms])
  let ?b = "\<lambda>f. y f + file_holds s1 f"
  have inv: "vm_inv y (\<lambda>_. 0) s1" using f(2) by (simp add: vm_ready_def)
  have finv: "file_inv ?b s1" using inv by (simp add: vm_inv_def)
  note c = fd_close_open [OF finv f(4,5) file_room [OF inv f(1)], of "e_host env"]
  let ?s2 = "dropped (e_host env) f (nrefs s1 f + ?b f) (s1\<lparr>fds := (fds s1)[unat fd := None]\<rparr>)"
  have "0 < nrefs s1 f" using nrefs_pos [of "unat fd" s1 f] f(4,5) file_inv_lengths [OF finv] by simp
  then have "requests ?s2 = requests s1" using f(3) by simp
  moreover have "refcnt (files ?s2 ! f) \<noteq> 0"
    using file_inv_ok [OF c(2) f(1)] f(3) by (auto simp: file_ok_def)
  moreover have "sys_close env fd s1 = Inr (0, ?s2)" by (simp add: sys_close_def c(1))
  ultimately show ?thesis using f(5) by blast
qed



lemma openat_run:
  "case sys_openat env0 AT_FDCWD 0x40000 0 0 vm1 of Inl _ \<Rightarrow> False | Inr (fd, _) \<Rightarrow> 0 \<le> sint fd"
  by code_simp

theorem openat_then_close_leaks_witness:
  "case sys_openat env0 AT_FDCWD 0x40000 0 0 vm1 of
     Inl _ \<Rightarrow> False
   | Inr (fd, s1) \<Rightarrow> \<exists>f s2. fds s1 ! unat fd = Some f \<and> sys_close env0 fd s1 = Inr (0, s2) \<and>
       refcnt (files s2 ! f) \<noteq> 0 \<and> requests s2 = requests s1"
proof -
  have "errno_host (e_host env0)" by (simp add: errno_host_def env0_def)
  then show ?thesis
    using openat_run openat_then_close_leaks [OF vm1_ready, of env0 AT_FDCWD "0x40000" 0 0]
    by (cases "sys_openat env0 AT_FDCWD 0x40000 0 0 vm1") (auto simp: std_refs_def)
qed

end
