(* ===== verification/Pk_Boot.thy ===== *)
theory Pk_Boot
  imports Pk_Safety
begin

text \<open>
  The rest of the proxy kernel: the traps of the program (\<^verbatim>\<open>pk/handlers.c\<close>, with \<^verbatim>\<open>dump_tf\<close> of
  \<^verbatim>\<open>pk/console.c\<close>), the loader (\<^verbatim>\<open>pk/elf.c\<close>) and the start of the kernel and of the program (\<^verbatim>\<open>pk/pk.c\<close>).

  The environment of a run gives, beside what the system calls use, where the linker has put the
  string constants, the addresses of the local variables \<^verbatim>\<open>eh\<close>, \<^verbatim>\<open>args\<close> and \<^verbatim>\<open>phdrs\<close> on the kernel's
  stack, and of the trap entry. The kernel's own memory is mapped one to one, so a local variable is read
  from and written to \<^verbatim>\<open>pmem\<close> at its address; what may belong to the program goes through the page tables.
  A copy to the program's stack is done byte by byte. The supervisor's control registers are a record
  beside the state of the kernel.
\<close>

section \<open>State\<close>

record trapframe_t =
  gpr :: "u64 list"
  status :: u64
  epc :: u64
  badvaddr :: u64
  cause :: u64
  tf_insn :: u64

record scsrs =
  stvec :: u64
  sscratch :: u64
  sie :: u64
  sip :: u64
  sstatus :: u64

record benv =
  b_kernel :: kenv
  b_lit :: "string \<Rightarrow> u64"
  b_eh :: u64
  b_args :: u64
  b_phdrs :: u64
  b_trap_entry :: u64

abbreviation (input) b_host :: "benv \<Rightarrow> host" where "b_host env \<equiv> e_host (b_kernel env)"

abbreviation (input) SSTATUS_SIE :: u64 where "SSTATUS_SIE \<equiv> 0x2"
abbreviation (input) SSTATUS_SPIE :: u64 where "SSTATUS_SPIE \<equiv> 0x20"
abbreviation (input) SSTATUS_SPP :: u64 where "SSTATUS_SPP \<equiv> 0x100"
abbreviation (input) SSTATUS_FS :: u64 where "SSTATUS_FS \<equiv> 0x6000"
abbreviation (input) SSTATUS_SUM :: u64 where "SSTATUS_SUM \<equiv> 0x40000"
abbreviation (input) SIP_SSIP :: u64 where "SIP_SSIP \<equiv> 0x2"

section \<open>Traps of the program\<close>

definition regnames :: "string list" where
  "regnames =
     [''z '', ''ra'', ''sp'', ''gp'', ''tp'', ''t0'', ''t1'', ''t2'',
      ''s0'', ''s1'', ''a0'', ''a1'', ''a2'', ''a3'', ''a4'', ''a5'',
      ''a6'', ''a7'', ''s2'', ''s3'', ''s4'', ''s5'', ''s6'', ''s7'',
      ''s8'', ''s9'', ''sA'', ''sB'', ''t3'', ''t4'', ''t5'', ''t6'']"

fun dump_regs :: "benv \<Rightarrow> trapframe_t \<Rightarrow> nat list \<Rightarrow> vmstate \<Rightarrow> vmstate res" where
  "dump_regs env tf [] s = Inr s"
| "dump_regs env tf (i # is) s =
     bind_res
       (printk (b_kernel env) (lit ''%s %lx%c'')
          [b_lit env (regnames ! i), gpr tf ! i, if i mod 4 < 3 then 0x20 else 0x0a] s)
       (dump_regs env tf is)"

definition dump_tf :: "benv \<Rightarrow> trapframe_t \<Rightarrow> vmstate \<Rightarrow> (trapframe_t \<times> vmstate) res" where
  "dump_tf env tf s =
     (let tf = tf\<lparr>gpr := (gpr tf)[0 := 0]\<rparr>
      in bind_res (dump_regs env tf [0..<32] s)
           (\<lambda>s. bind_res
              (printk (b_kernel env) (lit ''pc %lx va %lx insn       %x sr %lx\<newline>'')
                 [epc tf, badvaddr tf, ucast (ucast (tf_insn tf) :: u32), status tf] s)
              (\<lambda>s. Inr (tf, s))))"

text \<open>A handler dumps the registers and panics, or returns the frame to resume with.\<close>

type_synonym trap_handler = "benv \<Rightarrow> trapframe_t \<Rightarrow> vmstate \<Rightarrow> (trapframe_t \<times> vmstate) res"

definition dump_panic :: "string \<Rightarrow> u64 list \<Rightarrow> trap_handler" where
  "dump_panic fmt va env tf s =
     bind_res (dump_tf env tf s) (\<lambda>(tf, s). do_panic (b_kernel env) (lit fmt @ [0x0a]) va s)"

definition handle_instruction_access_fault :: trap_handler where
  "handle_instruction_access_fault = dump_panic ''Instruction access fault!'' []"

definition handle_load_access_fault :: trap_handler where
  "handle_load_access_fault = dump_panic ''Load access fault!'' []"

definition handle_store_access_fault :: trap_handler where
  "handle_store_access_fault = dump_panic ''Store/AMO access fault!'' []"

definition handle_illegal_instruction :: trap_handler where
  "handle_illegal_instruction env tf s =
     bind_res (uload (b_host env) 2 (epc tf) s)
       (\<lambda>(bs, s). let insn = le_word bs
          in bind_res
               (if insn_len insn = 4 then
                  bind_res (uload (b_host env) 2 (epc tf + 2) s)
                    (\<lambda>(hs, s). Inr (insn OR ucast (push_bit 16 (le_word hs :: u32)), s))
                else kassert (insn_len insn = 2) (Inr (insn, s)))
               (\<lambda>(insn, s). dump_panic ''An illegal instruction was executed!'' [] env (tf\<lparr>tf_insn := insn\<rparr>) s))"

definition handle_breakpoint :: trap_handler where
  "handle_breakpoint env tf s =
     bind_res (dump_tf env tf s)
       (\<lambda>(tf, s). bind_res (printk (b_kernel env) (lit ''Breakpoint!\<newline>'') [] s)
          (\<lambda>s. Inr (tf\<lparr>epc := epc tf + 4\<rparr>, s)))"

definition handle_misaligned_fetch :: trap_handler where
  "handle_misaligned_fetch = dump_panic ''Misaligned instruction access!'' []"

definition handle_misaligned_load :: trap_handler where
  "handle_misaligned_load = dump_panic ''Misaligned Load!'' []"

definition handle_misaligned_store :: trap_handler where
  "handle_misaligned_store = dump_panic ''Misaligned AMO!'' []"

definition segfault :: "u64 \<Rightarrow> string \<Rightarrow> trap_handler" where
  "segfault addr type env tf =
     dump_panic ''%s %s segfault @ %p''
       [b_lit env (if status tf AND SSTATUS_SPP \<noteq> 0 then ''Kernel'' else ''User''), b_lit env type, addr] env tf"

text \<open>The three page faults differ in the right that is asked for and the word that is printed.\<close>

definition page_fault :: "u32 \<Rightarrow> string \<Rightarrow> trap_handler" where
  "page_fault prot type env tf s =
     bind_res (handle_page_fault (b_host env) (badvaddr tf) prot s)
       (\<lambda>(ret, s). if ret \<noteq> 0 then segfault (badvaddr tf) type env tf s else Inr (tf, s))"

definition handle_fault_fetch :: trap_handler where
  "handle_fault_fetch = page_fault PROT_EXEC ''fetch''"

definition handle_fault_load :: trap_handler where
  "handle_fault_load = page_fault PROT_READ ''load''"

definition handle_fault_store :: trap_handler where
  "handle_fault_store = page_fault PROT_WRITE ''store''"

definition handle_syscall :: trap_handler where
  "handle_syscall env tf s =
     bind_res
       (do_syscall (b_kernel env) (gpr tf ! 10) (gpr tf ! 11) (gpr tf ! 12) (gpr tf ! 13) (gpr tf ! 14)
          (gpr tf ! 15) (gpr tf ! 17) s)
       (\<lambda>(r, s). Inr (tf\<lparr>gpr := (gpr tf)[10 := r], epc := epc tf + 4\<rparr>, s))"

definition handle_interrupt :: "scsrs \<Rightarrow> scsrs" where
  "handle_interrupt c = c\<lparr>sip := sip c AND NOT SIP_SSIP\<rparr>"

definition trap_handlers :: "(u64 \<times> trap_handler) list" where
  "trap_handlers =
     [(0, handle_misaligned_fetch), (1, handle_instruction_access_fault), (5, handle_load_access_fault),
      (7, handle_store_access_fault), (12, handle_fault_fetch), (2, handle_illegal_instruction),
      (8, handle_syscall), (3, handle_breakpoint), (4, handle_misaligned_load),
      (6, handle_misaligned_store), (13, handle_fault_load), (15, handle_fault_store)]"

definition handle_trap :: "benv \<Rightarrow> trapframe_t \<Rightarrow> scsrs \<Rightarrow> vmstate \<Rightarrow> (trapframe_t \<times> scsrs \<times> vmstate) res" where
  "handle_trap env tf c s =
     (if sint (cause tf) < 0 then Inr (tf, handle_interrupt c, s)
      else case map_of trap_handlers (cause tf) of
             None \<Rightarrow> Inl Assertion
           | Some h \<Rightarrow> bind_res (h env tf s) (\<lambda>(tf, s). Inr (tf, c, s)))"

section \<open>The loader\<close>

text \<open>The fields of the file and program headers that the loader reads, at their places in the C structures.\<close>

record Elf64_Ehdr =
  e_ident :: "u8 list"
  e_type :: u16
  e_entry :: u64
  e_phoff :: u64
  e_phnum :: u16

record Elf64_Phdr =
  p_type :: u32
  p_flags :: u32
  p_offset :: u64
  p_vaddr :: u64
  p_filesz :: u64
  p_memsz :: u64

definition read_ehdr :: "mem \<Rightarrow> u64 \<Rightarrow> Elf64_Ehdr" where
  "read_ehdr m a =
     \<lparr>e_ident = bytes_at m a 16, e_type = le_word (bytes_at m (a + 16) 2), e_entry = load64 m (a + 24),
      e_phoff = load64 m (a + 32), e_phnum = le_word (bytes_at m (a + 56) 2)\<rparr>"

definition read_phdr :: "mem \<Rightarrow> u64 \<Rightarrow> Elf64_Phdr" where
  "read_phdr m a =
     \<lparr>p_type = load32 m a, p_flags = load32 m (a + 4), p_offset = load64 m (a + 8), p_vaddr = load64 m (a + 16),
      p_filesz = load64 m (a + 32), p_memsz = load64 m (a + 40)\<rparr>"

definition sizeof_Ehdr :: u64 where "sizeof_Ehdr = 64"
definition sizeof_Phdr :: u64 where "sizeof_Phdr = 56"

definition IS_ELF :: "Elf64_Ehdr \<Rightarrow> bool" where
  "IS_ELF eh \<longleftrightarrow> take 4 (e_ident eh) = [0x7f, 0x45, 0x4c, 0x46]"

definition IS_ELF64 :: "Elf64_Ehdr \<Rightarrow> bool" where
  "IS_ELF64 eh \<longleftrightarrow> IS_ELF eh \<and> e_ident eh ! 4 = 2"

definition get_prot :: "u32 \<Rightarrow> u32" where
  "get_prot flags =
     (let prot_x = (if flags AND 1 \<noteq> 0 then PROT_EXEC else 0);
          prot_w = (if flags AND 2 \<noteq> 0 then PROT_WRITE else 0);
          prot_r = (if flags AND 4 \<noteq> 0 then PROT_READ else 0)
      in prot_x OR prot_w OR prot_r)"

definition load_fail :: "benv \<Rightarrow> u64 \<Rightarrow> vmstate \<Rightarrow> 'b res" where
  "load_fail env fn s = do_panic (b_kernel env) (lit ''couldn't open ELF program: %s!\<newline>'') [fn] s"

text \<open>One segment: the part from the file, then the zero pages behind it.\<close>

definition map_file_part :: "benv \<Rightarrow> u64 \<Rightarrow> nat \<Rightarrow> u64 \<Rightarrow> Elf64_Phdr \<Rightarrow> vmstate \<Rightarrow> vmstate res" where
  "map_file_part env fn f vaddr ph s =
     (let prepad = p_vaddr ph mod RISCV_PGSIZE;
          flags2 = MAP_FIXED OR MAP_PRIVATE OR (if prepad \<noteq> 0 then MAP_POPULATE else 0);
          prot = get_prot (p_flags ph)
      in bind_res
           (do_mmap_locked (b_host env) (vaddr - prepad) (p_filesz ph + prepad) (prot OR PROT_WRITE) flags2 (Some f)
              (p_offset ph - prepad) s)
           (\<lambda>(r, s). if r \<noteq> vaddr - prepad then load_fail env fn s
              else bind_res (ustore (b_host env) (at_addr (vaddr - prepad) (replicate (unat prepad) 0)) s)
                (\<lambda>s. if prot AND PROT_WRITE = 0 then
                       bind_res (do_mprotect (vaddr - prepad) (p_filesz ph + prepad) prot s)
                         (\<lambda>(r, s). if r \<noteq> 0 then load_fail env fn s else Inr s)
                     else Inr s)))"

definition map_zero_part :: "benv \<Rightarrow> u64 \<Rightarrow> u64 \<Rightarrow> Elf64_Phdr \<Rightarrow> vmstate \<Rightarrow> vmstate res" where
  "map_zero_part env fn vaddr ph s =
     (let prepad = p_vaddr ph mod RISCV_PGSIZE;
          mapped = ROUNDUP (p_filesz ph + prepad) RISCV_PGSIZE - prepad
      in if mapped < p_memsz ph then
           bind_res
             (do_mmap_locked (b_host env) (vaddr + mapped) (p_memsz ph - mapped) (get_prot (p_flags ph))
                (MAP_FIXED OR MAP_PRIVATE OR MAP_ANONYMOUS) None 0 s)
             (\<lambda>(r, s). if r \<noteq> vaddr + mapped then load_fail env fn s else Inr s)
         else Inr s)"

definition load_segment :: "benv \<Rightarrow> u64 \<Rightarrow> nat \<Rightarrow> u64 \<Rightarrow> Elf64_Phdr \<Rightarrow> vmstate \<Rightarrow> vmstate res" where
  "load_segment env fn f bs ph s =
     (if p_type ph = 1 \<and> p_memsz ph \<noteq> 0 then
        let vaddr = p_vaddr ph + bs;
            top = vaddr + p_memsz ph;
            s = (if brk_min (current s) < top then set_current (brk_min_update (\<lambda>_. top)) s else s)
        in bind_res (map_file_part env fn f vaddr ph s) (map_zero_part env fn vaddr ph)
      else Inr s)"

fun load_segments :: "benv \<Rightarrow> u64 \<Rightarrow> nat \<Rightarrow> u64 \<Rightarrow> nat \<Rightarrow> vmstate \<Rightarrow> vmstate res" where
  "load_segments env fn f bs 0 s = Inr s"
| "load_segments env fn f bs (Suc i) s =
     bind_res
       (load_segment env fn f bs (read_phdr (pmem s) (phdr (current s) + sizeof_Phdr * of_nat i)) s)
       (load_segments env fn f bs i)"

text \<open>\<^verbatim>\<open>info\<close> is \<^verbatim>\<open>&current\<close>. The variable \<^verbatim>\<open>max_vaddr\<close> of the code is computed and never used.\<close>

definition load_program :: "benv \<Rightarrow> u64 \<Rightarrow> nat \<Rightarrow> Elf64_Ehdr \<Rightarrow> vmstate \<Rightarrow> vmstate res" where
  "load_program env fn f eh s =
     (let n = ucast (e_phnum eh) * sizeof_Phdr
      in if phdr_size (current s) < n then load_fail env fn s
         else bind_res
           (file_pread (b_host env) (populate_mapping (b_host env)) f (phdr (current s)) n (e_phoff eh) s)
           (\<lambda>(ret, s). if sint ret < sint n then load_fail env fn s
              else let bs = (if e_type eh = 3 then RISCV_PGSIZE else 0);
                       s = set_current (\<lambda>c. c\<lparr>phnum := ucast (e_phnum eh), phent := ucast sizeof_Phdr,
                             entry := e_entry eh + bs\<rparr>) s
                   in bind_res (load_segments env fn f bs (unat (e_phnum eh)) s) (file_decref (b_host env) f)))"

definition load_elf :: "benv \<Rightarrow> u64 \<Rightarrow> vmstate \<Rightarrow> vmstate res" where
  "load_elf env fn s =
     bind_res (file_open (b_host env) (ustrlen (b_host env)) fn 0 0 s)
       (\<lambda>(r, s). case r of
          Inl err \<Rightarrow> if IS_ERR_VALUE err then load_fail env fn s else Inl BadAccess
        | Inr f \<Rightarrow>
            bind_res (file_pread (b_host env) (populate_mapping (b_host env)) f (b_eh env) sizeof_Ehdr 0 s)
              (\<lambda>(ret, s). let eh = read_ehdr (pmem s) (b_eh env)
                 in if sint ret < sint sizeof_Ehdr \<or> \<not> IS_ELF eh then load_fail env fn s
                    else kassert (IS_ELF64 eh) (load_program env fn f eh s)))"

section \<open>Starting the program\<close>

definition handle_option :: "benv \<Rightarrow> u64 \<Rightarrow> vmstate \<Rightarrow> vmstate res" where
  "handle_option env a s =
     bind_res (uload8 (b_host env) (a + 1) s)
       (\<lambda>(c, s). if c = 0x73 then Inr (set_current (cycle0_update (\<lambda>_. 1)) s)
          else if c = 0x70 then Inr (s\<lparr>demand_paging := False\<rparr>)
          else do_panic (b_kernel env) (lit ''unrecognized option: `%c'\<newline>'') [ucast c] s)"

definition MAX_ARGS :: nat where "MAX_ARGS = 64"

definition arg_word :: "benv \<Rightarrow> nat \<Rightarrow> vmstate \<Rightarrow> u64" where
  "arg_word env i s = load64 (pmem s) (b_args env + 8 * of_nat i)"

definition set_arg :: "benv \<Rightarrow> nat \<Rightarrow> u64 \<Rightarrow> vmstate \<Rightarrow> vmstate" where
  "set_arg env i w s = s\<lparr>pmem := store64 (pmem s) (b_args env + 8 * of_nat i) w\<rparr>"

text \<open>The first argument that is not an option: \<^verbatim>\<open>pk_argv[arg]\<close> is \<^verbatim>\<open>args->buf[arg + 1]\<close>, of 64 words.\<close>

function skip_options :: "benv \<Rightarrow> u64 \<Rightarrow> nat \<Rightarrow> vmstate \<Rightarrow> (nat \<times> vmstate) res" where
  "skip_options env argc arg s =
     (if arg < unat argc then
        if MAX_ARGS \<le> arg + 1 then Inl BadAccess
        else bind_res (uload8 (b_host env) (arg_word env (arg + 1) s) s)
          (\<lambda>(c, s). if c = 0x2d then
               bind_res (handle_option env (arg_word env (arg + 1) s) s) (skip_options env argc (arg + 1))
             else Inr (arg, s))
      else Inr (arg, s))"
  by pat_completeness auto

termination skip_options
  by (relation "measure (\<lambda>(env, argc, arg, s). MAX_ARGS - arg)") auto

declare skip_options.simps [simp del]

function move_args :: "benv \<Rightarrow> u64 \<Rightarrow> nat \<Rightarrow> nat \<Rightarrow> vmstate \<Rightarrow> vmstate res" where
  "move_args env argc arg i s =
     (if arg + i < unat argc then
        if MAX_ARGS \<le> arg + i + 1 then Inl BadAccess
        else move_args env argc arg (i + 1) (set_arg env i (arg_word env (arg + i + 1) s) s)
      else Inr s)"
  by pat_completeness auto

termination move_args
  by (relation "measure (\<lambda>(env, argc, arg, i, s). MAX_ARGS - i)") auto

declare move_args.simps [simp del]

definition parse_args :: "benv \<Rightarrow> vmstate \<Rightarrow> (u64 \<times> vmstate) res" where
  "parse_args env s =
     (let (r, s) = frontend_syscall (b_host env) SYS_getmainvars (va2pa s (b_args env)) 512 0 0 0 0 0 s
      in kassert (r = 0)
           (let argc = arg_word env 0 s
            in bind_res (skip_options env argc 1 s)
                 (\<lambda>(arg, s). bind_res (move_args env argc arg 0 s) (\<lambda>s. Inr (argc - of_nat arg, s)))))"

fun ucopy :: "host \<Rightarrow> u64 \<Rightarrow> u64 \<Rightarrow> nat \<Rightarrow> vmstate \<Rightarrow> vmstate res" where
  "ucopy host d a 0 s = Inr s"
| "ucopy host d a (Suc n) s =
     bind_res (uload8 host a s) (\<lambda>(b, s). bind_res (ustore8 host d b s) (ucopy host (d + 1) (a + 1) n))"

text \<open>The strings go to the program's stack, downwards from \<^verbatim>\<open>sp\<close>, and \<^verbatim>\<open>argv[i]\<close> is made to point to the copy.\<close>

fun push_strings :: "benv \<Rightarrow> nat list \<Rightarrow> u64 \<Rightarrow> vmstate \<Rightarrow> (u64 \<times> vmstate) res" where
  "push_strings env [] sp s = Inr (sp, s)"
| "push_strings env (i # is) sp s =
     (if MAX_ARGS \<le> i then Inl BadAccess
      else bind_res (ustrlen (b_host env) (arg_word env i s) s)
        (\<lambda>(n, s). let sp = sp - (n + 1)
           in bind_res (ucopy (b_host env) sp (arg_word env i s) (unat (n + 1)) s)
                (\<lambda>s. push_strings env is sp (set_arg env i sp s))))"

fun push_words :: "host \<Rightarrow> u64 \<Rightarrow> u64 list \<Rightarrow> vmstate \<Rightarrow> vmstate res" where
  "push_words host sp [] s = Inr s"
| "push_words host sp (w # ws) s = bind_res (ustore_long host sp w s) (push_words host (sp + 8) ws)"

definition aux_vector :: "u64 \<Rightarrow> elf_info \<Rightarrow> u64 list" where
  "aux_vector sp c =
     [9, entry c, 5, scast (phnum c), 4, scast (phent c), 3, phdr c, 6, RISCV_PGSIZE, 23, 0, 25, sp, 0, 0]"

definition init_tf :: "scsrs \<Rightarrow> u64 \<Rightarrow> u64 \<Rightarrow> trapframe_t" where
  "init_tf c pc sp =
     \<lparr>gpr = (replicate 32 0)[2 := sp],
      status = (sstatus c AND NOT SSTATUS_SPP AND NOT SSTATUS_SIE) OR SSTATUS_SPIE,
      epc = pc, badvaddr = 0, cause = 0, tf_insn = 0\<rparr>"

text \<open>The frame \<^verbatim>\<open>start_user\<close> is called with; the environment of the program is empty.\<close>

definition run_loaded_program ::
  "benv \<Rightarrow> u64 \<Rightarrow> u64 \<Rightarrow> scsrs \<Rightarrow> vmstate \<Rightarrow> (trapframe_t \<times> scsrs \<times> vmstate) res" where
  "run_loaded_program env argc kstack_top c s =
     (let sp = stack_top (current s) - phdr_size (current s)
      in bind_res (ucopy (b_host env) sp (phdr (current s)) (unat (phdr_size (current s))) s)
        (\<lambda>s. bind_res (push_strings env [0..<unat argc] sp (set_current (phdr_update (\<lambda>_. sp)) s))
          (\<lambda>(sp, s). let sp = sp AND - 8;
                aux = aux_vector sp (current s);
                sp = (sp - (1 + argc + 1 + 0 + 1 + 2 * 8) * 8) AND - 16
             in bind_res
                  (push_words (b_host env) sp
                     (argc # map (\<lambda>i. arg_word env i s) [0..<unat argc] @ [0, 0] @ aux) s)
                  (\<lambda>s. let s = (if cycle0 (current s) \<noteq> 0
                                then set_current (\<lambda>i. i\<lparr>time0 := e_time (b_kernel env),
                                       cycle0 := e_cycle (b_kernel env), instret0 := e_instret (b_kernel env)\<rparr>) s
                                else s)
                        in Inr (init_tf c (entry (current s)) sp, c\<lparr>sscratch := kstack_top\<rparr>, s)))))"

definition rest_of_boot_loader :: "benv \<Rightarrow> u64 \<Rightarrow> scsrs \<Rightarrow> vmstate \<Rightarrow> (trapframe_t \<times> scsrs \<times> vmstate) res" where
  "rest_of_boot_loader env kstack_top c s =
     bind_res (parse_args env s)
       (\<lambda>(argc, s). if argc = 0 then do_panic (b_kernel env) (lit ''tell me what ELF to load!\<newline>'') [] s
          else let s = set_current (\<lambda>i. i\<lparr>phdr := b_phdrs env, phdr_size := 1024\<rparr>) s
               in bind_res (load_elf env (arg_word env 0 s) s) (run_loaded_program env argc kstack_top c))"

text \<open>\<^verbatim>\<open>enter_supervisor_mode\<close> continues with its argument, on the stack that the memory manager made.\<close>

definition pk_boot_loader ::
  "benv \<Rightarrow> u64 \<Rightarrow> u64 \<Rightarrow> scsrs \<Rightarrow> vmstate \<Rightarrow> (trapframe_t \<times> scsrs \<times> vmstate) res" where
  "pk_boot_loader env memory_size end_addr c s =
     (let c = c\<lparr>stvec := b_trap_entry env, sscratch := 0, sie := 0,
                sstatus := sstatus c OR SSTATUS_SUM OR SSTATUS_FS\<rparr>
      in bind_res (file_init s)
           (\<lambda>s. bind_res (pk_vm_init (b_host env) memory_size end_addr s)
              (\<lambda>(kstack_top, s). rest_of_boot_loader env kstack_top c s)))"

end
