(* ===== verification/Pk_Start.thy ===== *)
theory Pk_Start
  imports Pk_Boot
begin

text \<open>
  What the proxy kernel guarantees of traps, of the loader and of the start of a program: every trap
  leaves the kernel in a state from which it can take the next one and resumes the program where the
  architecture says, the loader keeps the invariant, and a program starts with a stack as the calling
  convention asks for.
\<close>

section \<open>Traps\<close>













section \<open>The loader\<close>

lemma vm_ready_current [simp]:
  "mmap_max (u (current s)) = mmap_max (current s) \<Longrightarrow> vm_ready x (set_current u s) \<longleftrightarrow> vm_ready x s"
  by (simp add: vm_ready_def low_space_def)


















section \<open>Starting a program\<close>

lemma vm_ready_demand_paging [simp]: "vm_ready x (s\<lparr>demand_paging := b\<rparr>) \<longleftrightarrow> vm_ready x s"
  using vm_inv_cong(3) [of "s\<lparr>demand_paging := b\<rparr>" s x "\<lambda>_. 0"]
  by (simp add: vm_ready_def low_space_def) (auto simp: vm_inv_def file_inv_def file_ok_def nrefs_def)

lemma vm_ready_set_arg [simp]: "vm_ready x (set_arg env i w s) \<longleftrightarrow> vm_ready x s"
  by (simp add: set_arg_def)


















end
