(* ===== verification/User_String.thy ===== *)
theory User_String
  imports Util_String
begin

text \<open>
  The C library of the system-call tests, \<^verbatim>\<open>user/lib/string.c\<close>. \<^verbatim>\<open>strlen\<close>, \<^verbatim>\<open>memchr\<close>,
  \<^verbatim>\<open>strcpy\<close> and \<^verbatim>\<open>strncpy\<close> work on eight bytes at a time where the pointers are aligned and
  find a zero byte in a word by the arithmetic of \<^verbatim>\<open>HASZERO\<close>. Names that the kernel's library
  has too carry the prefix \<^verbatim>\<open>user\<close>. \<^verbatim>\<open>int\<close> arithmetic wraps.
\<close>

section \<open>Definitions\<close>

definition SS :: u64 where "SS = 8"
definition ALIGN :: u64 where "ALIGN = 8 - 1"
definition ONES :: u64 where "ONES = -1 div 255"
definition HIGHS :: u64 where "HIGHS = ONES * (255 div 2 + 1)"
definition HASZERO :: "u64 \<Rightarrow> u64" where "HASZERO x = (x - ONES) AND NOT x AND HIGHS"

definition isspace :: "u32 \<Rightarrow> bool" where
  "isspace c \<longleftrightarrow> c = 32 \<or> c - 9 < 5"

definition isdigit :: "u32 \<Rightarrow> bool" where
  "isdigit c \<longleftrightarrow> c - 48 < 10"

function skip_spaces :: "mem \<Rightarrow> u64 \<Rightarrow> u64 res" where
  "skip_spaces m s = (if isspace (ucast (m s)) then advance 1 s (skip_spaces m) else Inr s)"
  by pat_completeness auto

termination skip_spaces
  by (relation "measure (\<lambda>(m, s). 2 ^ 64 - unat s)") (auto intro!: advance_measure)

function atoi_digits :: "mem \<Rightarrow> u64 \<Rightarrow> u32 \<Rightarrow> u32 res" where
  "atoi_digits m s n =
     (if isdigit (ucast (m s)) then advance 1 s (\<lambda>s'. atoi_digits m s' (10 * n - (ucast (m s) - 48)))
      else Inr n)"
  by pat_completeness auto

termination atoi_digits
  by (relation "measure (\<lambda>(m, s, n). 2 ^ 64 - unat s)") (auto intro!: advance_measure)

definition atoi :: "mem \<Rightarrow> u64 \<Rightarrow> u32 res" where
  "atoi m s =
     bind_res (skip_spaces m s)
       (\<lambda>s. let neg = m s = 45
            in bind_res (if m s = 45 \<or> m s = 43 then advance 1 s Inr else Inr s)
                 (\<lambda>s. bind_res (atoi_digits m s 0) (\<lambda>n. Inr (if neg then n else - n))))"

text \<open>The counter of \<^verbatim>\<open>memset\<close> is an \<^verbatim>\<open>int\<close>, compared with the \<^verbatim>\<open>size_t\<close> bound.\<close>

function user_memset_loop :: "mem \<Rightarrow> u64 \<Rightarrow> u8 \<Rightarrow> u32 \<Rightarrow> u64 \<Rightarrow> mem res" where
  "user_memset_loop m p c i n =
     (if scast i < n then
        if i = 0x7FFFFFFF then Inl Undefined
        else advance 1 p (\<lambda>p'. user_memset_loop (m(p := c)) p' c (i + 1) n)
      else Inr m)"
  by pat_completeness auto

termination user_memset_loop
  by (relation "measure (\<lambda>(m, p, c, i, n). 2 ^ 64 - unat p)") (auto intro!: advance_measure)

definition user_memset :: "mem \<Rightarrow> u64 \<Rightarrow> u32 \<Rightarrow> u64 \<Rightarrow> (u64 \<times> mem) res" where
  "user_memset m dest c n = bind_res (user_memset_loop m dest (ucast c) 0 n) (\<lambda>m. Inr (dest, m))"

function user_strcmp :: "mem \<Rightarrow> u64 \<Rightarrow> u64 \<Rightarrow> u32 res" where
  "user_strcmp m l r =
     (if m l = m r \<and> m l \<noteq> 0 then advance 1 l (\<lambda>l. advance 1 r (\<lambda>r. user_strcmp m l r))
      else Inr (ucast (m l) - ucast (m r)))"
  by pat_completeness auto

termination user_strcmp
  by (relation "measure (\<lambda>(m, l, r). 2 ^ 64 - unat l)") (auto intro!: advance_measure)

function strncmp_loop :: "mem \<Rightarrow> u64 \<Rightarrow> u64 \<Rightarrow> u64 \<Rightarrow> u32 res" where
  "strncmp_loop m l r n =
     (if m l \<noteq> 0 \<and> m r \<noteq> 0 \<and> n \<noteq> 0 \<and> m l = m r
      then advance 1 l (\<lambda>l. advance 1 r (\<lambda>r. strncmp_loop m l r (n - 1)))
      else Inr (ucast (m l) - ucast (m r)))"
  by pat_completeness auto

termination strncmp_loop
  by (relation "measure (\<lambda>(m, l, r, n). 2 ^ 64 - unat l)") (auto intro!: advance_measure)

definition strncmp :: "mem \<Rightarrow> u64 \<Rightarrow> u64 \<Rightarrow> u64 \<Rightarrow> u32 res" where
  "strncmp m l r n = (if n = 0 then Inr 0 else strncmp_loop m l r (n - 1))"

text \<open>The three loops of \<^verbatim>\<open>strlen\<close>: bytes up to an aligned address, where the function may
  return (\<^const>\<open>Inl\<close>), words without a zero byte, and bytes to the terminating zero.\<close>

function strlen_head :: "mem \<Rightarrow> u64 \<Rightarrow> (u64 + u64) res" where
  "strlen_head m s =
     (if s mod SS \<noteq> 0 then if m s = 0 then Inr (Inl s) else advance 1 s (strlen_head m)
      else Inr (Inr s))"
  by pat_completeness auto

termination strlen_head
  by (relation "measure (\<lambda>(m, s). 2 ^ 64 - unat s)") (auto intro!: advance_measure)

function strlen_words :: "mem \<Rightarrow> u64 \<Rightarrow> u64 res" where
  "strlen_words m w = (if HASZERO (load64 m w) = 0 then advance 8 w (strlen_words m) else Inr w)"
  by pat_completeness auto

termination strlen_words
  by (relation "measure (\<lambda>(m, w). 2 ^ 64 - unat w)") (auto intro!: advance_measure)

definition user_strlen :: "mem \<Rightarrow> u64 \<Rightarrow> u64 res" where
  "user_strlen m a =
     bind_res (strlen_head m a)
       (\<lambda>r. case r of
          Inl s \<Rightarrow> Inr (s - a)
        | Inr s \<Rightarrow> bind_res (strlen_words m s) (\<lambda>s. bind_res (strend m s) (\<lambda>s. Inr (s - a))))"

function memchr_head :: "mem \<Rightarrow> u8 \<Rightarrow> u64 \<Rightarrow> u64 \<Rightarrow> (u64 \<times> u64) res" where
  "memchr_head m c s n =
     (if s AND ALIGN \<noteq> 0 \<and> n \<noteq> 0 \<and> m s \<noteq> c then advance 1 s (\<lambda>s. memchr_head m c s (n - 1))
      else Inr (s, n))"
  by pat_completeness auto

termination memchr_head
  by (relation "measure (\<lambda>(m, c, s, n). 2 ^ 64 - unat s)") (auto intro!: advance_measure)

function memchr_words :: "mem \<Rightarrow> u64 \<Rightarrow> u64 \<Rightarrow> u64 \<Rightarrow> (u64 \<times> u64) res" where
  "memchr_words m k w n =
     (if SS \<le> n \<and> HASZERO (load64 m w XOR k) = 0 then advance 8 w (\<lambda>w. memchr_words m k w (n - SS))
      else Inr (w, n))"
  by pat_completeness auto

termination memchr_words
  by (relation "measure (\<lambda>(m, k, w, n). 2 ^ 64 - unat w)") (auto intro!: advance_measure)

function memchr_tail :: "mem \<Rightarrow> u8 \<Rightarrow> u64 \<Rightarrow> u64 \<Rightarrow> (u64 \<times> u64) res" where
  "memchr_tail m c s n =
     (if n \<noteq> 0 \<and> m s \<noteq> c then advance 1 s (\<lambda>s. memchr_tail m c s (n - 1)) else Inr (s, n))"
  by pat_completeness auto

termination memchr_tail
  by (relation "measure (\<lambda>(m, c, s, n). 2 ^ 64 - unat s)") (auto intro!: advance_measure)

definition memchr :: "mem \<Rightarrow> u64 \<Rightarrow> u32 \<Rightarrow> u64 \<Rightarrow> u64 res" where
  "memchr m src c0 n0 =
     (let c = ucast c0 :: u8
      in bind_res (memchr_head m c src n0)
           (\<lambda>(s, n). bind_res (if n \<noteq> 0 \<and> m s \<noteq> c then memchr_words m (ONES * ucast c) s n else Inr (s, n))
              (\<lambda>(s, n). bind_res (memchr_tail m c s n) (\<lambda>(s, n). Inr (if n \<noteq> 0 then s else 0)))))"

definition strnlen :: "mem \<Rightarrow> u64 \<Rightarrow> u64 \<Rightarrow> u64 res" where
  "strnlen m s n = bind_res (memchr m s 0 n) (\<lambda>p. Inr (if p \<noteq> 0 then p - s else n))"

text \<open>\<^verbatim>\<open>strcpy\<close> returns the address of the copied terminating zero.\<close>

function strcpy_head :: "mem \<Rightarrow> u64 \<Rightarrow> u64 \<Rightarrow> ((u64 + u64 \<times> u64) \<times> mem) res" where
  "strcpy_head m d s =
     (if s mod SS \<noteq> 0 then
        let m = m(d := m s)
        in if m d = 0 then Inr (Inl d, m)
           else advance 1 s (\<lambda>s. advance 1 d (\<lambda>d. strcpy_head m d s))
      else Inr (Inr (d, s), m))"
  by pat_completeness auto

termination strcpy_head
  by (relation "measure (\<lambda>(m, d, s). 2 ^ 64 - unat s)") (auto intro!: advance_measure)

function strcpy_words :: "mem \<Rightarrow> u64 \<Rightarrow> u64 \<Rightarrow> (u64 \<times> u64 \<times> mem) res" where
  "strcpy_words m wd ws =
     (if HASZERO (load64 m ws) = 0
      then advance 8 wd (\<lambda>wd'. advance 8 ws (\<lambda>ws'. strcpy_words (store64 m wd (load64 m ws)) wd' ws'))
      else Inr (wd, ws, m))"
  by pat_completeness auto

termination strcpy_words
  by (relation "measure (\<lambda>(m, d, s). 2 ^ 64 - unat s)") (auto intro!: advance_measure)

function strcpy_tail :: "mem \<Rightarrow> u64 \<Rightarrow> u64 \<Rightarrow> (u64 \<times> mem) res" where
  "strcpy_tail m d s =
     (let m = m(d := m s)
      in if m d \<noteq> 0 then advance 1 s (\<lambda>s. advance 1 d (\<lambda>d. strcpy_tail m d s)) else Inr (d, m))"
  by pat_completeness auto

termination strcpy_tail
  by (relation "measure (\<lambda>(m, d, s). 2 ^ 64 - unat s)") (auto intro!: advance_measure)

definition user_strcpy :: "mem \<Rightarrow> u64 \<Rightarrow> u64 \<Rightarrow> (u64 \<times> mem) res" where
  "user_strcpy m d s =
     (if s mod SS = d mod SS then
        bind_res (strcpy_head m d s)
          (\<lambda>(r, m). case r of
             Inl d \<Rightarrow> Inr (d, m)
           | Inr (d, s) \<Rightarrow> bind_res (strcpy_words m d s) (\<lambda>(d, s, m). strcpy_tail m d s))
      else strcpy_tail m d s)"

text \<open>The byte loop of \<^verbatim>\<open>strncpy\<close> occurs twice, up to an aligned address (\<^verbatim>\<open>stop\<close>) and to the end.\<close>

function strncpy_bytes :: "bool \<Rightarrow> mem \<Rightarrow> u64 \<Rightarrow> u64 \<Rightarrow> u64 \<Rightarrow> (u64 \<times> u64 \<times> u64 \<times> mem) res" where
  "strncpy_bytes stop m d s n =
     (if (stop \<longrightarrow> s AND ALIGN \<noteq> 0) \<and> n \<noteq> 0 then
        let m = m(d := m s)
        in if m d \<noteq> 0
           then advance 1 s (\<lambda>s. advance 1 d (\<lambda>d. strncpy_bytes stop m d s (n - 1)))
           else Inr (d, s, n, m)
      else Inr (d, s, n, m))"
  by pat_completeness auto

termination strncpy_bytes
  by (relation "measure (\<lambda>(b, m, d, s, n). 2 ^ 64 - unat s)") (auto intro!: advance_measure)

function strncpy_words :: "mem \<Rightarrow> u64 \<Rightarrow> u64 \<Rightarrow> u64 \<Rightarrow> (u64 \<times> u64 \<times> u64 \<times> mem) res" where
  "strncpy_words m wd ws n =
     (if SS \<le> n \<and> HASZERO (load64 m ws) = 0
      then advance 8 ws (\<lambda>ws'. advance 8 wd (\<lambda>wd'. strncpy_words (store64 m wd (load64 m ws)) wd' ws' (n - SS)))
      else Inr (wd, ws, n, m))"
  by pat_completeness auto

termination strncpy_words
  by (relation "measure (\<lambda>(m, d, s, n). 2 ^ 64 - unat s)") (auto intro!: advance_measure)

definition strncpy :: "mem \<Rightarrow> u64 \<Rightarrow> u64 \<Rightarrow> u64 \<Rightarrow> (u64 \<times> mem) res" where
  "strncpy m d s n =
     bind_res
       (if s AND ALIGN = d AND ALIGN then
          bind_res (strncpy_bytes True m d s n)
            (\<lambda>(d, s, n, m). if n = 0 \<or> m s = 0 then Inr (d, n, m)
              else bind_res (strncpy_words m d s n)
                (\<lambda>(d, s, n, m). bind_res (strncpy_bytes False m d s n) (\<lambda>(d, s, n, m). Inr (d, n, m))))
        else bind_res (strncpy_bytes False m d s n) (\<lambda>(d, s, n, m). Inr (d, n, m)))
       (\<lambda>(d, n, m). user_memset m d 0 n)"

declare skip_spaces.simps [simp del] atoi_digits.simps [simp del] user_memset_loop.simps [simp del]
  user_strcmp.simps [simp del] strncmp_loop.simps [simp del] strlen_head.simps [simp del]
  strlen_words.simps [simp del] memchr_head.simps [simp del] memchr_words.simps [simp del]
  memchr_tail.simps [simp del] strcpy_head.simps [simp del] strcpy_words.simps [simp del]
  strcpy_tail.simps [simp del] strncpy_bytes.simps [simp del] strncpy_words.simps [simp del]

section \<open>The zero-byte test\<close>

lemma uint_byte_of: "uint (byte_of w j) = uint w div 256 ^ j mod 256"
proof -
  have "uint (byte_of w j) = take_bit 8 (drop_bit (8 * j) (uint w))"
    by (rule bit_eqI) (auto simp: byte_of_def bit_simps bit_uint_iff)
  also have "\<dots> = uint w div 256 ^ j mod 256"
    by (simp add: take_bit_eq_mod drop_bit_eq_div power_mult)
  finally show ?thesis .
qed

lemma digit_of_sum:
  fixes b :: "nat \<Rightarrow> int"
  assumes "\<And>j. j < n \<Longrightarrow> 0 \<le> b j \<and> b j < 256" and "i < n"
  shows "(\<Sum>j<n. b j * 256 ^ j) div 256 ^ i mod 256 = b i"
  using assms
proof (induction n)
  case (Suc n)
  let ?S = "\<Sum>j<n. b j * 256 ^ j"
  show ?case
  proof (cases "i = n")
    case True
    have lo: "0 \<le> ?S" by (rule sum_nonneg) (use Suc.prems(1) in auto)
    have geo: "(\<Sum>j<n. 255 * 256 ^ j) = (256 ^ n - 1 :: int)" by (induction n) simp_all
    have "b j \<le> 255" if "j < n" for j using Suc.prems(1) [of j] that by simp
    then have "?S \<le> (\<Sum>j<n. 255 * 256 ^ j)" by (intro sum_mono mult_right_mono) auto
    then have "?S < 256 ^ n" unfolding geo by simp
    then show ?thesis using True lo Suc.prems(1) [of n] by simp
  next
    case False
    then have i: "i < n" using Suc.prems(2) by simp
    then obtain d where n: "n = i + Suc d" by (metis less_iff_Suc_add add_Suc_right)
    have "?S + b n * 256 ^ n = ?S + (b n * 256 ^ d * 256) * 256 ^ i" by (simp add: n power_add)
    then have "(?S + b n * 256 ^ n) div 256 ^ i = ?S div 256 ^ i + b n * 256 ^ d * 256"
      by (simp only: div_mult_self1) simp
    then have "(?S + b n * 256 ^ n) div 256 ^ i mod 256 = ?S div 256 ^ i mod 256" by simp
    also have "\<dots> = b i" by (rule Suc.IH) (use Suc.prems(1) i in auto)
    finally show ?thesis by simp
  qed
qed simp

lemma byte_of_ONES_mult:
  assumes "i < 8"
  shows "byte_of (ONES * ucast (c :: u8)) i = c"
proof -
  have c: "0 \<le> uint c" "uint c < 256" using unsigned_less [of c, where 'a = int] by simp_all
  have sum: "(\<Sum>j<8. x * 256 ^ j) = 0x0101010101010101 * x" for x :: int
    by (simp add: lessThan_nat_numeral lessThan_Suc)
  have cu: "uint (ucast c :: u64) = uint c"
    using c by (simp add: unsigned_ucast_eq take_bit_int_eq_self)
  have "uint (ONES * ucast c) = (uint ONES * uint c) mod 2 ^ 64" by (simp add: uint_word_ariths cu)
  also have "uint ONES = 0x0101010101010101" by (simp add: ONES_def)
  also have "0x0101010101010101 * uint c mod 2 ^ 64 = 0x0101010101010101 * uint c"
    by (rule mod_pos_pos_trivial) (use c in simp_all)
  finally have "uint (ONES * ucast c) = (\<Sum>j<8. uint c * 256 ^ j)"
    by (simp only: sum)
  then have "uint (byte_of (ONES * ucast c) i) = uint c"
    using digit_of_sum [of 8 "\<lambda>_. uint c" i] c assms by (simp add: uint_byte_of)
  then show ?thesis by (simp add: word_uint_eq_iff)
qed

lemma bit_HIGHS: "bit HIGHS n \<longleftrightarrow> n < 64 \<and> n mod 8 = 7"
proof -
  define c :: u8 where "c = push_bit 7 1"
  have c: "bit c k \<longleftrightarrow> k = 7" for k by (auto simp only: c_def bit_push_bit_iff bit_1_iff) simp_all
  have h: "HIGHS = ONES * ucast c" by (simp add: HIGHS_def c_def)
  show ?thesis
  proof (cases "n < 64")
    case True
    then have "n div 8 < 8" by simp
    from byte_of_ONES_mult [OF this, of c] have "byte_of HIGHS (n div 8) = c" by (simp only: h)
    then show ?thesis using bit_byte_of [of HIGHS "n div 8" "n mod 8"] c True by simp
  next
    case False
    then show ?thesis using bit_imp_le_length [of HIGHS n] by auto
  qed
qed

lemma low_bytes: "uint w mod 256 ^ n = (\<Sum>j<n. uint (byte_of w j) * 256 ^ j)"
proof (induction n)
  case (Suc n)
  have "uint w mod 256 ^ Suc n = 256 ^ n * (uint w div 256 ^ n mod 256) + uint w mod 256 ^ n"
    using mod_mult2_eq' [of "uint w" "256 ^ n" 256] by (simp add: mult.commute)
  then show ?case using Suc by (simp add: uint_byte_of)
qed simp

text \<open>
  Bit 7 of byte \<^verbatim>\<open>i\<close> of \<^verbatim>\<open>x - ONES\<close>: as long as no byte below it is zero no borrow comes in.
\<close>

lemma bit_minus_ONES:
  assumes i: "i < 8" and nz: "\<forall>j < i. byte_of w j \<noteq> 0"
  shows "bit (w - ONES) (8 * i + 7) \<longleftrightarrow> bit (uint (byte_of w i) - 1) 7"
proof -
  let ?R = "\<Sum>j<i. (uint (byte_of w j) - 1) * 256 ^ j"
  have b: "uint (byte_of w j) < 256" for j
    using unsigned_less [of "byte_of w j", where 'a = int] by simp
  have lo: "0 \<le> ?R"
  proof (rule sum_nonneg)
    fix j assume "j \<in> {..<i}"
    then have "uint (byte_of w j) \<noteq> 0" using nz by (simp add: uint_0_iff)
    then have "1 \<le> uint (byte_of w j)" using uint_ge_0 [of "byte_of w j"] by linarith
    then show "0 \<le> (uint (byte_of w j) - 1) * 256 ^ j" by simp
  qed
  have geo: "(\<Sum>j<n. 255 * 256 ^ j) = (256 ^ n - 1 :: int)" for n :: nat by (induction n) simp_all
  have "?R \<le> (\<Sum>j<i. 255 * 256 ^ j)"
    by (rule sum_mono) (use b in \<open>simp add: order.strict_implies_order less_imp_le\<close>)
  then have hi: "?R < 256 ^ i" unfolding geo by simp
  let ?P = "256 ^ Suc i :: int"
  have P: "?P = 2 ^ (8 * i + 8)" by (simp add: power_add power_mult)
  have ones: "byte_of ONES j = 1" if "j < 8" for j using byte_of_ONES_mult [OF that, of 1] by simp
  have "uint (w - ONES) mod ?P = (uint w - uint ONES) mod 2 ^ 64 mod ?P"
    by (simp add: uint_word_ariths)
  also have "\<dots> = (uint w - uint ONES) mod ?P"
    by (rule mod_mod_cancel) (use i in \<open>simp only: P, intro le_imp_power_dvd, simp\<close>)
  also have "\<dots> = (uint w mod ?P - uint ONES mod ?P) mod ?P" by (simp only: mod_diff_eq)
  also have "uint w mod ?P - uint ONES mod ?P = ?R + (uint (byte_of w i) - 1) * 256 ^ i"
    using i by (simp only: low_bytes sum.lessThan_Suc) (simp add: ones sum_subtractf algebra_simps)
  finally have "take_bit (8 * i + 8) (uint (w - ONES)) = take_bit (8 * i + 8) (?R + (uint (byte_of w i) - 1) * 256 ^ i)"
    by (simp only: take_bit_eq_mod P)
  from arg_cong [OF this, of "\<lambda>x. bit x (8 * i + 7)"]
  have "bit (uint (w - ONES)) (8 * i + 7) = bit (?R + (uint (byte_of w i) - 1) * 256 ^ i) (8 * i + 7)"
    by (simp add: bit_take_bit_iff)
  also have "\<dots> = odd ((?R + (uint (byte_of w i) - 1) * 256 ^ i) div 256 ^ i div 2 ^ 7)"
    by (simp add: bit_iff_odd power_add power_mult zdiv_zmult2_eq)
  also have "(?R + (uint (byte_of w i) - 1) * 256 ^ i) div 256 ^ i = uint (byte_of w i) - 1"
    using lo hi by simp
  finally show ?thesis using i by (simp only: bit_uint_iff bit_iff_odd [of "uint (byte_of w i) - 1"]) simp
qed

lemma byte_borrow:
  fixes b :: u8
  shows "bit (uint b - 1) 7 \<and> \<not> bit b 7 \<longleftrightarrow> b = 0"
proof -
  have c: "odd ((x - 1) div 128) \<and> \<not> odd (x div 128) \<longleftrightarrow> x = 0" if "0 \<le> x" "x < 256" for x :: int
  proof -
    consider "x = 0" | "1 \<le> x" "x \<le> 128" | "129 \<le> x" using \<open>0 \<le> x\<close> by linarith
    then show ?thesis
    proof cases
      case 2
      then have "(x - 1) div 128 = 0" by simp
      with 2 show ?thesis by simp
    next
      case 3
      have "x div 128 = 1" by (rule int_div_pos_eq [where r = "x - 128"]) (use 3 that in auto)
      with 3 show ?thesis by simp
    qed simp
  qed
  have "uint b < 256" using unsigned_less [of b, where 'a = int] by simp
  then have "odd ((uint b - 1) div 128) \<and> \<not> odd (uint b div 128) \<longleftrightarrow> uint b = 0"
    by (intro c) simp_all
  moreover have "bit b 7 \<longleftrightarrow> odd (uint b div 128)"
    using bit_uint_iff [of b 7] by (simp add: bit_iff_odd [of "uint b"])
  ultimately show ?thesis by (simp add: bit_iff_odd [of "uint b - 1"] uint_0_iff)
qed

lemma HASZERO_iff: "HASZERO w \<noteq> 0 \<longleftrightarrow> (\<exists>i < 8. byte_of w i = 0)"
proof
  assume "HASZERO w \<noteq> 0"
  then obtain n where n: "bit (HASZERO w) n" by (metis bit_eqI bit_0_eq bot_apply bot_bool_def)
  then have h: "n < 64" "n mod 8 = 7" "bit (w - ONES) n" "\<not> bit w n"
    by (auto simp: HASZERO_def bit_simps bit_HIGHS)
  define i where "i = n div 8"
  have ni: "n = 8 * i + 7" "i < 8" using h(1,2) by (simp_all add: i_def) presburger
  show "\<exists>i < 8. byte_of w i = 0"
  proof (rule ccontr)
    assume no: "\<not> ?thesis"
    with ni have "bit (uint (byte_of w i) - 1) 7" using bit_minus_ONES [of i w] h(3) by auto
    moreover have "\<not> bit (byte_of w i) 7" using h(4) ni by (simp add: bit_byte_of)
    ultimately have "byte_of w i = 0" using byte_borrow by blast
    with no ni show False by auto
  qed
next
  assume ex: "\<exists>i < 8. byte_of w i = 0"
  define i where "i = (LEAST i. i < 8 \<and> byte_of w i = 0)"
  have i: "i < 8" "byte_of w i = 0" using LeastI_ex [OF ex] by (simp_all add: i_def)
  have "byte_of w j \<noteq> 0" if "j < i" for j
    using not_less_Least [of j "\<lambda>i. i < 8 \<and> byte_of w i = 0"] that i(1) by (auto simp: i_def)
  then have "bit (w - ONES) (8 * i + 7)" using bit_minus_ONES [of i w] i byte_borrow [of "byte_of w i"] by auto
  moreover have "\<not> bit w (8 * i + 7)" using i(2) bit_byte_of [of w i 7] by simp
  ultimately have "bit (HASZERO w) (8 * i + 7)"
    using i(1) by (auto simp: HASZERO_def bit_simps bit_HIGHS)
  then show "HASZERO w \<noteq> 0" by auto
qed

lemma HASZERO_load: "HASZERO (load64 m w) = 0 \<longleftrightarrow> (\<forall>i < 8. m (w + of_nat i) \<noteq> 0)"
  using HASZERO_iff [of "load64 m w"] by (auto simp: byte_of_load64)

section \<open>strlen\<close>

lemma strlen_words_run:
  "string_at m w n \<Longrightarrow> \<exists>k \<le> n. strlen_words m w = Inr (w + of_nat k)"
proof (induction n arbitrary: w rule: less_induct)
  case (less n)
  show ?case
  proof (cases "n < 8")
    case True
    then have "HASZERO (load64 m w) \<noteq> 0"
      using less.prems by (auto simp: HASZERO_load string_at_def)
    then have "strlen_words m w = Inr w" by (simp add: strlen_words.simps)
    then show ?thesis by (intro exI [of _ 0]) simp
  next
    case False
    then have "HASZERO (load64 m w) = 0" using less.prems by (auto simp: HASZERO_load string_at_def)
    moreover have "unat w + 8 < 2 ^ 64" using less.prems False by (simp add: string_at_def)
    ultimately have step: "strlen_words m w = strlen_words m (w + 8)"
      by (subst strlen_words.simps) (simp add: advance_ok)
    have "string_at m (w + 8) (n - 8)" using string_at_drop [OF less.prems, of 8] False by simp
    then obtain k where "k \<le> n - 8" "strlen_words m (w + 8) = Inr (w + 8 + of_nat k)"
      using less.IH [of "n - 8" "w + 8"] False by auto
    then show ?thesis using step False by (intro exI [of _ "8 + k"]) (simp add: add.assoc)
  qed
qed

lemma strlen_head_run:
  "string_at m s n \<Longrightarrow>
   strlen_head m s = Inr (Inl (s + of_nat n)) \<or> (\<exists>k \<le> n. strlen_head m s = Inr (Inr (s + of_nat k)))"
proof (induction n arbitrary: s)
  case 0
  then show ?case by (subst (1 2) strlen_head.simps) (auto simp: string_at_0)
next
  case (Suc n)
  then have s: "m s \<noteq> 0" "unat s + 1 < 2 ^ 64" "string_at m (s + 1) n" by (simp_all add: string_at_Suc)
  show ?case
  proof (cases "s mod SS = 0")
    case True
    then have "strlen_head m s = Inr (Inr (s + of_nat 0))" by (simp add: strlen_head.simps)
    then show ?thesis by blast
  next
    case False
    then have step: "strlen_head m s = strlen_head m (s + 1)"
      using s by (subst strlen_head.simps) (simp add: advance_ok)
    from Suc.IH [OF s(3)] show ?thesis
    proof
      assume "strlen_head m (s + 1) = Inr (Inl (s + 1 + of_nat n))"
      then show ?thesis by (simp add: step add.assoc)
    next
      assume "\<exists>k \<le> n. strlen_head m (s + 1) = Inr (Inr (s + 1 + of_nat k))"
      then obtain k where "k \<le> n" "strlen_head m (s + 1) = Inr (Inr (s + of_nat (Suc k)))"
        by (auto simp: add.assoc)
      then show ?thesis unfolding step by (metis Suc_le_mono)
    qed
  qed
qed

lemma strend_drop:
  assumes "string_at m p n" and "k \<le> n"
  shows "strend m (p + of_nat k) = Inr (p + of_nat n)"
  using strend_run [OF string_at_drop [OF assms]] assms(2) by (simp add: of_nat_diff)

lemma user_strlen_run:
  assumes "string_at m s n"
  shows "user_strlen m s = Inr (of_nat n)"
  using strlen_head_run [OF assms]
proof
  assume "\<exists>k \<le> n. strlen_head m s = Inr (Inr (s + of_nat k))"
  then obtain k where k: "k \<le> n" "strlen_head m s = Inr (Inr (s + of_nat k))" by blast
  obtain j where j: "j \<le> n - k" "strlen_words m (s + of_nat k) = Inr (s + of_nat k + of_nat j)"
    using strlen_words_run [OF string_at_drop [OF assms k(1)]] by blast
  have "strend m (s + of_nat k + of_nat j) = Inr (s + of_nat n)"
    using strend_drop [OF assms, of "k + j"] k(1) j(1) by (simp add: add.assoc)
  then show ?thesis by (simp add: user_strlen_def k(2) j(2))
qed (simp add: user_strlen_def)

text \<open>Without a terminating zero both run to the end of the address space.\<close>

lemma strlen_words_wrap:
  "\<nexists>n. string_at m w n \<Longrightarrow> w mod SS = 0 \<Longrightarrow> strlen_words m w = Inl AddrWrap"
proof (induction m w rule: strlen_words.induct)
  case (1 m w)
  have al: "unat w mod 8 = 0" using 1(3) by (simp add: SS_def word_unat_eq_iff unat_mod)
  have lt: "unat w + 8 \<le> 2 ^ 64"
  proof -
    obtain q where q: "unat w = 8 * q" using al by auto
    have "8 * q < 8 * 2 ^ 61" using unsigned_less [of w, where 'a = nat] q by simp
    then have "q < 2 ^ 61" by simp
    then have "Suc q \<le> 2 ^ 61" by simp
    then have "8 * Suc q \<le> 8 * 2 ^ 61" by simp
    then show ?thesis using q by simp
  qed
  have "m (w + of_nat i) \<noteq> 0" if "i < 8" for i using no_string_cases [OF 1(2), of i] that lt by simp
  then have h: "HASZERO (load64 m w) = 0" by (simp add: HASZERO_load)
  show ?case
  proof (cases "w + 8 < w")
    case True
    then show ?thesis using h by (subst strlen_words.simps) (simp add: advance_def)
  next
    case False
    have u: "unat (w + 8) = unat w + 8" using no_wrap_add [OF False] by simp
    then have "unat w + 8 < 2 ^ 64" using unsigned_less [of "w + 8", where 'a = nat] by simp
    then have "\<nexists>n. string_at m (w + 8) n" using no_string_drop [OF 1(2), of 8] by simp
    moreover have "(w + 8) mod SS = 0" using al u by (simp add: SS_def word_unat_eq_iff unat_mod)
    ultimately show ?thesis using h False 1(1) by (subst strlen_words.simps) (simp add: advance_def)
  qed
qed

lemma strlen_head_wrap:
  "\<nexists>n. string_at m s n \<Longrightarrow>
   strlen_head m s = Inl AddrWrap \<or> (\<exists>p. strlen_head m s = Inr (Inr p) \<and> p mod SS = 0 \<and> (\<nexists>n. string_at m p n))"
proof (induction m s rule: strlen_head.induct)
  case (1 m s)
  have nz: "m s \<noteq> 0" using no_string_cases [OF 1(2), of 0] unsigned_less [of s, where 'a = nat] by simp
  show ?case
  proof (cases "s mod SS = 0")
    case True
    then show ?thesis using 1(2) by (simp add: strlen_head.simps)
  next
    case al: False
    show ?thesis
    proof (cases "s + 1 < s")
      case True
      then show ?thesis using nz al by (subst strlen_head.simps) (simp add: advance_def)
    next
      case False
      have "unat s + 1 < 2 ^ 64"
        using no_wrap_add [OF False] unsigned_less [of "s + 1", where 'a = nat] by simp
      then have "\<nexists>n. string_at m (s + 1) n" using no_string_drop [OF 1(2), of 1] by simp
      moreover have "strlen_head m s = strlen_head m (s + 1)"
        using nz al False by (subst strlen_head.simps) (simp add: advance_def)
      ultimately show ?thesis using 1(1) [OF al nz False] by simp
    qed
  qed
qed

text \<open>
  (C26) The word-at-a-time \<^verbatim>\<open>strlen\<close> of the test library and the byte loop of the kernel's
  library are the same function: on every memory and every pointer they return the same
  length, or both run past the end of the address space.
\<close>

theorem user_strlen_eq_strlen: "user_strlen m s = strlen m s"
proof (cases "\<exists>n. string_at m s n")
  case True
  then show ?thesis using user_strlen_run strlen_run by metis
next
  case False
  from strlen_head_wrap [OF False] have "user_strlen m s = Inl AddrWrap"
  proof
    assume "\<exists>p. strlen_head m s = Inr (Inr p) \<and> p mod SS = 0 \<and> (\<nexists>n. string_at m p n)"
    then show ?thesis
    proof (elim exE conjE)
      fix p assume p: "strlen_head m s = Inr (Inr p)" "p mod SS = 0" "\<nexists>n. string_at m p n"
      show ?thesis by (simp add: user_strlen_def p(1) strlen_words_wrap [OF p(3,2)])
    qed
  qed (simp add: user_strlen_def)
  then show ?thesis by (simp add: strlen_def strend_wrap [OF False])
qed

lemma user_strcmp_eq: "user_strcmp m l r = strcmp m l r"
proof (induction m l r rule: strcmp.induct)
  case (1 m l r)
  then show ?case
    by (subst user_strcmp.simps, subst strcmp.simps) (auto simp: Let_def advance_def)
qed

section \<open>memchr\<close>

lemma byte_of_xor: "byte_of (a XOR b) i = byte_of a i XOR byte_of b i"
  by (rule bit_word_eqI) (auto simp: bit_byte_of bit_simps)

lemma word_xor_0_iff: "(a :: u8) XOR b = 0 \<longleftrightarrow> a = b"
proof
  assume "a XOR b = 0"
  then have "(a XOR b) XOR b = 0 XOR b" by (rule arg_cong)
  then show "a = b" by (simp only: xor.assoc xor_self_eq xor.right_neutral xor.left_neutral)
qed simp

lemma HASZERO_xor:
  "HASZERO (load64 m w XOR ONES * ucast c) = 0 \<longleftrightarrow> (\<forall>i < 8. m (w + of_nat i) \<noteq> c)"
  using HASZERO_iff [of "load64 m w XOR ONES * ucast c"]
  by (auto simp: byte_of_xor byte_of_load64 byte_of_ONES_mult word_xor_0_iff)

text \<open>
  What each loop of \<^verbatim>\<open>memchr\<close> does: it moves the pointer forward over bytes that are not \<^verbatim>\<open>c\<close>
  and counts them off.
\<close>

definition skipped :: "mem \<Rightarrow> u8 \<Rightarrow> u64 \<Rightarrow> u64 \<Rightarrow> u64 \<times> u64 \<Rightarrow> bool" where
  "skipped m c s n r \<longleftrightarrow>
     (\<exists>k \<le> unat n. r = (s + of_nat k, n - of_nat k) \<and> (\<forall>i < k. m (s + of_nat i) \<noteq> c))"

lemma skipped_refl: "skipped m c s n (s, n)"
  by (auto simp: skipped_def intro: exI [of _ 0])

lemma skipped_trans:
  assumes "skipped m c s n (s', n')" and "skipped m c s' n' r"
  shows "skipped m c s n r"
proof -
  obtain k where k: "k \<le> unat n" "s' = s + of_nat k" "n' = n - of_nat k" "\<forall>i < k. m (s + of_nat i) \<noteq> c"
    using assms(1) by (auto simp: skipped_def)
  obtain j where j: "j \<le> unat n'" "r = (s' + of_nat j, n' - of_nat j)" "\<forall>i < j. m (s' + of_nat i) \<noteq> c"
    using assms(2) by (auto simp: skipped_def)
  have u: "unat (of_nat k :: u64) = k"
    using k(1) unsigned_less [of n, where 'a = nat] by (simp add: unat_of_nat)
  have "unat n' = unat n - k" using k(1,3) u by (simp add: unat_sub word_le_nat_alt)
  then have le: "k + j \<le> unat n" using j(1) k(1) by simp
  have "m (s + of_nat i) \<noteq> c" if "i < k + j" for i
  proof (cases "i < k")
    case False
    then have "i - k < j" using that by simp
    then have "m (s' + of_nat (i - k)) \<noteq> c" using j(3) by blast
    then show ?thesis using False k(2) by (simp add: of_nat_diff)
  qed (use k(4) in blast)
  moreover have "r = (s + of_nat (k + j), n - of_nat (k + j))" using j(2) k(2,3) by (simp add: algebra_simps)
  ultimately show ?thesis using le unfolding skipped_def by blast
qed

lemma skipped_step:
  assumes "unat (of_nat j :: u64) = j" and "of_nat j \<le> n" and "\<forall>i < j. m (s + of_nat i) \<noteq> c"
    and "skipped m c (s + of_nat j) (n - of_nat j) r"
  shows "skipped m c s n r"
proof (rule skipped_trans)
  show "skipped m c s n (s + of_nat j, n - of_nat j)"
    using assms(1-3) by (auto simp: skipped_def word_le_nat_alt)
qed (rule assms(4))

lemma room_step:
  fixes s n :: u64
  assumes "unat s + unat n < 2 ^ 64" and "j \<le> n"
  shows "advance j s c = c (s + j)" and "unat (s + j) + unat (n - j) < 2 ^ 64"
proof -
  have j: "unat j \<le> unat n" using assms(2) by (simp add: word_le_nat_alt)
  then show "advance j s c = c (s + j)" using assms(1) by (intro advance_ok) simp
  have "unat (s + j) = unat s + unat j" using assms(1) j by (simp add: unat_word_ariths)
  moreover have "unat (n - j) = unat n - unat j" using assms(2) by (simp add: unat_sub)
  ultimately show "unat (s + j) + unat (n - j) < 2 ^ 64" using assms(1) j by simp
qed

lemma memchr_head_run:
  "unat s + unat n < 2 ^ 64 \<Longrightarrow> \<exists>r. memchr_head m c s n = Inr r \<and> skipped m c s n r"
proof (induction m c s n rule: memchr_head.induct)
  case (1 m c s n)
  show ?case
  proof (cases "s AND ALIGN \<noteq> 0 \<and> n \<noteq> 0 \<and> m s \<noteq> c")
    case True
    then have le: "1 \<le> n" by (simp add: word_le_nat_alt Suc_le_eq unat_gt_0)
    note room = room_step [OF 1(2) le]
    have nw: "\<not> s + 1 < s" using 1(2) le by (simp add: word_less_nat_alt word_le_nat_alt unat_word_ariths)
    obtain r where "memchr_head m c (s + 1) (n - 1) = Inr r" "skipped m c (s + 1) (n - 1) r"
      using 1(1) [OF True nw room(2)] by blast
    moreover have "memchr_head m c s n = memchr_head m c (s + 1) (n - 1)"
      by (subst memchr_head.simps) (simp add: True room(1))
    ultimately show ?thesis using True skipped_step [of 1 n m s c r] le by simp
  next
    case False
    then show ?thesis using skipped_refl by (subst memchr_head.simps) auto
  qed
qed

lemma memchr_words_run:
  "unat s + unat n < 2 ^ 64 \<Longrightarrow>
   \<exists>r. memchr_words m (ONES * ucast c) s n = Inr r \<and> skipped m c s n r"
proof (induction m "ONES * ucast c" s n rule: memchr_words.induct)
  case (1 m w n)
  show ?case
  proof (cases "SS \<le> n \<and> HASZERO (load64 m w XOR ONES * ucast c) = 0")
    case True
    then have le: "8 \<le> n" and nz: "\<forall>i < 8. m (w + of_nat i) \<noteq> c" by (simp_all add: SS_def HASZERO_xor)
    note room = room_step [OF 1(2) le]
    have nw: "\<not> w + 8 < w" using 1(2) le by (simp add: word_less_nat_alt word_le_nat_alt unat_word_ariths)
    obtain r where "memchr_words m (ONES * ucast c) (w + 8) (n - SS) = Inr r" "skipped m c (w + 8) (n - 8) r"
      using 1(1) [OF True nw] room(2) by (auto simp: SS_def)
    moreover have "memchr_words m (ONES * ucast c) w n = memchr_words m (ONES * ucast c) (w + 8) (n - SS)"
      by (subst memchr_words.simps) (simp add: True room(1))
    ultimately show ?thesis using skipped_step [of 8 n m w c r] le nz by simp
  next
    case False
    then show ?thesis using skipped_refl by (subst memchr_words.simps) auto
  qed
qed

lemma memchr_tail_run:
  "unat s + unat n < 2 ^ 64 \<Longrightarrow>
   \<exists>s' n'. memchr_tail m c s n = Inr (s', n') \<and> skipped m c s n (s', n') \<and> (n' = 0 \<or> m s' = c)"
proof (induction m c s n rule: memchr_tail.induct)
  case (1 m c s n)
  show ?case
  proof (cases "n \<noteq> 0 \<and> m s \<noteq> c")
    case True
    then have le: "1 \<le> n" by (simp add: word_le_nat_alt Suc_le_eq unat_gt_0)
    note room = room_step [OF 1(2) le]
    have nw: "\<not> s + 1 < s" using 1(2) le by (simp add: word_less_nat_alt word_le_nat_alt unat_word_ariths)
    obtain s' n' where "memchr_tail m c (s + 1) (n - 1) = Inr (s', n')"
      "skipped m c (s + 1) (n - 1) (s', n')" "n' = 0 \<or> m s' = c"
      using 1(1) [OF True nw room(2)] by blast
    moreover have "memchr_tail m c s n = memchr_tail m c (s + 1) (n - 1)"
      by (subst memchr_tail.simps) (simp add: True room(1))
    ultimately show ?thesis using True skipped_step [of 1 n m s c "(s', n')"] le by simp
  next
    case False
    then show ?thesis using skipped_refl by (subst memchr_tail.simps) auto
  qed
qed

lemma memchr_run:
  assumes "unat src + unat n < 2 ^ 64"
  shows "\<exists>s' n'. memchr m src c n = Inr (if n' \<noteq> 0 then s' else 0) \<and> skipped m (ucast c) src n (s', n') \<and>
    (n' = 0 \<or> m s' = ucast c)"
proof -
  have room: "unat s + unat n' < 2 ^ 64" if sk: "skipped m (ucast c) src n (s, n')" for s n'
  proof -
    obtain k where k: "k \<le> unat n" "s = src + of_nat k" "n' = n - of_nat k" using sk by (auto simp: skipped_def)
    have "unat (of_nat k :: u64) = k" using k(1) unsigned_less [of n, where 'a = nat] by (simp add: unat_of_nat)
    then have "of_nat k \<le> n" using k(1) by (simp add: word_le_nat_alt)
    from room_step(2) [OF assms this] k show ?thesis by simp
  qed
  obtain s1 n1 where 1: "memchr_head m (ucast c) src n = Inr (s1, n1)" "skipped m (ucast c) src n (s1, n1)"
    using memchr_head_run [OF assms] by fastforce
  obtain s2 n2 where 2: "(if n1 \<noteq> 0 \<and> m s1 \<noteq> ucast c then memchr_words m (ONES * ucast (ucast c :: u8)) s1 n1 else Inr (s1, n1)) = Inr (s2, n2)"
    "skipped m (ucast c) s1 n1 (s2, n2)"
    using memchr_words_run [OF room [OF 1(2)], of m "ucast c"] skipped_refl
    by (cases "n1 \<noteq> 0 \<and> m s1 \<noteq> ucast c") fastforce+
  note sk2 = skipped_trans [OF 1(2) 2(2)]
  obtain s3 n3 where 3: "memchr_tail m (ucast c) s2 n2 = Inr (s3, n3)" "skipped m (ucast c) s2 n2 (s3, n3)"
    "n3 = 0 \<or> m s3 = ucast c"
    using memchr_tail_run [OF room [OF sk2]] by blast
  show ?thesis
    using skipped_trans [OF sk2 3(2)] 3(3) by (auto simp: memchr_def 1(1) 2(1) 3(1))
qed

lemma find_upt:
  assumes "k \<le> n" and "\<forall>i < k. \<not> P i" and "k < n \<longrightarrow> P k"
  shows "find P [0..<n] = (if k < n then Some k else None)"
proof (cases "k < n")
  case True
  then show ?thesis using assms(2,3) by (auto simp: find_Some_iff intro!: exI [of _ k])
next
  case False
  then show ?thesis using assms(1,2) by (auto simp: find_None_iff)
qed

lemma memchr_find:
  assumes "unat src + unat n < 2 ^ 64"
  shows "memchr m src c n =
    Inr (case find (\<lambda>i. m (src + of_nat i) = ucast c) [0..<unat n] of None \<Rightarrow> 0 | Some i \<Rightarrow> src + of_nat i)"
proof -
  obtain s' n' where r: "memchr m src c n = Inr (if n' \<noteq> 0 then s' else 0)"
    "skipped m (ucast c) src n (s', n')" "n' = 0 \<or> m s' = ucast c"
    using memchr_run [OF assms] by blast
  obtain k where k: "k \<le> unat n" "s' = src + of_nat k" "n' = n - of_nat k" "\<forall>i < k. m (src + of_nat i) \<noteq> ucast c"
    using r(2) by (auto simp: skipped_def)
  have u: "unat (of_nat k :: u64) = k" using k(1) unsigned_less [of n, where 'a = nat] by (simp add: unat_of_nat)
  then have "unat n' = unat n - k" using k(1,3) by (simp add: unat_sub word_le_nat_alt)
  then have n': "n' \<noteq> 0 \<longleftrightarrow> k < unat n" by (metis unat_eq_0 zero_less_diff gr0I not_less_zero)
  have "find (\<lambda>i. m (src + of_nat i) = ucast c) [0..<unat n] = (if k < unat n then Some k else None)"
    by (rule find_upt) (use k n' r(3) in auto)
  then show ?thesis using r(1) n' k(2) by simp
qed

lemma strnlen_run:
  assumes "unat s + unat n < 2 ^ 64" and "s \<noteq> 0" and "\<forall>i < k. m (s + of_nat i) \<noteq> 0" and "k \<le> unat n"
    and "k < unat n \<longrightarrow> m (s + of_nat k) = 0"
  shows "strnlen m s n = Inr (of_nat k)"
proof -
  have f: "find (\<lambda>i. m (s + of_nat i) = ucast (0 :: u32)) [0..<unat n] = (if k < unat n then Some k else None)"
    by (rule find_upt) (use assms in auto)
  have "unat (s + of_nat k) = unat s + k"
    using assms(1,4) by (simp add: unat_word_ariths unat_of_nat)
  then have "s + of_nat k \<noteq> 0" using assms(2) by (metis add_is_0 unat_eq_0 unat_0)
  moreover have "n = of_nat k" if "\<not> k < unat n"
  proof -
    have "k = unat n" using that assms(4) by simp
    then show ?thesis by simp
  qed
  ultimately show ?thesis using f by (auto simp: strnlen_def memchr_find [OF assms(1)])
qed

section \<open>strcpy and strncpy\<close>

lemma copy_keeps:
  assumes "disjoint d s n" and "unat s + n \<le> 2 ^ 64" and "unat d + n \<le> 2 ^ 64" and "k \<le> n" and "n < 2 ^ 64"
    and "i < n"
  shows "copy_mem m d s (of_nat k) (s + of_nat i) = m (s + of_nat i)"
proof -
  have u: "unat (s + of_nat i) = unat s + i" "unat (of_nat k :: u64) = k"
    using assms by (simp_all add: unat_word_ariths unat_of_nat)
  have "\<not> unat (s + of_nat i - d) < k"
    using word_offset_less [of d k "s + of_nat i"] assms u(1) by (auto simp: disjoint_def word_le_nat_alt)
  then show ?thesis using u(2) by (simp add: copy_mem_def word_less_nat_alt)
qed

lemma string_at_copy:
  assumes "string_at m s n" and "disjoint d s (Suc n)" and "unat d + n < 2 ^ 64" and "k \<le> Suc n"
  shows "string_at (copy_mem m d s (of_nat k)) s n"
proof -
  have b: "unat s + Suc n \<le> 2 ^ 64" "unat d + Suc n \<le> 2 ^ 64" "Suc n < 2 ^ 64"
    using assms(1-3) by (auto simp: string_at_def disjoint_def)
  have "copy_mem m d s (of_nat k) (s + of_nat i) = m (s + of_nat i)" if "i \<le> n" for i
    by (rule copy_keeps [OF assms(2) b(1,2) assms(4) b(3)]) (use that in simp)
  then show ?thesis using assms(1) by (simp add: string_at_def)
qed

lemma disjoint_mono: "disjoint d s n \<Longrightarrow> k \<le> n \<Longrightarrow> disjoint d s k"
  by (auto simp: disjoint_def)

lemma disjoint_drop:
  assumes "disjoint d s n" and "k \<le> n" and "unat d + n \<le> 2 ^ 64" and "unat s + n \<le> 2 ^ 64" and "k < n"
  shows "disjoint (d + of_nat k) (s + of_nat k) (n - k)"
    and "unat (d + of_nat k) = unat d + k" and "unat (s + of_nat k) = unat s + k"
proof -
  show u: "unat (d + of_nat k) = unat d + k" "unat (s + of_nat k) = unat s + k"
    using assms(3-5) by (simp_all add: unat_word_ariths unat_of_nat)
  show "disjoint (d + of_nat k) (s + of_nat k) (n - k)" using assms(1,5) u by (auto simp: disjoint_def)
qed

lemma strcpy_tail_run:
  assumes "string_at m s n" and "unat d + n < 2 ^ 64" and "disjoint d s (Suc n)"
  shows "strcpy_tail m d s = Inr (d + of_nat n, copy_mem m d s (of_nat (Suc n)))"
  using assms
proof (induction n arbitrary: m d s)
  case 0
  then show ?case by (subst strcpy_tail.simps) (simp add: string_at_0 Let_def copy_mem_1 [symmetric])
next
  case (Suc n)
  have s: "m s \<noteq> 0" "unat s + 1 < 2 ^ 64" using Suc.prems(1) by (simp_all add: string_at_Suc)
  let ?m = "copy_mem m d s 1"
  have "string_at ?m s (Suc n)"
    using string_at_copy [OF Suc.prems(1,3,2), of 1] by simp
  from string_at_drop [OF this, of 1] have s': "string_at ?m (s + 1) n" by simp
  have big: "unat s + Suc (Suc n) \<le> 2 ^ 64" "unat d + Suc (Suc n) \<le> 2 ^ 64" "Suc (Suc n) < 2 ^ 64"
    using Suc.prems by (auto simp: string_at_def disjoint_def)
  note dd = disjoint_drop [OF Suc.prems(3) _ big(2,1), of 1]
  have "strcpy_tail m d s = strcpy_tail ?m (d + 1) (s + 1)"
    using s Suc.prems(2) by (subst strcpy_tail.simps) (simp add: Let_def advance_ok copy_mem_1 [symmetric])
  also have "\<dots> = Inr (d + 1 + of_nat n, copy_mem ?m (d + 1) (s + 1) (of_nat (Suc n)))"
    using Suc.IH [OF s'] dd Suc.prems(2) by simp
  also have "copy_mem ?m (d + 1) (s + 1) (of_nat (Suc n)) = copy_mem m d s (of_nat (Suc (Suc n)))"
    using copy_mem_step [of d 1 "Suc n" s m] Suc.prems(3) big by simp
  finally show ?case by (simp add: add.assoc)
qed

lemma strcpy_words_run:
  assumes "string_at m s n" and "unat d + n < 2 ^ 64" and "disjoint d s (Suc n)"
  shows "\<exists>k \<le> n. strcpy_words m d s = Inr (d + of_nat k, s + of_nat k, copy_mem m d s (of_nat k))"
  using assms
proof (induction n arbitrary: m d s rule: less_induct)
  case (less n)
  show ?case
  proof (cases "n < 8")
    case True
    then have "HASZERO (load64 m s) \<noteq> 0"
      using less.prems(1) by (auto simp: HASZERO_load string_at_def)
    then have "strcpy_words m d s = Inr (d, s, m)" by (simp add: strcpy_words.simps)
    then show ?thesis by (intro exI [of _ 0]) simp
  next
    case False
    then have "HASZERO (load64 m s) = 0" using less.prems(1) by (auto simp: HASZERO_load string_at_def)
    moreover have "unat s + 8 < 2 ^ 64" using less.prems(1) False by (simp add: string_at_def)
    ultimately have step: "strcpy_words m d s = strcpy_words (copy_mem m d s 8) (d + 8) (s + 8)"
      using less.prems(2) False by (subst strcpy_words.simps) (simp add: advance_ok store64_load64)
    have "string_at (copy_mem m d s 8) s n"
      using string_at_copy [OF less.prems(1,3,2), of 8] False by simp
    from string_at_drop [OF this, of 8] have s': "string_at (copy_mem m d s 8) (s + 8) (n - 8)"
      using False by simp
    have big: "unat s + Suc n \<le> 2 ^ 64" "unat d + Suc n \<le> 2 ^ 64" "Suc n < 2 ^ 64"
      using less.prems by (auto simp: string_at_def disjoint_def)
    note dd = disjoint_drop [OF less.prems(3) _ big(2,1), of 8]
    have "Suc n - 8 = Suc (n - 8)" using False by simp
    then have "disjoint (d + 8) (s + 8) (Suc (n - 8))" "unat (d + 8) + (n - 8) < 2 ^ 64"
      using dd False less.prems(2) by simp_all
    then obtain k where k: "k \<le> n - 8" "strcpy_words (copy_mem m d s 8) (d + 8) (s + 8) =
        Inr (d + 8 + of_nat k, s + 8 + of_nat k, copy_mem (copy_mem m d s 8) (d + 8) (s + 8) (of_nat k))"
      using less.IH [OF _ s'] False by auto
    moreover have "copy_mem (copy_mem m d s 8) (d + 8) (s + 8) (of_nat k) = copy_mem m d s (of_nat (8 + k))"
      using copy_mem_step [of d 8 k s m] k(1) False disjoint_mono [OF less.prems(3), of "8 + k"] big by simp
    ultimately show ?thesis using step False by (intro exI [of _ "8 + k"]) (simp add: add.assoc)
  qed
qed

lemma strcpy_head_run:
  assumes "string_at m s n" and "unat d + n < 2 ^ 64" and "disjoint d s (Suc n)"
  shows "strcpy_head m d s = Inr (Inl (d + of_nat n), copy_mem m d s (of_nat (Suc n))) \<or>
    (\<exists>k \<le> n. strcpy_head m d s = Inr (Inr (d + of_nat k, s + of_nat k), copy_mem m d s (of_nat k)))"
  using assms
proof (induction n arbitrary: m d s)
  case 0
  show ?case
  proof (cases "s mod SS = 0")
    case True
    then have "strcpy_head m d s = Inr (Inr (d + of_nat 0, s + of_nat 0), copy_mem m d s (of_nat 0))"
      by (simp add: strcpy_head.simps)
    then show ?thesis by blast
  next
    case False
    then have "strcpy_head m d s = Inr (Inl (d + of_nat 0), copy_mem m d s (of_nat (Suc 0)))"
      using "0.prems"(1) by (subst strcpy_head.simps) (simp add: string_at_0 Let_def copy_mem_1 [symmetric])
    then show ?thesis by blast
  qed
next
  case (Suc n)
  have s: "m s \<noteq> 0" "unat s + 1 < 2 ^ 64" using Suc.prems(1) by (simp_all add: string_at_Suc)
  let ?m = "copy_mem m d s 1"
  show ?case
  proof (cases "s mod SS = 0")
    case True
    then have "strcpy_head m d s = Inr (Inr (d + of_nat 0, s + of_nat 0), copy_mem m d s (of_nat 0))"
      by (simp add: strcpy_head.simps)
    then show ?thesis by blast
  next
    case False
    have "string_at ?m s (Suc n)" using string_at_copy [OF Suc.prems(1,3,2), of 1] by simp
    from string_at_drop [OF this, of 1] have s': "string_at ?m (s + 1) n" by simp
    have big: "unat s + Suc (Suc n) \<le> 2 ^ 64" "unat d + Suc (Suc n) \<le> 2 ^ 64" "Suc (Suc n) < 2 ^ 64"
      using Suc.prems by (auto simp: string_at_def disjoint_def)
    note dd = disjoint_drop [OF Suc.prems(3) _ big(2,1), of 1]
    have step: "strcpy_head m d s = strcpy_head ?m (d + 1) (s + 1)"
      using s False Suc.prems(2) by (subst strcpy_head.simps) (simp add: Let_def advance_ok copy_mem_1 [symmetric])
    have copy: "copy_mem ?m (d + 1) (s + 1) (of_nat k) = copy_mem m d s (of_nat (Suc k))" if "k \<le> Suc n" for k
      using copy_mem_step [of d 1 k s m] disjoint_mono [OF Suc.prems(3), of "1 + k"] big that by simp
    have assoc: "p + 1 + of_nat k = p + of_nat (Suc k)" for p :: u64 and k by simp
    have p: "unat (d + 1) + n < 2 ^ 64" "disjoint (d + 1) (s + 1) (Suc n)" using dd Suc.prems(2) by simp_all
    from Suc.IH [OF s' p] consider
        "strcpy_head ?m (d + 1) (s + 1) = Inr (Inl (d + 1 + of_nat n), copy_mem ?m (d + 1) (s + 1) (of_nat (Suc n)))"
      | k where "k \<le> n" "strcpy_head ?m (d + 1) (s + 1) =
          Inr (Inr (d + 1 + of_nat k, s + 1 + of_nat k), copy_mem ?m (d + 1) (s + 1) (of_nat k))"
      by blast
    then show ?thesis
    proof cases
      case 1
      then show ?thesis unfolding step assoc copy [OF order_refl] by blast
    next
      case (2 k)
      then have "Suc k \<le> Suc n" "strcpy_head m d s =
          Inr (Inr (d + of_nat (Suc k), s + of_nat (Suc k)), copy_mem m d s (of_nat (Suc k)))"
        using copy [of k] unfolding step assoc by simp_all
      then show ?thesis by blast
    qed
  qed
qed

lemma copy_then_copy:
  assumes "string_at m s n" and "unat d + n < 2 ^ 64" and "disjoint d s (Suc n)" and "k \<le> n"
  shows "string_at (copy_mem m d s (of_nat k)) (s + of_nat k) (n - k)"
    and "unat (d + of_nat k) + (n - k) < 2 ^ 64"
    and "disjoint (d + of_nat k) (s + of_nat k) (Suc (n - k))"
    and "k + j \<le> Suc n \<Longrightarrow>
      copy_mem (copy_mem m d s (of_nat k)) (d + of_nat k) (s + of_nat k) (of_nat j) = copy_mem m d s (of_nat (k + j))"
proof -
  have big: "unat s + Suc n \<le> 2 ^ 64" "unat d + Suc n \<le> 2 ^ 64" "Suc n < 2 ^ 64"
    using assms by (auto simp: string_at_def disjoint_def)
  show "string_at (copy_mem m d s (of_nat k)) (s + of_nat k) (n - k)"
    using string_at_drop [OF string_at_copy [OF assms(1,3,2)]] assms(4) by simp
  note dd = disjoint_drop [OF assms(3) _ big(2,1), of k]
  show "unat (d + of_nat k) + (n - k) < 2 ^ 64" using dd(2) assms(2,4) by simp
  have "Suc n - k = Suc (n - k)" using assms(4) by simp
  then show "disjoint (d + of_nat k) (s + of_nat k) (Suc (n - k))" using dd(1) assms(4) by simp
  show "copy_mem (copy_mem m d s (of_nat k)) (d + of_nat k) (s + of_nat k) (of_nat j) =
      copy_mem m d s (of_nat (k + j))" if "k + j \<le> Suc n"
    by (rule copy_mem_step) (use big that disjoint_mono [OF assms(3) that] in simp_all)
qed

lemma user_strcpy_run:
  assumes "string_at m s n" and "unat d + n < 2 ^ 64" and "disjoint d s (Suc n)"
  shows "user_strcpy m d s = Inr (d + of_nat n, copy_mem m d s (of_nat (Suc n)))"
proof (cases "s mod SS = d mod SS")
  case False
  then show ?thesis using strcpy_tail_run [OF assms] by (simp add: user_strcpy_def)
next
  case True
  from strcpy_head_run [OF assms] show ?thesis
  proof
    assume "strcpy_head m d s = Inr (Inl (d + of_nat n), copy_mem m d s (of_nat (Suc n)))"
    then show ?thesis using True by (simp add: user_strcpy_def)
  next
    assume "\<exists>k \<le> n. strcpy_head m d s = Inr (Inr (d + of_nat k, s + of_nat k), copy_mem m d s (of_nat k))"
    then obtain k where k: "k \<le> n"
      "strcpy_head m d s = Inr (Inr (d + of_nat k, s + of_nat k), copy_mem m d s (of_nat k))" by blast
    note c = copy_then_copy [OF assms k(1)]
    obtain j where j: "j \<le> n - k" "strcpy_words (copy_mem m d s (of_nat k)) (d + of_nat k) (s + of_nat k) =
        Inr (d + of_nat (k + j), s + of_nat (k + j), copy_mem m d s (of_nat (k + j)))"
      using strcpy_words_run [OF c(1-3)] c(4) k(1) by (auto simp: add.assoc)
    have kj: "k + j \<le> n" using j(1) k(1) by simp
    note e = copy_then_copy [OF assms kj]
    have "Suc n = (k + j) + Suc (n - (k + j))" using kj by simp
    then have "strcpy_tail (copy_mem m d s (of_nat (k + j))) (d + of_nat (k + j)) (s + of_nat (k + j)) =
        Inr (d + of_nat n, copy_mem m d s (of_nat (Suc n)))"
      using strcpy_tail_run [OF e(1-3)] e(4) [of "Suc (n - (k + j))"] kj
      by (simp add: of_nat_diff del: of_nat_Suc of_nat_add)
    then show ?thesis using True k(2) j(2) by (simp add: user_strcpy_def del: of_nat_Suc of_nat_add)
  qed
qed

lemma scast_small:
  assumes "unat (i :: u32) < 2 ^ 31"
  shows "scast i = (of_nat (unat i) :: u64)" and "unat (scast i :: u64) = unat i"
proof -
  have "sint i = int (unat i)" using assms by (intro sint_small) simp
  then have "scast i = (word_of_int (int (unat i)) :: u64)" by (simp only: scast_eq)
  then show s: "scast i = (of_nat (unat i) :: u64)" by (simp only: of_int_of_nat_eq)
  show "unat (scast i :: u64) = unat i" using assms by (simp only: s unat_of_nat) simp
qed

lemma user_memset_loop_run:
  assumes "unat p + k < 2 ^ 64" and "unat i + k < 2 ^ 31" and "n = of_nat (unat i + k)"
  shows "user_memset_loop m p c i n = Inr (fill_mem m p (of_nat k) c)"
  using assms
proof (induction k arbitrary: m p i)
  case 0
  have "scast i = (of_nat (unat i) :: u64)" using 0(2) by (intro scast_small(1)) simp
  then show ?case using 0(3) by (subst user_memset_loop.simps) simp
next
  case (Suc k)
  have si: "unat (scast i :: u64) = unat i" using Suc.prems(2) by (intro scast_small(2)) simp
  have i1: "unat (i + 1) = unat i + 1" using Suc.prems(2) by (simp add: unat_word_ariths)
  have "scast i < n"
    using Suc.prems(2,3) by (simp add: si word_less_nat_alt unat_of_nat del: of_nat_Suc of_nat_add)
  moreover have "i \<noteq> 0x7FFFFFFF" using Suc.prems(2) by auto
  ultimately have "user_memset_loop m p c i n = user_memset_loop (fill_mem m p 1 c) (p + 1) c (i + 1) n"
    using Suc.prems(1) by (subst user_memset_loop.simps) (simp add: advance_ok fill_mem_1)
  also have "\<dots> = Inr (fill_mem (fill_mem m p 1 c) (p + 1) (of_nat k) c)"
    using Suc.IH [of "p + 1" "i + 1"] Suc.prems i1 by (simp add: unat_word_ariths)
  also have "fill_mem (fill_mem m p 1 c) (p + 1) (of_nat k) c = fill_mem m p (of_nat (Suc k)) c"
    using fill_mem_step [of 1 k m p c] Suc.prems(1) by simp
  finally show ?case .
qed

lemma user_memset_run:
  assumes "unat p + unat n < 2 ^ 64" and "unat n < 2 ^ 31"
  shows "user_memset m p c n = Inr (p, fill_mem m p n (ucast c))"
  using user_memset_loop_run [of p "unat n" 0 n m "ucast c"] assms by (simp add: user_memset_def)

text \<open>
  The byte loop of \<^verbatim>\<open>strncpy\<close>: it copies bytes that are not zero and counts them off; where it
  meets a zero byte it has stored that too.
\<close>

definition ncopied :: "mem \<Rightarrow> u64 \<Rightarrow> u64 \<Rightarrow> nat \<Rightarrow> nat \<Rightarrow> u64 \<times> u64 \<times> u64 \<times> mem \<Rightarrow> nat \<Rightarrow> bool" where
  "ncopied m d s n k r j \<longleftrightarrow> j \<le> k \<and>
     (r = (d + of_nat j, s + of_nat j, of_nat (n - j), copy_mem m d s (of_nat j)) \<or>
      j = k \<and> k < n \<and> r = (d + of_nat j, s + of_nat j, of_nat (n - j), copy_mem m d s (of_nat (Suc j))))"

lemma ncopied_Suc:
  assumes "unat d + Suc n < 2 ^ 64" and "unat s + Suc n < 2 ^ 64" and "disjoint d s (Suc n)" and "k \<le> n"
    and "ncopied (copy_mem m d s 1) (d + 1) (s + 1) n k r j"
  shows "ncopied m d s (Suc n) (Suc k) r (Suc j)"
proof -
  have copy: "copy_mem (copy_mem m d s 1) (d + 1) (s + 1) (of_nat i) = copy_mem m d s (of_nat (Suc i))" if "i \<le> n" for i
    using copy_mem_step [of d 1 i s m] disjoint_mono [OF assms(3), of "1 + i"] assms(1,2) that by simp
  have assoc: "p + 1 + of_nat i = p + of_nat (Suc i)" for p :: u64 and i by simp
  have j: "j \<le> k" using assms(5) by (simp add: ncopied_def)
  then have "j \<le> n" using assms(4) by simp
  moreover have "Suc j \<le> n" if "j = k" "k < n" using that by simp
  ultimately show ?thesis
    using assms(5) unfolding ncopied_def assoc by (auto simp: copy simp del: of_nat_Suc)
qed

lemma strncpy_bytes_run:
  assumes "unat d + n < 2 ^ 64" and "unat s + n < 2 ^ 64" and "disjoint d s n" and "k \<le> n"
    and "\<forall>i < k. m (s + of_nat i) \<noteq> 0" and "k < n \<longrightarrow> m (s + of_nat k) = 0"
  shows "\<exists>r j. strncpy_bytes stop m d s (of_nat n) = Inr r \<and> ncopied m d s n k r j \<and> (\<not> stop \<longrightarrow> j = k)"
  using assms
proof (induction n arbitrary: m d s k)
  case 0
  then have "strncpy_bytes stop m d s (of_nat 0) = Inr (d, s, 0, m)" by (subst strncpy_bytes.simps) simp
  then show ?case using 0(4) by (auto simp: ncopied_def)
next
  case (Suc n)
  let ?m = "copy_mem m d s 1"
  have nz: "(of_nat (Suc n) :: u64) \<noteq> 0"
    using Suc.prems(1) by (simp add: word_unat_eq_iff unat_of_nat del: of_nat_Suc)
  consider "stop" "s AND ALIGN = 0" | "\<not> stop \<or> s AND ALIGN \<noteq> 0" "m s = 0" | "\<not> stop \<or> s AND ALIGN \<noteq> 0" "m s \<noteq> 0" by blast
  then show ?case
  proof cases
    case 1
    then have "strncpy_bytes stop m d s (of_nat (Suc n)) = Inr (d, s, of_nat (Suc n), m)"
      by (subst strncpy_bytes.simps) simp
    then show ?thesis using 1(1) by (auto simp: ncopied_def intro!: exI [of _ 0])
  next
    case 2
    then have k: "k = 0" using Suc.prems(5) [rule_format, of 0] by (cases k) auto
    have "strncpy_bytes stop m d s (of_nat (Suc n)) = Inr (d, s, of_nat (Suc n), ?m)"
      using 2 nz by (subst strncpy_bytes.simps) (auto simp: Let_def copy_mem_1 [symmetric])
    moreover have "ncopied m d s (Suc n) k (d, s, of_nat (Suc n), ?m) 0" using k by (simp add: ncopied_def)
    ultimately show ?thesis using k by blast
  next
    case 3
    then obtain k' where k: "k = Suc k'" using Suc.prems(4,6) by (cases k) auto
    have keep: "?m (s + 1 + of_nat i) = m (s + of_nat (Suc i))" if "i < n" for i
      using copy_keeps [OF Suc.prems(3), of 1 "Suc i" m] Suc.prems(1,2) that by (simp add: add.assoc)
    have u: "unat (d + 1) = unat d + 1" "unat (s + 1) = unat s + 1"
      using Suc.prems(1,2) by (simp_all add: unat_word_ariths)
    have dis: "disjoint (d + 1) (s + 1) n" using Suc.prems(3) u by (auto simp: disjoint_def)
    have pre: "\<forall>i < k'. ?m (s + 1 + of_nat i) \<noteq> 0"
      using keep Suc.prems(4,5) k by (auto simp del: of_nat_Suc)
    have stop: "k' < n \<longrightarrow> ?m (s + 1 + of_nat k') = 0"
      using keep Suc.prems(6) k by (auto simp del: of_nat_Suc)
    have b: "unat (d + 1) + n < 2 ^ 64" "unat (s + 1) + n < 2 ^ 64" "k' \<le> n"
      using Suc.prems(1,2,4) u k by simp_all
    obtain r j where r: "strncpy_bytes stop ?m (d + 1) (s + 1) (of_nat n) = Inr r"
      "ncopied ?m (d + 1) (s + 1) n k' r j" "\<not> stop \<longrightarrow> j = k'"
      using Suc.IH [OF b(1,2) dis b(3) pre stop] by blast
    have "strncpy_bytes stop m d s (of_nat (Suc n)) = strncpy_bytes stop ?m (d + 1) (s + 1) (of_nat n)"
      using 3 nz Suc.prems(1,2) by (subst strncpy_bytes.simps) (auto simp: Let_def advance_ok copy_mem_1 [symmetric])
    moreover have "ncopied m d s (Suc n) k r (Suc j)"
      unfolding k by (rule ncopied_Suc [OF Suc.prems(1-3) _ r(2)]) (use Suc.prems(4) k in simp)
    ultimately show ?thesis using r(1,3) k by (intro exI [of _ r] exI [of _ "Suc j"]) simp
  qed
qed

text \<open>The source has \<^verbatim>\<open>k\<close> bytes before its zero byte or the bound \<^verbatim>\<open>n\<close>, and does not overlap the target.\<close>

definition nsource :: "mem \<Rightarrow> u64 \<Rightarrow> u64 \<Rightarrow> nat \<Rightarrow> nat \<Rightarrow> bool" where
  "nsource m d s n k \<longleftrightarrow> unat d + n < 2 ^ 64 \<and> unat s + n < 2 ^ 64 \<and> disjoint d s n \<and> k \<le> n \<and>
     (\<forall>i < k. m (s + of_nat i) \<noteq> 0) \<and> (k < n \<longrightarrow> m (s + of_nat k) = 0)"

lemma nsource_copy:
  assumes "nsource m d s n k" and "j \<le> k"
  shows "nsource (copy_mem m d s (of_nat j)) (d + of_nat j) (s + of_nat j) (n - j) (k - j)"
    and "i \<le> n - j \<Longrightarrow> copy_mem (copy_mem m d s (of_nat j)) (d + of_nat j) (s + of_nat j) (of_nat i) =
           copy_mem m d s (of_nat (j + i))"
proof -
  have b: "unat d + n < 2 ^ 64" "unat s + n < 2 ^ 64" "disjoint d s n" "k \<le> n"
    and nz: "i < k \<Longrightarrow> m (s + of_nat i) \<noteq> 0" and z: "k < n \<Longrightarrow> m (s + of_nat k) = 0" for i
    using assms(1) by (auto simp: nsource_def)
  have u: "unat (d + of_nat j) = unat d + j" "unat (s + of_nat j) = unat s + j"
    using b assms(2) by (simp_all add: unat_word_ariths unat_of_nat)
  have keep: "copy_mem m d s (of_nat j) (s + of_nat j + of_nat i) = m (s + of_nat (j + i))" if "j + i < n" for i
    using copy_keeps [OF b(3) _ _ _ _ that, of j m] b assms(2) by (simp add: add.assoc)
  have "copy_mem m d s (of_nat j) (s + of_nat j + of_nat i) \<noteq> 0" if "i < k - j" for i
    using keep [of i] nz [of "j + i"] that b(4) by simp
  moreover have "copy_mem m d s (of_nat j) (s + of_nat j + of_nat (k - j)) = 0" if "k - j < n - j"
    using keep [of "k - j"] z that assms(2) by simp
  moreover have "disjoint (d + of_nat j) (s + of_nat j) (n - j)" using b(3) u by (auto simp: disjoint_def)
  ultimately show "nsource (copy_mem m d s (of_nat j)) (d + of_nat j) (s + of_nat j) (n - j) (k - j)"
    using b u assms(2) by (simp add: nsource_def)
  show "copy_mem (copy_mem m d s (of_nat j)) (d + of_nat j) (s + of_nat j) (of_nat i) =
           copy_mem m d s (of_nat (j + i))" if "i \<le> n - j"
    by (rule copy_mem_step) (use b assms(2) that disjoint_mono [OF b(3), of "j + i"] in simp_all)
qed

lemma strncpy_words_run:
  assumes "nsource m d s n k"
  shows "\<exists>j \<le> k. strncpy_words m d s (of_nat n) =
    Inr (d + of_nat j, s + of_nat j, of_nat (n - j), copy_mem m d s (of_nat j))"
  using assms
proof (induction n arbitrary: m d s k rule: less_induct)
  case (less n)
  have b: "unat d + n < 2 ^ 64" "unat s + n < 2 ^ 64" "k \<le> n" using less.prems by (simp_all add: nsource_def)
  have un: "unat (of_nat n :: u64) = n" using b by (simp add: unat_of_nat)
  show ?case
  proof (cases "SS \<le> of_nat n \<and> HASZERO (load64 m s) = 0")
    case False
    then have "strncpy_words m d s (of_nat n) = Inr (d, s, of_nat n, m)" by (subst strncpy_words.simps) auto
    then show ?thesis by (intro exI [of _ 0]) simp
  next
    case True
    then have n8: "8 \<le> n" using un by (simp add: SS_def word_le_nat_alt)
    have "8 \<le> k"
    proof (rule ccontr)
      assume "\<not> 8 \<le> k"
      then have "m (s + of_nat k) = 0" "k < 8" using less.prems n8 by (simp_all add: nsource_def)
      then show False using True by (auto simp: HASZERO_load)
    qed
    note c = nsource_copy [OF less.prems this]
    have step: "strncpy_words m d s (of_nat n) =
        strncpy_words (copy_mem m d s (of_nat 8)) (d + of_nat 8) (s + of_nat 8) (of_nat (n - 8))"
      using True b n8 by (subst strncpy_words.simps) (simp add: advance_ok store64_load64 SS_def of_nat_diff)
    obtain j where j: "j \<le> k - 8" "strncpy_words m d s (of_nat n) =
        Inr (d + of_nat 8 + of_nat j, s + of_nat 8 + of_nat j, of_nat (n - 8 - j),
          copy_mem (copy_mem m d s (of_nat 8)) (d + of_nat 8) (s + of_nat 8) (of_nat j))"
      unfolding step using less.IH [OF _ c(1)] n8 by auto
    have "j \<le> n - 8" using j(1) b(3) by simp
    from j(2) c(2) [OF this] have "strncpy_words m d s (of_nat n) =
        Inr (d + of_nat (8 + j), s + of_nat (8 + j), of_nat (n - (8 + j)), copy_mem m d s (of_nat (8 + j)))"
      by (simp add: add.assoc)
    moreover have "8 + j \<le> k" using j(1) \<open>8 \<le> k\<close> by simp
    ultimately show ?thesis by blast
  qed
qed

lemma fill_over_copy:
  assumes "k < n" and "n < 2 ^ 64"
  shows "fill_mem (copy_mem m d s (of_nat (Suc k))) (d + of_nat k) (of_nat (n - k)) 0 =
    fill_mem (copy_mem m d s (of_nat k)) (d + of_nat k) (of_nat (n - k)) 0"
proof
  fix p
  define x where "x = p - d"
  have p: "p = d + x" by (simp add: x_def)
  have u: "unat (of_nat k :: u64) = k" "unat (of_nat (Suc k) :: u64) = Suc k" "unat (of_nat (n - k) :: u64) = n - k"
    using assms by (simp_all add: unat_of_nat del: of_nat_Suc of_nat_diff)
  have "x = of_nat k" if "unat x = k" using that by (metis word_unat_eq_iff u(1))
  then have "x - of_nat k < of_nat (n - k)" if "unat x < Suc k" "\<not> unat x < k"
    using that assms by (simp add: less_Suc_eq word_less_nat_alt u(3) del: of_nat_diff)
  then show "fill_mem (copy_mem m d s (of_nat (Suc k))) (d + of_nat k) (of_nat (n - k)) 0 p =
    fill_mem (copy_mem m d s (of_nat k)) (d + of_nat k) (of_nat (n - k)) 0 p"
    using u unfolding p fill_mem_def copy_mem_def
    by (auto simp: word_less_nat_alt simp del: of_nat_Suc of_nat_diff)
qed

lemma nsource_bytes:
  assumes "nsource m d s n k"
  shows "\<exists>r j. strncpy_bytes stop m d s (of_nat n) = Inr r \<and> ncopied m d s n k r j \<and> (\<not> stop \<longrightarrow> j = k)"
  using strncpy_bytes_run [of d n s k m stop] assms by (simp add: nsource_def)

text \<open>The end of \<^verbatim>\<open>strncpy\<close>, from the last byte loop on.\<close>

definition strncpy_done :: "mem \<Rightarrow> u64 \<Rightarrow> u64 \<Rightarrow> nat \<Rightarrow> nat \<Rightarrow> (u64 \<times> mem) res" where
  "strncpy_done m d s n k = Inr (d + of_nat k, fill_mem (copy_mem m d s (of_nat k)) (d + of_nat k) (of_nat (n - k)) 0)"

lemma strncpy_finish:
  assumes "nsource m d s n k" and "n < 2 ^ 31" and "ncopied m d s n k r k"
  shows "(case r of (d, s, n, m) \<Rightarrow> user_memset m d 0 n) = strncpy_done m d s n k"
proof -
  have b: "unat d + n < 2 ^ 64" "k \<le> n" using assms(1) by (simp_all add: nsource_def)
  have u: "unat (d + of_nat k) = unat d + k" "unat (of_nat (n - k) :: u64) = n - k"
    using b by (simp_all add: unat_word_ariths unat_of_nat del: of_nat_diff)
  have "user_memset m' (d + of_nat k) 0 (of_nat (n - k)) =
      Inr (d + of_nat k, fill_mem m' (d + of_nat k) (of_nat (n - k)) 0)" for m'
    using user_memset_run [of "d + of_nat k" "of_nat (n - k)" m' 0] u b assms(2) by (simp del: of_nat_diff)
  then show ?thesis
    using assms(3) fill_over_copy [of k n m d s] b
    by (auto simp: ncopied_def strncpy_done_def simp del: of_nat_Suc of_nat_diff)
qed

lemma strncpy_done_copy:
  assumes "nsource m d s n k" and "j \<le> k"
  shows "strncpy_done (copy_mem m d s (of_nat j)) (d + of_nat j) (s + of_nat j) (n - j) (k - j) = strncpy_done m d s n k"
proof -
  have k: "k \<le> n" using assms(1) by (simp add: nsource_def)
  then have "k - j \<le> n - j" by simp
  note c = nsource_copy(2) [OF assms this]
  have "n - j - (k - j) = n - k" "j + (k - j) = k" "d + of_nat j + of_nat (k - j) = d + of_nat k"
    using assms(2) by (simp_all add: of_nat_diff)
  then show ?thesis unfolding strncpy_done_def c by (simp only:)
qed

lemma ncopied_source:
  assumes "nsource m d s n k" and "ncopied m d s n k (d1, s1, n1, m1) j" and "j < n"
  shows "m1 s1 = 0 \<longleftrightarrow> j = k"
proof -
  have b: "unat d + n < 2 ^ 64" "unat s + n < 2 ^ 64" "disjoint d s n" "k \<le> n"
    and nz: "\<forall>i < k. m (s + of_nat i) \<noteq> 0" and z: "k < n \<longrightarrow> m (s + of_nat k) = 0"
    using assms(1) by (auto simp: nsource_def)
  have keep: "copy_mem m d s (of_nat i) (s + of_nat j) = m (s + of_nat j)" if "i \<le> n" for i
    using copy_keeps [OF b(3) _ _ that _ assms(3), of m] b by simp
  have "j \<le> k" "s1 = s + of_nat j" "m1 s1 = m (s + of_nat j)"
    using assms(2,3) b(4) keep [of j] keep [of "Suc j"]
    by (auto simp: ncopied_def simp del: of_nat_Suc)
  then show ?thesis using nz z assms(3) b(4) by (metis le_neq_implies_less)
qed

definition strncpy_rest :: "mem \<Rightarrow> u64 \<Rightarrow> u64 \<Rightarrow> u64 \<Rightarrow> (u64 \<times> mem) res" where
  "strncpy_rest m d s n = bind_res (strncpy_bytes False m d s n) (\<lambda>(d, s, n, m). user_memset m d 0 n)"

lemma strncpy_rest_run:
  assumes "nsource m d s n k" and "n < 2 ^ 31"
  shows "strncpy_rest m d s (of_nat n) = strncpy_done m d s n k"
proof -
  obtain r where "strncpy_bytes False m d s (of_nat n) = Inr r" "ncopied m d s n k r k"
    using nsource_bytes [OF assms(1), of False] by auto
  then show ?thesis using strncpy_finish [OF assms] by (simp add: strncpy_rest_def)
qed

lemma strncpy_run:
  assumes src: "nsource m d s n k" and n: "n < 2 ^ 31"
  shows "strncpy m d s (of_nat n) = strncpy_done m d s n k"
proof (cases "s AND ALIGN = d AND ALIGN")
  case False
  then have "strncpy m d s (of_nat n) = strncpy_rest m d s (of_nat n)"
    by (auto simp: strncpy_def strncpy_rest_def bind_res_assoc intro!: bind_res_cong)
  then show ?thesis using strncpy_rest_run [OF assms] by simp
next
  case True
  obtain r0 j where r0: "strncpy_bytes True m d s (of_nat n) = Inr r0" "ncopied m d s n k r0 j"
    using nsource_bytes [OF src, of True] by blast
  obtain d1 s1 n1 m1 where r0': "r0 = (d1, s1, n1, m1)" by (cases r0)
  note r = r0 [unfolded r0']
  show ?thesis
  proof (cases "n1 = 0 \<or> m1 s1 = 0")
    case z: True
    have "j = k"
    proof (cases "j < n")
      case jn: True
      have "n1 = of_nat (n - j)" using r(2) by (auto simp: ncopied_def simp del: of_nat_diff)
      then have "unat n1 = n - j" using n by (simp add: unat_of_nat del: of_nat_diff)
      then have "n1 \<noteq> 0" using jn by auto
      then show ?thesis using z ncopied_source [OF src r(2) jn] by simp
    next
      case False
      then show ?thesis using r(2) src by (auto simp: ncopied_def nsource_def)
    qed
    with r(2) have "user_memset m1 d1 0 n1 = strncpy_done m d s n k"
      using strncpy_finish [OF src n, of "(d1, s1, n1, m1)"] by simp
    then show ?thesis using r(1) True z by (simp add: strncpy_def)
  next
    case nz: False
    have j: "j \<le> k" "d1 = d + of_nat j" "s1 = s + of_nat j" "n1 = of_nat (n - j)" "m1 = copy_mem m d s (of_nat j)"
      using r(2) ncopied_source [OF src r(2)] nz by (auto simp: ncopied_def simp del: of_nat_diff)
    note c1 = nsource_copy [OF src j(1)]
    obtain i where i: "i \<le> k - j" "strncpy_words m1 d1 s1 n1 =
        Inr (d1 + of_nat i, s1 + of_nat i, of_nat (n - j - i), copy_mem m1 d1 s1 (of_nat i))"
      using strncpy_words_run [OF c1(1)] unfolding j(2-5) by blast
    note c2 = nsource_copy [OF c1(1) i(1), folded j(2,3,5)]
    have "strncpy m d s (of_nat n) = strncpy_rest (copy_mem m1 d1 s1 (of_nat i)) (d1 + of_nat i) (s1 + of_nat i) (of_nat (n - j - i))"
      using True nz r(1) i(2) by (auto simp: strncpy_def strncpy_rest_def bind_res_assoc simp del: of_nat_diff intro!: bind_res_cong)
    also have "\<dots> = strncpy_done (copy_mem m1 d1 s1 (of_nat i)) (d1 + of_nat i) (s1 + of_nat i) (n - j - i) (k - j - i)"
      by (rule strncpy_rest_run [OF c2(1)]) (use n in simp)
    also have "\<dots> = strncpy_done m d s n k"
      using strncpy_done_copy [OF c1(1) i(1)] strncpy_done_copy [OF src j(1)] unfolding j(2,3,5) by simp
    finally show ?thesis .
  qed
qed

section \<open>Properties\<close>

text \<open>
  (C27) The two \<^verbatim>\<open>strcpy\<close> leave the same memory, the string with its terminating zero at the
  target and every other byte as it was, whatever the alignment of the two pointers. They differ
  in the result: the kernel's returns the target, as the C standard says, the test library's
  the address of the copied zero.
\<close>

theorem strcpy_agree:
  assumes "string_at m s n" and "unat d + n < 2 ^ 64" and "disjoint d s (Suc n)"
  shows "user_strcpy m d s = Inr (d + of_nat n, copy_mem m d s (of_nat (Suc n))) \<and>
    strcpy m d s = Inr (d, copy_mem m d s (of_nat (Suc n)))"
  using user_strcpy_run [OF assms] strcpy_loop_run [OF assms] by (simp add: strcpy_def)

text \<open>The string \<^verbatim>\<open>OK\<close> at address 0x1003, for the examples.\<close>

definition ok_mem :: mem where
  "ok_mem = (\<lambda>_. 0)(0x1003 := 79, 0x1004 := 75)"

lemma ok_mem_string: "string_at ok_mem 0x1003 2"
  by (auto simp: string_at_def ok_mem_def less_2_cases_iff)

theorem strcpy_agree_witness:
  "user_strcpy ok_mem 0x2003 0x1003 = Inr (0x2005, copy_mem ok_mem 0x2003 0x1003 3) \<and>
   strcpy ok_mem 0x2003 0x1003 = Inr (0x2003, copy_mem ok_mem 0x2003 0x1003 3)"
  using strcpy_agree [OF ok_mem_string, of "0x2003"] by (simp add: disjoint_def)

text \<open>
  (C28) \<^verbatim>\<open>strncpy\<close> copies the bytes before the zero byte, at most \<^verbatim>\<open>n\<close>, fills the rest of the \<^verbatim>\<open>n\<close>
  bytes with zeros, and returns the address after the copied bytes, on its word path and on its
  byte path alike (\<^verbatim>\<open>n\<close> below \<^verbatim>\<open>INT_MAX\<close>, the range of the counter of \<^verbatim>\<open>memset\<close>).
\<close>

theorem strncpy_correct:
  assumes "nsource m d s n k" and "n < 2 ^ 31"
  shows "strncpy m d s (of_nat n) =
    Inr (d + of_nat k, fill_mem (copy_mem m d s (of_nat k)) (d + of_nat k) (of_nat (n - k)) 0)"
  using strncpy_run [OF assms] by (simp add: strncpy_done_def)

theorem strncpy_correct_witness:
  "strncpy ok_mem 0x200B 0x1003 20 = Inr (0x200D, fill_mem (copy_mem ok_mem 0x200B 0x1003 2) 0x200D 18 0)"
proof -
  have "nsource ok_mem 0x200B 0x1003 20 2"
    by (auto simp: nsource_def disjoint_def ok_mem_def less_2_cases_iff)
  from strncpy_correct [OF this] show ?thesis by simp
qed

text \<open>
  (C29) \<^verbatim>\<open>memchr\<close> returns the address of the first of the \<^verbatim>\<open>n\<close> bytes that equals \<^verbatim>\<open>c\<close>, or null.
\<close>

theorem memchr_first:
  assumes "unat src + unat n < 2 ^ 64"
  shows "memchr m src c n =
    Inr (case find (\<lambda>i. m (src + of_nat i) = ucast c) [0..<unat n] of None \<Rightarrow> 0 | Some i \<Rightarrow> src + of_nat i)"
  by (rule memchr_find [OF assms])

theorem memchr_first_witness: "memchr ok_mem 0x1003 75 40 = Inr 0x1004"
proof -
  have "find (\<lambda>i. ok_mem (0x1003 + of_nat i) = (ucast (75 :: u32) :: u8)) [0..<40] = (if (1::nat) < 40 then Some 1 else None)"
    by (rule find_upt) (auto simp: ok_mem_def)
  then show ?thesis using memchr_first [of "0x1003" 40 ok_mem 75] by simp
qed

text \<open>
  (C30) Both \<^verbatim>\<open>strcmp\<close> return the same value; it is 0 exactly for equal strings and negative
  exactly when the first string is before the second in the lexicographic order of unsigned
  bytes.
\<close>

theorem strcmp_orders:
  assumes "string_at m l j" and "string_at m r k"
  shows "\<exists>v. strcmp m l r = Inr v \<and> user_strcmp m l r = Inr v \<and>
    (v = 0 \<longleftrightarrow> bytes_at m l j = bytes_at m r k) \<and>
    (sint v < 0 \<longleftrightarrow> ord_class.lexordp (bytes_at m l j) (bytes_at m r k))"
  using strcmp_run [OF assms] by (simp add: user_strcmp_eq)

theorem strcmp_orders_witness:
  "\<exists>v. strcmp ok_mem 0x1003 0x1004 = Inr v \<and> user_strcmp ok_mem 0x1003 0x1004 = Inr v \<and> \<not> sint v < 0"
proof -
  have "string_at ok_mem 0x1004 1" using ok_mem_string string_at_drop [OF ok_mem_string, of 1] by simp
  moreover have "bytes_at ok_mem 0x1003 2 = [79, 75]" "bytes_at ok_mem 0x1004 1 = [75]"
    by (simp_all add: bytes_at_def ok_mem_def upt_rec)
  ultimately show ?thesis using strcmp_orders [OF ok_mem_string, of "0x1004" 1] by auto
qed

text \<open>
  (C25) \<^verbatim>\<open>memcpy\<close> of the kernel copies \<^verbatim>\<open>len\<close> bytes between ranges that do not overlap, and
  \<^verbatim>\<open>memset\<close> fills \<^verbatim>\<open>len\<close> bytes, on their word paths and their byte paths alike; no other byte
  changes.
\<close>

theorem memcpy_memset_correct:
  assumes "unat dest + unat len < 2 ^ 64" and "unat src + unat len < 2 ^ 64"
    and "disjoint dest src (unat len)" and "7 \<le> unat dest + unat len"
  shows "memcpy m dest src len = Inr (dest, copy_mem m dest src len) \<and>
    memset m dest byte len = Inr (dest, fill_mem m dest len (ucast byte))"
  using memcpy_run [OF assms] memset_run [OF assms(1)] by simp

theorem memcpy_memset_correct_witness:
  "memcpy ok_mem 0x2000 0x1000 16 = Inr (0x2000, copy_mem ok_mem 0x2000 0x1000 16) \<and>
   memset ok_mem 0x2000 7 16 = Inr (0x2000, fill_mem ok_mem 0x2000 16 7)"
  using memcpy_memset_correct [of "0x2000" 16 "0x1000" ok_mem 7] by (simp add: disjoint_def)

end
