(* ===== verification/User_Lib.thy ===== *)
theory User_Lib
  imports User_String Util_Printf
begin

text \<open>
  The rest of the C library of the system-call tests: formatted output (\<^verbatim>\<open>user/lib/stdio.c\<close>),
  \<^verbatim>\<open>panic\<close> and the program start (\<^verbatim>\<open>stdlib.c\<close>, \<^verbatim>\<open>main.c\<close>), and the system-call wrappers
  (\<^verbatim>\<open>syscall.c\<close>, numbers from \<^verbatim>\<open>arch/riscv/syscall_ids.h.in\<close>).

  Output goes to the kernel through \<^verbatim>\<open>write\<close>. The output functions are modelled on the log of
  the writes, each a descriptor and its bytes; the kernel's answer to a write is a function of
  the log, a parameter. The wrappers take the kernel as a parameter too: a function of the
  number in \<^verbatim>\<open>a7\<close>, the argument registers the wrapper sets, and a state.
\<close>

section \<open>Output\<close>

type_synonym ulog = "(u32 \<times> u8 list) list"
type_synonym writer = "ulog \<Rightarrow> u64"

definition uwrite :: "writer \<Rightarrow> u32 \<Rightarrow> u8 list \<Rightarrow> ulog \<Rightarrow> u64 \<times> ulog" where
  "uwrite w fd bs log = (w (log @ [(fd, bs)]), log @ [(fd, bs)])"


definition puts :: "writer \<Rightarrow> mem \<Rightarrow> u64 \<Rightarrow> ulog \<Rightarrow> (u32 \<times> ulog) res" where
  "puts w m s log =
     bind_res (user_strlen m s)
       (\<lambda>n. let (r, log) = uwrite w 1 (bytes_at m s (unat n)) log in Inr (if sint r < 0 then -1 else 0, log))"














section \<open>Input, panic, program start\<close>

text \<open>The byte a \<^verbatim>\<open>read\<close> of the standard input stores, if it stores one.\<close>

definition getchar :: "('s \<Rightarrow> u8 option \<times> 's) \<Rightarrow> 's \<Rightarrow> u32 \<times> 's" where
  "getchar rd s = (case rd s of (None, s) \<Rightarrow> (0, s) | (Some b, s) \<Rightarrow> (ucast b, s))"

section \<open>System calls\<close>

abbreviation (input) NR_getcwd :: u64 where "NR_getcwd \<equiv> 17"
abbreviation (input) NR_dup :: u64 where "NR_dup \<equiv> 23"
abbreviation (input) NR_dup3 :: u64 where "NR_dup3 \<equiv> 24"
abbreviation (input) NR_mkdirat :: u64 where "NR_mkdirat \<equiv> 34"
abbreviation (input) NR_unlinkat :: u64 where "NR_unlinkat \<equiv> 35"
abbreviation (input) NR_linkat :: u64 where "NR_linkat \<equiv> 37"
abbreviation (input) NR_umount2 :: u64 where "NR_umount2 \<equiv> 39"
abbreviation (input) NR_mount :: u64 where "NR_mount \<equiv> 40"
abbreviation (input) NR_chdir :: u64 where "NR_chdir \<equiv> 49"
abbreviation (input) NR_openat :: u64 where "NR_openat \<equiv> 56"
abbreviation (input) NR_close :: u64 where "NR_close \<equiv> 57"
abbreviation (input) NR_pipe2 :: u64 where "NR_pipe2 \<equiv> 59"
abbreviation (input) NR_getdents64 :: u64 where "NR_getdents64 \<equiv> 61"
abbreviation (input) NR_read :: u64 where "NR_read \<equiv> 63"
abbreviation (input) NR_write :: u64 where "NR_write \<equiv> 64"
abbreviation (input) NR_fstat :: u64 where "NR_fstat \<equiv> 80"
abbreviation (input) NR_exit :: u64 where "NR_exit \<equiv> 93"
abbreviation (input) NR_nanosleep :: u64 where "NR_nanosleep \<equiv> 101"
abbreviation (input) NR_sched_yield :: u64 where "NR_sched_yield \<equiv> 124"
abbreviation (input) NR_setpriority :: u64 where "NR_setpriority \<equiv> 140"
abbreviation (input) NR_times :: u64 where "NR_times \<equiv> 153"
abbreviation (input) NR_time :: u64 where "NR_time \<equiv> 1062"
abbreviation (input) NR_uname :: u64 where "NR_uname \<equiv> 160"
abbreviation (input) NR_gettimeofday :: u64 where "NR_gettimeofday \<equiv> 169"
abbreviation (input) NR_getpid :: u64 where "NR_getpid \<equiv> 172"
abbreviation (input) NR_getppid :: u64 where "NR_getppid \<equiv> 173"
abbreviation (input) NR_brk :: u64 where "NR_brk \<equiv> 214"
abbreviation (input) NR_munmap :: u64 where "NR_munmap \<equiv> 215"
abbreviation (input) NR_clone :: u64 where "NR_clone \<equiv> 220"
abbreviation (input) NR_execve :: u64 where "NR_execve \<equiv> 221"
abbreviation (input) NR_mmap :: u64 where "NR_mmap \<equiv> 222"
abbreviation (input) NR_wait4 :: u64 where "NR_wait4 \<equiv> 260"
abbreviation (input) NR_spawn :: u64 where "NR_spawn \<equiv> 400"
abbreviation (input) NR_mailread :: u64 where "NR_mailread \<equiv> 401"
abbreviation (input) NR_mailwrite :: u64 where "NR_mailwrite \<equiv> 402"

type_synonym 's kern = "u64 \<Rightarrow> u64 list \<Rightarrow> 's \<Rightarrow> u64 \<times> 's"

text \<open>\<^verbatim>\<open>syscall(n, ...)\<close>, and the conversion of its \<^verbatim>\<open>long\<close> to the \<^verbatim>\<open>int\<close> most wrappers return.\<close>

definition syscall :: "'s kern \<Rightarrow> u64 \<Rightarrow> u64 list \<Rightarrow> 's \<Rightarrow> u64 \<times> 's" where
  "syscall k n args s = k n args s"

definition syscall_int :: "'s kern \<Rightarrow> u64 \<Rightarrow> u64 list \<Rightarrow> 's \<Rightarrow> u32 \<times> 's" where
  "syscall_int k n args s = (let (r, s) = syscall k n args s in (ucast r, s))"

definition CWD :: u64 where "CWD = -100"

definition uopen :: "'s kern \<Rightarrow> u64 \<Rightarrow> u32 \<Rightarrow> 's \<Rightarrow> u32 \<times> 's" where
  "uopen k path flags = syscall_int k NR_openat [CWD, path, scast flags, 2]"

definition uopenat :: "'s kern \<Rightarrow> u32 \<Rightarrow> u64 \<Rightarrow> u32 \<Rightarrow> 's \<Rightarrow> u32 \<times> 's" where
  "uopenat k dirfd path flags = syscall_int k NR_openat [scast dirfd, path, scast flags, 0x180]"

definition uclose :: "'s kern \<Rightarrow> u32 \<Rightarrow> 's \<Rightarrow> u32 \<times> 's" where
  "uclose k fd = syscall_int k NR_close [scast fd]"

definition uread :: "'s kern \<Rightarrow> u32 \<Rightarrow> u64 \<Rightarrow> u64 \<Rightarrow> 's \<Rightarrow> u64 \<times> 's" where
  "uread k fd buf len = syscall k NR_read [scast fd, buf, len]"

definition uwrite_call :: "'s kern \<Rightarrow> u32 \<Rightarrow> u64 \<Rightarrow> u64 \<Rightarrow> 's \<Rightarrow> u64 \<times> 's" where
  "uwrite_call k fd buf len = syscall k NR_write [scast fd, buf, len]"

definition ugetpid :: "'s kern \<Rightarrow> 's \<Rightarrow> u32 \<times> 's" where
  "ugetpid k = syscall_int k NR_getpid []"

definition ugetppid :: "'s kern \<Rightarrow> 's \<Rightarrow> u32 \<times> 's" where
  "ugetppid k = syscall_int k NR_getppid []"

definition usched_yield :: "'s kern \<Rightarrow> 's \<Rightarrow> u32 \<times> 's" where
  "usched_yield k = syscall_int k NR_sched_yield []"

definition ufork :: "'s kern \<Rightarrow> 's \<Rightarrow> u32 \<times> 's" where
  "ufork k = syscall_int k NR_clone [17, 0]"

definition uexit :: "'s kern \<Rightarrow> u32 \<Rightarrow> 's \<Rightarrow> u64 \<times> 's" where
  "uexit k code = syscall k NR_exit [scast code]"

definition uwaitpid :: "'s kern \<Rightarrow> u32 \<Rightarrow> u64 \<Rightarrow> u32 \<Rightarrow> 's \<Rightarrow> u32 \<times> 's" where
  "uwaitpid k pid code options = syscall_int k NR_wait4 [scast pid, code, scast options, 0]"

definition uexec :: "'s kern \<Rightarrow> u64 \<Rightarrow> 's \<Rightarrow> u32 \<times> 's" where
  "uexec k name = syscall_int k NR_execve [name]"

definition uexecve :: "'s kern \<Rightarrow> u64 \<Rightarrow> u64 \<Rightarrow> u64 \<Rightarrow> 's \<Rightarrow> u32 \<times> 's" where
  "uexecve k name argv argp = syscall_int k NR_execve [name, argv, argp]"

definition utimes :: "'s kern \<Rightarrow> u64 \<Rightarrow> 's \<Rightarrow> u32 \<times> 's" where
  "utimes k mytimes = syscall_int k NR_times [mytimes]"

definition usys_get_time :: "'s kern \<Rightarrow> u64 \<Rightarrow> u32 \<Rightarrow> 's \<Rightarrow> u32 \<times> 's" where
  "usys_get_time k ts tz = syscall_int k NR_gettimeofday [ts, scast tz]"

definition utime :: "'s kern \<Rightarrow> u64 \<Rightarrow> 's \<Rightarrow> u32 \<times> 's" where
  "utime k tloc = syscall_int k NR_time [tloc]"

definition uset_priority :: "'s kern \<Rightarrow> u32 \<Rightarrow> 's \<Rightarrow> u32 \<times> 's" where
  "uset_priority k prio = syscall_int k NR_setpriority [scast prio]"

definition ummap :: "'s kern \<Rightarrow> u64 \<Rightarrow> u64 \<Rightarrow> u32 \<Rightarrow> u32 \<Rightarrow> u32 \<Rightarrow> u64 \<Rightarrow> 's \<Rightarrow> u64 \<times> 's" where
  "ummap k start len prot flags fd off = syscall k NR_mmap [start, len, scast prot, scast flags, scast fd, off]"

definition umunmap :: "'s kern \<Rightarrow> u64 \<Rightarrow> u64 \<Rightarrow> 's \<Rightarrow> u32 \<times> 's" where
  "umunmap k start len = syscall_int k NR_munmap [start, len]"

definition uspawn :: "'s kern \<Rightarrow> u64 \<Rightarrow> 's \<Rightarrow> u32 \<times> 's" where
  "uspawn k path = syscall_int k NR_spawn [path]"

definition umailread :: "'s kern \<Rightarrow> u64 \<Rightarrow> u32 \<Rightarrow> 's \<Rightarrow> u32 \<times> 's" where
  "umailread k buf len = syscall_int k NR_mailread [buf, scast len]"

definition umailwrite :: "'s kern \<Rightarrow> u32 \<Rightarrow> u64 \<Rightarrow> u32 \<Rightarrow> 's \<Rightarrow> u32 \<times> 's" where
  "umailwrite k pid buf len = syscall_int k NR_mailwrite [scast pid, buf, scast len]"

definition ufstat :: "'s kern \<Rightarrow> u32 \<Rightarrow> u64 \<Rightarrow> 's \<Rightarrow> u32 \<times> 's" where
  "ufstat k fd st = syscall_int k NR_fstat [scast fd, st]"

definition usys_linkat :: "'s kern \<Rightarrow> u32 \<Rightarrow> u64 \<Rightarrow> u32 \<Rightarrow> u64 \<Rightarrow> u32 \<Rightarrow> 's \<Rightarrow> u32 \<times> 's" where
  "usys_linkat k olddirfd oldpath newdirfd newpath flags = syscall_int k NR_linkat [scast olddirfd, oldpath, scast newdirfd, newpath, ucast flags]"

definition usys_unlinkat :: "'s kern \<Rightarrow> u32 \<Rightarrow> u64 \<Rightarrow> u32 \<Rightarrow> 's \<Rightarrow> u32 \<times> 's" where
  "usys_unlinkat k dirfd path flags = syscall_int k NR_unlinkat [scast dirfd, path, ucast flags]"

definition uuname :: "'s kern \<Rightarrow> u64 \<Rightarrow> 's \<Rightarrow> u32 \<times> 's" where
  "uuname k buf = syscall_int k NR_uname [buf]"

definition ubrk :: "'s kern \<Rightarrow> u64 \<Rightarrow> 's \<Rightarrow> u32 \<times> 's" where
  "ubrk k addr = syscall_int k NR_brk [addr]"

definition ugetcwd :: "'s kern \<Rightarrow> u64 \<Rightarrow> u64 \<Rightarrow> 's \<Rightarrow> u64 \<times> 's" where
  "ugetcwd k buf sz = syscall k NR_getcwd [buf, sz]"

definition uchdir :: "'s kern \<Rightarrow> u64 \<Rightarrow> 's \<Rightarrow> u32 \<times> 's" where
  "uchdir k path = syscall_int k NR_chdir [path]"

definition umkdir :: "'s kern \<Rightarrow> u64 \<Rightarrow> u32 \<Rightarrow> 's \<Rightarrow> u32 \<times> 's" where
  "umkdir k path mode = syscall_int k NR_mkdirat [CWD, path, ucast mode]"

definition ugetdents :: "'s kern \<Rightarrow> u32 \<Rightarrow> u64 \<Rightarrow> u64 \<Rightarrow> 's \<Rightarrow> u32 \<times> 's" where
  "ugetdents k fd dirp64 len = syscall_int k NR_getdents64 [scast fd, dirp64, len]"

definition upipe :: "'s kern \<Rightarrow> u64 \<Rightarrow> 's \<Rightarrow> u32 \<times> 's" where
  "upipe k fd = syscall_int k NR_pipe2 [fd, 0]"

definition udup :: "'s kern \<Rightarrow> u32 \<Rightarrow> 's \<Rightarrow> u32 \<times> 's" where
  "udup k fd = syscall_int k NR_dup [scast fd]"

definition udup2 :: "'s kern \<Rightarrow> u32 \<Rightarrow> u32 \<Rightarrow> 's \<Rightarrow> u32 \<times> 's" where
  "udup2 k old new = syscall_int k NR_dup3 [scast old, scast new, 0]"

definition umount :: "'s kern \<Rightarrow> u64 \<Rightarrow> u64 \<Rightarrow> u64 \<Rightarrow> u64 \<Rightarrow> u64 \<Rightarrow> 's \<Rightarrow> u32 \<times> 's" where
  "umount k special dir fstype flags data = syscall_int k NR_mount [special, dir, fstype, flags, data]"

definition uumount :: "'s kern \<Rightarrow> u64 \<Rightarrow> 's \<Rightarrow> u32 \<times> 's" where
  "uumount k special = syscall_int k NR_umount2 [special, 0]"

text \<open>The wrappers that do more than one call or look at the result.\<close>

definition uwait :: "'s kern \<Rightarrow> u64 \<Rightarrow> 's \<Rightarrow> u32 \<times> 's" where
  "uwait k code = uwaitpid k (-1) code 0"

definition ulink :: "'s kern \<Rightarrow> u64 \<Rightarrow> u64 \<Rightarrow> 's \<Rightarrow> u32 \<times> 's" where
  "ulink k old_path new_path = usys_linkat k (-100) old_path (-100) new_path 0"

definition uunlink :: "'s kern \<Rightarrow> u64 \<Rightarrow> 's \<Rightarrow> u32 \<times> 's" where
  "uunlink k path = usys_unlinkat k (-100) path 0"

text \<open>\<^verbatim>\<open>TimeVal\<close> variables live on the stack: their address is an argument, and they are read
  from the memory of the state.\<close>

definition get_time :: "'s kern \<Rightarrow> ('s \<Rightarrow> mem) \<Rightarrow> u64 \<Rightarrow> 's \<Rightarrow> u64 \<times> 's" where
  "get_time k rd tv s =
     (let (err, s) = usys_get_time k tv 0 s;
          sec = load64 (rd s) tv; usec = load64 (rd s) (tv + 8)
      in if err = 0 then ((sec AND 0xFFFF) * 1000 + usec div 1000, s) else (-1, s))"

definition usleep :: "'s kern \<Rightarrow> ('s \<Rightarrow> mem) \<Rightarrow> (u64 \<Rightarrow> u64 \<Rightarrow> 's \<Rightarrow> 's) \<Rightarrow> u64 \<Rightarrow> u64 \<Rightarrow> 's \<Rightarrow> u32 \<times> 's" where
  "usleep k rd wr tv t s =
     (let s = wr (tv + 8) 0 (wr tv t s);
          (r, s) = syscall k NR_nanosleep [tv, tv] s
      in if r \<noteq> 0 then (ucast (load64 (rd s) tv), s) else (0, s))"

text \<open>\<^verbatim>\<open>panic\<close> prints its message and exits with -100; \<^verbatim>\<open>__start_main\<close> passes \<^verbatim>\<open>argc\<close> and \<^verbatim>\<open>argv\<close>
  to the program's \<^verbatim>\<open>main\<close>, a parameter, and exits with its result.\<close>

definition upanic :: "'s kern \<Rightarrow> writer \<Rightarrow> mem \<Rightarrow> u64 \<Rightarrow> ulog \<Rightarrow> 's \<Rightarrow> (ulog \<times> u64 \<times> 's) res" where
  "upanic k w m msg log s =
     bind_res (puts w m msg log) (\<lambda>(_, log). Inr (log, uexit k (-100) s))"

definition start_main :: "'s kern \<Rightarrow> (u32 \<Rightarrow> u64 \<Rightarrow> 's \<Rightarrow> u32 \<times> 's) \<Rightarrow> ('s \<Rightarrow> mem) \<Rightarrow> u64 \<Rightarrow> 's \<Rightarrow> u64 \<times> 's" where
  "start_main k main rd p s =
     (let argc = ucast (load64 (rd s) p); argv = p + 8; (r, s) = main argc argv s
      in uexit k r s)"

section \<open>Printing and reading numbers\<close>
















section \<open>Properties\<close>



end
