(* ===== verification/M_State.thy ===== *)
theory M_State
  imports Util_Printf Pk_Vm
begin

text \<open>
  The machine-mode firmware: its global variables, the control registers of the running hart, the
  device registers, and the console drivers of \<^verbatim>\<open>machine/uart.c\<close>, \<^verbatim>\<open>machine/uart16550.c\<close>,
  \<^verbatim>\<open>machine/htif.c\<close> and \<^verbatim>\<open>machine/finisher.c\<close> (the parts that talk to a device; the parts that find
  it in the device tree are in the theory of the scans).

  Devices and the hardware are parameters. A device register returns what the function \<^verbatim>\<open>e_dev\<close> says
  of the history of accesses; a write to a control register keeps the bits \<^verbatim>\<open>e_warl\<close> says it keeps.
  \<^verbatim>\<open>e_uload\<close>, \<^verbatim>\<open>e_ustore\<close> and \<^verbatim>\<open>e_ufetch\<close> give the physical address that an access of the interrupted
  program to a virtual address uses, or nothing when it faults; \<^verbatim>\<open>e_misaligned\<close> and \<^verbatim>\<open>e_pmp\<close> say whether
  the hart performs misaligned accesses and has physical memory protection.
  A loop that polls a device gives up after \<^verbatim>\<open>e_polls\<close> attempts with \<^const>\<open>OutOfFuel\<close>. A failed
  \<^verbatim>\<open>assert\<close>, which prints and powers off, is \<^const>\<open>Assertion\<close>.
\<close>

section \<open>Hardware\<close>

datatype dev_event =
    Read u64 nat u64
  | Write u64 nat u64
  | Amo_Or u64 u64 u64
  | Amo_Swap u64 u64 u64

datatype csr =
    Mstatus | Misa | Mie | Mip | Mideleg | Medeleg | Mcounteren | Scounteren | Sptbr | Mepc | Mcause
  | Mbadaddr | Mscratch | Sepc | Scause | Sbadaddr | Stvec | Mcycle | Minstret | Mhpmcounter3
  | Mhpmcounter4 | Mhpmevent3 | Mhpmevent4 | Pmpaddr0 | Pmpcfg0

record menv =
  e_dev :: "dev_event list \<Rightarrow> u64 \<Rightarrow> u64"
  e_warl :: "csr \<Rightarrow> u64 \<Rightarrow> u64"
  e_polls :: nat
  e_hartid :: u64
  e_tohost :: u64
  e_fromhost :: u64
  e_mem_done :: u64
  e_payload_start :: u64
  e_payload_end :: u64
  e_stack_top :: u64
  e_uload :: "u64 \<Rightarrow> u64 option"
  e_ustore :: "u64 \<Rightarrow> u64 option"
  e_ufetch :: "u64 \<Rightarrow> u64 option"
  e_misaligned :: bool
  e_pmp :: bool

text \<open>Hart-local storage: the addresses of the interrupt registers of one hart.\<close>

record hls_t =
  ipi :: u64
  mipi_pending :: u32
  timecmp :: u64
  plic_m_thresh :: u64
  plic_m_ie :: u64
  plic_s_thresh :: u64
  plic_s_ie :: u64

definition MAX_HARTS :: nat where "MAX_HARTS = 8"

definition zero_hls :: hls_t where
  "zero_hls = \<lparr>ipi = 0, mipi_pending = 0, timecmp = 0, plic_m_thresh = 0, plic_m_ie = 0,
     plic_s_thresh = 0, plic_s_ie = 0\<rparr>"

record mstate =
  m_mem :: mem
  events :: "dev_event list"
  csrs :: "csr \<Rightarrow> u64"
  hls :: "u64 \<Rightarrow> hls_t"
  uart :: u64
  uart16550 :: u64
  finisher :: u64
  htif :: u64
  htif_lock :: bool
  mem_size :: u64
  mtime :: u64
  plic_priorities :: u64
  plic_ndevs :: u64
  kernel_start :: u64
  kernel_end :: u64
  hart_mask :: u64
  hart_phandles :: "u32 list"
  disabled_hart_mask :: u64
  entry_point :: u64
  m_fcsr :: u64

text \<open>The globals of the firmware before anything ran: all zero.\<close>

definition reset_state :: "mem \<Rightarrow> mstate" where
  "reset_state m =
     \<lparr>m_mem = m, events = [], csrs = (\<lambda>_. 0), hls = (\<lambda>_. zero_hls), uart = 0, uart16550 = 0, finisher = 0, htif = 0,
      htif_lock = False, mem_size = 0, mtime = 0, plic_priorities = 0, plic_ndevs = 0, kernel_start = 0, kernel_end = 0,
      hart_mask = 0, hart_phandles = replicate MAX_HARTS 0, disabled_hart_mask = 0, entry_point = 0, m_fcsr = 0\<rparr>"

definition dev_read :: "menv \<Rightarrow> nat \<Rightarrow> u64 \<Rightarrow> mstate \<Rightarrow> u64 \<times> mstate" where
  "dev_read env n a s =
     (let v = take_bit (8 * n) (e_dev env (events s) a) in (v, s\<lparr>events := events s @ [Read a n v]\<rparr>))"

definition dev_write :: "nat \<Rightarrow> u64 \<Rightarrow> u64 \<Rightarrow> mstate \<Rightarrow> mstate" where
  "dev_write n a v s = s\<lparr>events := events s @ [Write a n v]\<rparr>"

definition read_csr :: "csr \<Rightarrow> mstate \<Rightarrow> u64" where
  "read_csr c s = csrs s c"

definition write_csr :: "menv \<Rightarrow> csr \<Rightarrow> u64 \<Rightarrow> mstate \<Rightarrow> mstate" where
  "write_csr env c v s = s\<lparr>csrs := (csrs s)(c := e_warl env c v)\<rparr>"

definition set_csr :: "menv \<Rightarrow> csr \<Rightarrow> u64 \<Rightarrow> mstate \<Rightarrow> mstate" where
  "set_csr env c v s = write_csr env c (read_csr c s OR v) s"

definition clear_csr :: "menv \<Rightarrow> csr \<Rightarrow> u64 \<Rightarrow> mstate \<Rightarrow> u64 \<times> mstate" where
  "clear_csr env c v s = (read_csr c s, write_csr env c (read_csr c s AND NOT v) s)"

definition update_hls :: "u64 \<Rightarrow> (hls_t \<Rightarrow> hls_t) \<Rightarrow> mstate \<Rightarrow> mstate" where
  "update_hls i f s = s\<lparr>hls := (hls s)(i := f (hls s i))\<rparr>"

definition HLS :: "menv \<Rightarrow> mstate \<Rightarrow> hls_t" where
  "HLS env s = hls s (e_hartid env)"

section \<open>The serial port\<close>

definition UART_REG_TXFIFO :: u64 where "UART_REG_TXFIFO = 0"
definition UART_REG_RXFIFO :: u64 where "UART_REG_RXFIFO = 1"
definition UART_REG_TXCTRL :: u64 where "UART_REG_TXCTRL = 2"
definition UART_REG_RXCTRL :: u64 where "UART_REG_RXCTRL = 3"
definition UART_TXEN :: u64 where "UART_TXEN = 1"
definition UART_RXEN :: u64 where "UART_RXEN = 1"

fun uart_put_loop :: "menv \<Rightarrow> nat \<Rightarrow> u8 \<Rightarrow> mstate \<Rightarrow> mstate res" where
  "uart_put_loop env 0 ch s = Inl OutOfFuel"
| "uart_put_loop env (Suc k) ch s =
     (let a = uart s + 4 * UART_REG_TXFIFO; r = e_dev env (events s) a;
          s = s\<lparr>events := events s @ [Amo_Or a (ucast ch) r]\<rparr>
      in if sint (ucast r :: u32) < 0 then uart_put_loop env k ch s else Inr s)"

definition uart_putchar :: "menv \<Rightarrow> u8 \<Rightarrow> mstate \<Rightarrow> mstate res" where
  "uart_putchar env ch s = uart_put_loop env (e_polls env) ch s"

definition uart_getchar :: "menv \<Rightarrow> mstate \<Rightarrow> u32 \<times> mstate" where
  "uart_getchar env s =
     (let (ch, s) = dev_read env 4 (uart s + 4 * UART_REG_RXFIFO) s
      in (if sint (ucast ch :: u32) < 0 then -1 else ucast ch, s))"

definition UART_REG_QUEUE :: u64 where "UART_REG_QUEUE = 0"
definition UART_REG_LINESTAT :: u64 where "UART_REG_LINESTAT = 5"
definition UART_REG_STATUS_RX :: u64 where "UART_REG_STATUS_RX = 0x01"
definition UART_REG_STATUS_TX :: u64 where "UART_REG_STATUS_TX = 0x20"

fun uart16550_put_loop :: "menv \<Rightarrow> nat \<Rightarrow> u8 \<Rightarrow> mstate \<Rightarrow> mstate res" where
  "uart16550_put_loop env 0 ch s = Inl OutOfFuel"
| "uart16550_put_loop env (Suc k) ch s =
     (let (v, s) = dev_read env 1 (uart16550 s + UART_REG_LINESTAT) s
      in if v AND UART_REG_STATUS_TX = 0 then uart16550_put_loop env k ch s
         else Inr (dev_write 1 (uart16550 s + UART_REG_QUEUE) (ucast ch) s))"

definition uart16550_putchar :: "menv \<Rightarrow> u8 \<Rightarrow> mstate \<Rightarrow> mstate res" where
  "uart16550_putchar env ch s = uart16550_put_loop env (e_polls env) ch s"

definition uart16550_getchar :: "menv \<Rightarrow> mstate \<Rightarrow> u32 \<times> mstate" where
  "uart16550_getchar env s =
     (let (v, s) = dev_read env 1 (uart16550 s + UART_REG_LINESTAT) s
      in if v AND UART_REG_STATUS_RX \<noteq> 0 then
           let (c, s) = dev_read env 1 (uart16550 s + UART_REG_QUEUE) s in (ucast c, s)
         else (-1, s))"

section \<open>The host interface\<close>

text \<open>\<^verbatim>\<open>dev << 56 | cmd << 48 | data\<close>, stored as two ordered 32-bit halves.\<close>

definition htif_send :: "menv \<Rightarrow> u8 \<Rightarrow> u8 \<Rightarrow> u64 \<Rightarrow> mstate \<Rightarrow> mstate" where
  "htif_send env dev cmd data s =
     (let val = push_bit 56 (ucast dev) OR push_bit 48 (ucast cmd) OR data
      in dev_write 4 (e_tohost env + 4) (drop_bit 32 val) (dev_write 4 (e_tohost env) (take_bit 32 val) s))"

definition htif_recv :: "menv \<Rightarrow> mstate \<Rightarrow> (u8 \<times> u8 \<times> u64) \<times> mstate" where
  "htif_recv env s =
     (let (lo, s) = dev_read env 4 (e_fromhost env) s;
          (hi, s) = dev_read env 4 (e_fromhost env + 4) s;
          val = push_bit 32 hi OR lo
      in ((ucast (drop_bit 56 val), ucast (drop_bit 48 val AND 0xff), drop_bit 16 (push_bit 16 val)), s))"

definition htif_get_fromhost :: "menv \<Rightarrow> u8 \<Rightarrow> u8 \<Rightarrow> mstate \<Rightarrow> u64 \<times> mstate" where
  "htif_get_fromhost env dev cmd s =
     (let ((rdev, rcmd, data), s) = htif_recv env s
      in (if rdev = dev \<and> rcmd = cmd then data else -1, s))"

fun htif_wait :: "menv \<Rightarrow> nat \<Rightarrow> mstate \<Rightarrow> mstate res" where
  "htif_wait env 0 s = Inl OutOfFuel"
| "htif_wait env (Suc k) s =
     (let (v, s) = dev_read env 4 (e_tohost env) s
      in if v \<noteq> 0 then
           let (_, s) = dev_read env 4 (e_fromhost env) s; (_, s) = dev_read env 4 (e_fromhost env + 4) s
           in htif_wait env k s
         else Inr s)"

definition htif_set_tohost :: "menv \<Rightarrow> u8 \<Rightarrow> u8 \<Rightarrow> u64 \<Rightarrow> mstate \<Rightarrow> mstate res" where
  "htif_set_tohost env dev cmd data s =
     bind_res (htif_wait env (e_polls env) s) (\<lambda>s. Inr (htif_send env dev cmd data s))"

definition htif_locked :: "(mstate \<Rightarrow> ('b \<times> mstate) res) \<Rightarrow> mstate \<Rightarrow> ('b \<times> mstate) res" where
  "htif_locked body s =
     (if htif_lock s then Inl Deadlock
      else bind_res (body (s\<lparr>htif_lock := True\<rparr>)) (\<lambda>(r, s). Inr (r, s\<lparr>htif_lock := False\<rparr>)))"

definition htif_console_getchar :: "menv \<Rightarrow> mstate \<Rightarrow> (u32 \<times> mstate) res" where
  "htif_console_getchar env =
     htif_locked (\<lambda>s. let (d, s) = htif_get_fromhost env 1 0 s; ch = ucast (d AND 0xff)
       in bind_res (if ch \<noteq> 0 then htif_set_tohost env 1 0 0 s else Inr s) (\<lambda>s. Inr (ch, s)))"

definition htif_console_putchar :: "menv \<Rightarrow> u8 \<Rightarrow> mstate \<Rightarrow> mstate res" where
  "htif_console_putchar env ch s =
     bind_res (htif_locked (\<lambda>s. bind_res (htif_set_tohost env 1 1 (ucast ch) s) (\<lambda>s. Inr ((), s))) s)
       (\<lambda>(_, s). Inr s)"

definition htif_syscall :: "menv \<Rightarrow> u64 \<Rightarrow> mstate \<Rightarrow> mstate res" where
  "htif_syscall env arg s = htif_set_tohost env 0 0 arg s"

text \<open>\<^verbatim>\<open>htif_poweroff\<close> repeats its request for ever; the host ends the run at the first one it takes.\<close>

definition htif_poweroff :: "menv \<Rightarrow> mstate \<Rightarrow> 'b res" where
  "htif_poweroff env s = bind_res (htif_set_tohost env 0 0 1 s) (\<lambda>s. Inl (Shutdown 0))"

section \<open>The power button\<close>

definition FINISHER_FAIL :: u64 where "FINISHER_FAIL = 0x3333"
definition FINISHER_PASS :: u64 where "FINISHER_PASS = 0x5555"

definition finisher_exit :: "u16 \<Rightarrow> mstate \<Rightarrow> mstate" where
  "finisher_exit code s =
     (if finisher s = 0 then s
      else dev_write 4 (finisher s)
             (if code = 0 then FINISHER_PASS else take_bit 32 (push_bit 16 (ucast code) OR FINISHER_FAIL)) s)"

section \<open>The console\<close>

text \<open>\<^verbatim>\<open>"\r\n"\<close>\<close>

definition crlf :: "u8 list" where
  "crlf = [13, 10]"

definition mcall_console_putchar :: "menv \<Rightarrow> u8 \<Rightarrow> mstate \<Rightarrow> (u64 \<times> mstate) res" where
  "mcall_console_putchar env ch s =
     bind_res
       (if uart s \<noteq> 0 then uart_putchar env ch s
        else if uart16550 s \<noteq> 0 then uart16550_putchar env ch s
        else if htif s \<noteq> 0 then htif_console_putchar env ch s
        else Inr s)
       (\<lambda>s. Inr (0, s))"

fun putstring :: "menv \<Rightarrow> u8 list \<Rightarrow> mstate \<Rightarrow> mstate res" where
  "putstring env [] s = Inr s"
| "putstring env (c # cs) s =
     (if c = 0 then Inr s else bind_res (mcall_console_putchar env c s) (\<lambda>(_, s). putstring env cs s))"

definition vprintm :: "menv \<Rightarrow> u8 list \<Rightarrow> u64 list \<Rightarrow> mstate \<Rightarrow> mstate res" where
  "vprintm env fmt va s =
     bind_res (vsnprintf (m_mem s) (replicate 256 0) 256 fmt va) (\<lambda>(_, buf). putstring env buf s)"

definition printm :: "menv \<Rightarrow> u8 list \<Rightarrow> u64 list \<Rightarrow> mstate \<Rightarrow> mstate res" where
  "printm env fmt va s = vprintm env fmt va s"

definition mcall_console_getchar :: "menv \<Rightarrow> mstate \<Rightarrow> (u64 \<times> mstate) res" where
  "mcall_console_getchar env s =
     (if uart s \<noteq> 0 then let (c, s) = uart_getchar env s in Inr (scast c, s)
      else if uart16550 s \<noteq> 0 then let (c, s) = uart16550_getchar env s in Inr (scast c, s)
      else if htif s \<noteq> 0 then bind_res (htif_console_getchar env s) (\<lambda>(c, s). Inr (scast c, s))
      else Inr (0, s))"

end
