(* ===== verification/Fdt.thy ===== *)
theory Fdt
  imports M_State Pk_File
begin

text \<open>
  The flattened device tree, \<^verbatim>\<open>machine/fdt.c\<close>: the scanner, and the scans and filters that the
  firmware runs with it.

  The blob lies in memory. A \<^verbatim>\<open>struct fdt_scan_node\<close> is a local variable of the stack frame of one
  activation of \<^verbatim>\<open>fdt_scan_helper\<close>, linked to those of the callers: a node is the list of the records
  from itself to the outermost one, its parent is the tail, the null pointer is the empty list. All
  nodes of one nesting level share the variable of one frame, so two node pointers are equal when
  the lists have the same length; the scans that compare pointers store that length. The scanner
  takes fuel, one unit per token: a property with a negative length can move it back for ever.
\<close>

section \<open>Words of the blob\<close>

definition bswap :: "u32 \<Rightarrow> u32" where
  "bswap x =
     (let y = push_bit 8 (x AND 0x00FF00FF) OR drop_bit 8 (x AND 0xFF00FF00);
          z = push_bit 16 (y AND 0x0000FFFF) OR drop_bit 16 (y AND 0xFFFF0000)
      in z)"

definition store32 :: "mem \<Rightarrow> u64 \<Rightarrow> u32 \<Rightarrow> mem" where
  "store32 m a w = (\<lambda>p. if p - a < 4 then ucast (drop_bit (8 * unat (p - a)) w) else m p)"

text \<open>\<^verbatim>\<open>isstring\<close>: the letters, the digits and the four separators.\<close>

definition isstring :: "u8 \<Rightarrow> bool" where
  "isstring c \<longleftrightarrow>
     65 \<le> c \<and> c \<le> 90 \<or> 97 \<le> c \<and> c \<le> 122 \<or> 48 \<le> c \<and> c \<le> 57 \<or>
     c = 0 \<or> c = 32 \<or> c = 44 \<or> c = 45"

text \<open>\<^verbatim>\<open>!strcmp(p, "...")\<close> for a literal.\<close>

fun str_is :: "mem \<Rightarrow> u64 \<Rightarrow> u8 list \<Rightarrow> bool" where
  "str_is m p [] = (m p = 0)"
| "str_is m p (c # cs) = (m p = c \<and> str_is m (p + 1) cs)"

text \<open>C's division of an \<^verbatim>\<open>int\<close>, towards zero.\<close>

definition quot4 :: "int \<Rightarrow> int" where
  "quot4 n = (if 0 \<le> n then n div 4 else - ((- n) div 4))"

section \<open>The scanner\<close>

definition FDT_MAGIC :: u32 where "FDT_MAGIC = 0xd00dfeed"
definition FDT_VERSION :: u32 where "FDT_VERSION = 17"
definition FDT_BEGIN_NODE :: u32 where "FDT_BEGIN_NODE = 1"
definition FDT_END_NODE :: u32 where "FDT_END_NODE = 2"
definition FDT_PROP :: u32 where "FDT_PROP = 3"
definition FDT_NOP :: u32 where "FDT_NOP = 4"
definition FDT_END :: u32 where "FDT_END = 9"

record fdt_scan_node =
  n_name :: u64
  address_cells :: u32
  size_cells :: u32

record fdt_scan_prop =
  p_node :: "fdt_scan_node list"
  p_name :: u64
  p_value :: u64
  p_len :: u32

type_synonym 'x scan_state = "'x \<times> mstate"

record 'x fdt_cb =
  cb_open :: "(fdt_scan_node list \<Rightarrow> 'x scan_state \<Rightarrow> 'x scan_state res) option"
  cb_prop :: "fdt_scan_prop \<Rightarrow> 'x scan_state \<Rightarrow> 'x scan_state res"
  cb_done :: "(fdt_scan_node list \<Rightarrow> 'x scan_state \<Rightarrow> 'x scan_state res) option"
  cb_close :: "(fdt_scan_node list \<Rightarrow> 'x scan_state \<Rightarrow> (bool \<times> 'x scan_state) res) option"

text \<open>The fields of \<^verbatim>\<open>struct fdt_header\<close> are big-endian words.\<close>

definition hdr :: "mem \<Rightarrow> u64 \<Rightarrow> u64 \<Rightarrow> u32" where
  "hdr m fdt i = bswap (load32 m (fdt + 4 * i))"

text \<open>The local \<^verbatim>\<open>child\<close> of a fresh activation, with the default cell counts.\<close>

definition fresh_child :: fdt_scan_node where
  "fresh_child = \<lparr>n_name = 0, address_cells = 2, size_cells = 1\<rparr>"

definition call_open :: "'x fdt_cb \<Rightarrow> fdt_scan_node list \<Rightarrow> 'x scan_state \<Rightarrow> 'x scan_state res" where
  "call_open cb node st = (case cb_open cb of None \<Rightarrow> Inr st | Some f \<Rightarrow> f node st)"

definition call_done :: "bool \<Rightarrow> 'x fdt_cb \<Rightarrow> fdt_scan_node list \<Rightarrow> 'x scan_state \<Rightarrow> 'x scan_state res" where
  "call_done done1 cb node st =
     (if \<not> done1 \<and> node \<noteq> [] then case cb_done cb of None \<Rightarrow> Inr st | Some f \<Rightarrow> f node st else Inr st)"

definition call_close :: "'x fdt_cb \<Rightarrow> fdt_scan_node list \<Rightarrow> 'x scan_state \<Rightarrow> (bool \<times> 'x scan_state) res" where
  "call_close cb node st = (case cb_close cb of None \<Rightarrow> Inr (False, st) | Some f \<Rightarrow> f node st)"

text \<open>\<^verbatim>\<open>while (lex != lex_next) *lex++ = bswap(FDT_NOP)\<close>; with a distance that is no multiple of 4 it never ends.\<close>

definition nop_fill :: "u64 \<Rightarrow> u64 \<Rightarrow> mem \<Rightarrow> mem res" where
  "nop_fill pos pos_next m =
     (if (pos_next - pos) AND 3 \<noteq> 0 then Inl Livelock
      else Inr (\<lambda>a. if a - pos < pos_next - pos
                    then ucast (drop_bit (8 * unat ((a - pos) AND 3)) (bswap FDT_NOP)) else m a))"

definition set_cells :: "mem \<Rightarrow> u64 \<Rightarrow> u32 \<Rightarrow> fdt_scan_node list \<Rightarrow> fdt_scan_node list" where
  "set_cells m name v node =
     (case node of
        [] \<Rightarrow> []
      | n # parents \<Rightarrow>
          (let n = if str_is m name (lit ''#address-cells'') then n\<lparr>address_cells := v\<rparr> else n;
               n = if str_is m name (lit ''#size-cells'') then n\<lparr>size_cells := v\<rparr> else n
           in n # parents))"

text \<open>The result is the position after the node and the node with its cell counts.\<close>

fun fdt_scan_helper ::
  "nat \<Rightarrow> 'x fdt_cb \<Rightarrow> u64 \<Rightarrow> u64 \<Rightarrow> bool \<Rightarrow> fdt_scan_node list \<Rightarrow> fdt_scan_node \<Rightarrow> 'x scan_state \<Rightarrow>
   ((u64 \<times> fdt_scan_node list) \<times> 'x scan_state) res" where
  "fdt_scan_helper 0 cb strings pos done1 node child st = Inl OutOfFuel"
| "fdt_scan_helper (Suc k) cb strings pos done1 node child st =
     (let m = m_mem (snd st); tok = bswap (load32 m pos)
      in if tok = FDT_NOP then fdt_scan_helper k cb strings (pos + 4) done1 node child st
         else if tok = FDT_PROP then
           kassert (\<not> done1)
             (let name = strings + ucast (bswap (load32 m (pos + 8)));
                  len = bswap (load32 m (pos + 4));
                  node = set_cells m name (bswap (load32 m (pos + 12))) node
              in if 2 ^ 31 \<le> sint len + 3 then Inl Undefined
                 else bind_res (cb_prop cb \<lparr>p_node = node, p_name = name, p_value = pos + 12, p_len = len\<rparr> st)
                        (fdt_scan_helper k cb strings (pos + word_of_int (4 * (3 + quot4 (sint len + 3)))) done1 node child))
         else if tok = FDT_BEGIN_NODE then
           bind_res (call_done done1 cb node st)
             (\<lambda>st. let child = child\<lparr>n_name := pos + 4\<rparr>
              in bind_res (call_open cb (child # node) st)
                   (\<lambda>st. bind_res (strlen (m_mem (snd st)) (n_name child))
                      (\<lambda>n. bind_res (fdt_scan_helper k cb strings (pos + 4 * (2 + n div 4)) False (child # node) fresh_child st)
                         (\<lambda>((pos_next, node'), st). bind_res (call_close cb node' st)
                            (\<lambda>(kill, st). bind_res (if kill then nop_fill pos pos_next (m_mem (snd st)) else Inr (m_mem (snd st)))
                               (\<lambda>m. fdt_scan_helper k cb strings pos_next True node (hd node')
                                  (fst st, (snd st)\<lparr>m_mem := m\<rparr>)))))))
         else if tok = FDT_END_NODE then
           bind_res (call_done done1 cb node st) (\<lambda>st. Inr ((pos + 4, node), st))
         else bind_res (call_done done1 cb node st) (\<lambda>st. Inr ((pos, node), st)))"

definition fdt_known :: "mem \<Rightarrow> u64 \<Rightarrow> bool" where
  "fdt_known m fdt \<longleftrightarrow> \<not> (hdr m fdt 0 \<noteq> FDT_MAGIC \<or> FDT_VERSION < hdr m fdt 6)"

definition fdt_scan :: "nat \<Rightarrow> u64 \<Rightarrow> 'x fdt_cb \<Rightarrow> 'x scan_state \<Rightarrow> 'x scan_state res" where
  "fdt_scan fuel fdt cb st =
     (let m = m_mem (snd st)
      in if \<not> fdt_known m fdt then Inr st
         else let strings = fdt + ucast (hdr m fdt 3); pos = fdt + ucast (hdr m fdt 2)
              in bind_res (fdt_scan_helper fuel cb strings pos False [] fresh_child st) (\<lambda>(_, st). Inr st))"

definition fdt_size :: "mem \<Rightarrow> u64 \<Rightarrow> u32" where
  "fdt_size m fdt = (if \<not> fdt_known m fdt then 0 else hdr m fdt 1)"

section \<open>Extracting fields\<close>

fun get_cells :: "mem \<Rightarrow> nat \<Rightarrow> u64 \<Rightarrow> u64 \<Rightarrow> u64 \<times> u64" where
  "get_cells m 0 v r = (v, r)"
| "get_cells m (Suc k) v r = get_cells m k (v + 4) (push_bit 32 r + ucast (bswap (load32 m v)))"

definition fdt_get_address :: "mem \<Rightarrow> fdt_scan_node list \<Rightarrow> u64 \<Rightarrow> (u64 \<times> u64) res" where
  "fdt_get_address m node v =
     (case node of [] \<Rightarrow> Inl BadAccess | n # _ \<Rightarrow> Inr (get_cells m (nat (sint (address_cells n))) v 0))"

definition fdt_get_size :: "mem \<Rightarrow> fdt_scan_node list \<Rightarrow> u64 \<Rightarrow> (u64 \<times> u64) res" where
  "fdt_get_size m node v =
     (case node of [] \<Rightarrow> Inl BadAccess | n # _ \<Rightarrow> Inr (get_cells m (nat (sint (size_cells n))) v 0))"

function list_index :: "mem \<Rightarrow> u64 \<Rightarrow> u64 \<Rightarrow> u8 list \<Rightarrow> u32 \<Rightarrow> u32 res" where
  "list_index m list e s index =
     (if 0 < sint (e - list) then
        if str_is m list s then Inr index
        else bind_res (strlen m list)
               (\<lambda>n. advance n list (\<lambda>l. advance 1 l (\<lambda>l. list_index m l e s (index + 1))))
      else Inr (-1))"
  by pat_completeness auto

termination list_index
proof (relation "measure (\<lambda>(m, list, e, s, index). 2 ^ 64 - unat list)", goal_cases)
  case (2 m list e s index n)
  then have "unat (list + n + 1) = unat list + unat n + 1"
    using no_wrap_add [of list n] no_wrap_add [of "list + n" 1] by simp
  moreover have "unat (list + n + 1) < 2 ^ 64" using unsigned_less [of "list + n + 1", where 'a = nat] by simp
  ultimately show ?case by simp
qed simp

declare list_index.simps [simp del]

definition fdt_string_list_index :: "mem \<Rightarrow> fdt_scan_prop \<Rightarrow> u8 list \<Rightarrow> u32 res" where
  "fdt_string_list_index m prop s = list_index m (p_value prop) (p_value prop + scast (p_len prop)) s 0"

text \<open>\<^verbatim>\<open>!strcmp(prop->name, "compatible") && fdt_string_list_index(prop, s) >= 0\<close>\<close>

definition is_compatible :: "mem \<Rightarrow> fdt_scan_prop \<Rightarrow> u8 list \<Rightarrow> bool res" where
  "is_compatible m prop s =
     (if str_is m (p_name prop) (lit ''compatible'')
      then bind_res (fdt_string_list_index m prop s) (\<lambda>i. Inr (0 \<le> sint i)) else Inr False)"

end
