(* ===== verification/Fdt_Scans.thy ===== *)
theory Fdt_Scans
  imports Fdt
begin

text \<open>
  The scans of the device tree: memory, harts, timer and interrupt controllers, consoles, power
  button, and the three filters that remove information from the copy handed to the payload.
  (\<^verbatim>\<open>machine/fdt.c\<close> and the \<^verbatim>\<open>query_\<close> functions of the drivers.) Each scan is the record of its
  \<^verbatim>\<open>struct\<close>, its callbacks, and the function that runs it. Fields that the code leaves
  uninitialised are \<^const>\<open>None\<close>; reading one ends in \<^const>\<open>Undefined\<close>.
\<close>

definition prop_is :: "fdt_scan_prop \<Rightarrow> string \<Rightarrow> 'x scan_state \<Rightarrow> bool" where
  "prop_is prop s st = str_is (m_mem (snd st)) (p_name prop) (lit s)"

definition value_is :: "fdt_scan_prop \<Rightarrow> string \<Rightarrow> 'x scan_state \<Rightarrow> bool" where
  "value_is prop s st = str_is (m_mem (snd st)) (p_value prop) (lit s)"

text \<open>\<^verbatim>\<open>fdt_get_address(prop->node->parent, prop->value, ...)\<close>\<close>

definition reg_of :: "fdt_scan_prop \<Rightarrow> 'x scan_state \<Rightarrow> u64 res" where
  "reg_of prop st =
     (case p_node prop of
        [] \<Rightarrow> Inl BadAccess
      | _ # parent \<Rightarrow> bind_res (fdt_get_address (m_mem (snd st)) parent (p_value prop)) (\<lambda>(_, r). Inr r))"

definition word_of :: "fdt_scan_prop \<Rightarrow> 'x scan_state \<Rightarrow> u32" where
  "word_of prop st = bswap (load32 (m_mem (snd st)) (p_value prop))"

section \<open>Memory\<close>

record mem_scan =
  memory :: bool
  reg_value :: u64
  reg_len :: u32

definition zero_mem_scan :: mem_scan where
  "zero_mem_scan = \<lparr>memory = False, reg_value = 0, reg_len = 0\<rparr>"

definition mem_open :: "fdt_scan_node list \<Rightarrow> mem_scan scan_state \<Rightarrow> mem_scan scan_state res" where
  "mem_open node st = Inr (zero_mem_scan, snd st)"

definition mem_prop :: "fdt_scan_prop \<Rightarrow> mem_scan scan_state \<Rightarrow> mem_scan scan_state res" where
  "mem_prop prop st =
     (if prop_is prop ''device_type'' st \<and> value_is prop ''memory'' st then Inr ((fst st)\<lparr>memory := True\<rparr>, snd st)
      else if prop_is prop ''reg'' st then Inr ((fst st)\<lparr>reg_value := p_value prop, reg_len := p_len prop\<rparr>, snd st)
      else Inr st)"

text \<open>\<^verbatim>\<open>r\<close> is \<^verbatim>\<open>end - value\<close> in words; a node without cells makes no progress.\<close>

function mem_loop :: "u64 \<Rightarrow> fdt_scan_node list \<Rightarrow> u64 \<Rightarrow> int \<Rightarrow> mstate \<Rightarrow> mstate res" where
  "mem_loop self parent v r s =
     (if 0 < r then
        bind_res (fdt_get_address (m_mem s) parent v)
          (\<lambda>(v1, base). bind_res (fdt_get_size (m_mem s) parent v1)
             (\<lambda>(v2, size).
                let s = if base \<le> self \<and> self \<le> base + size then s\<lparr>mem_size := size\<rparr> else s;
                    n = nat (sint (address_cells (hd parent))) + nat (sint (size_cells (hd parent)))
                in if n = 0 then Inl Livelock else mem_loop self parent v2 (r - int n) s))
      else kassert (r = 0) (Inr s))"
  by pat_completeness auto

termination mem_loop
  by (relation "measure (\<lambda>(self, parent, v, r, s). nat r)") auto

declare mem_loop.simps [simp del]

definition mem_done :: "menv \<Rightarrow> fdt_scan_node list \<Rightarrow> mem_scan scan_state \<Rightarrow> mem_scan scan_state res" where
  "mem_done env node st =
     (let scan = fst st
      in if \<not> memory scan then Inr st
         else kassert (reg_value scan \<noteq> 0 \<and> sint (reg_len scan) mod 4 = 0)
                (bind_res (mem_loop (e_mem_done env) (tl node) (reg_value scan) (quot4 (sint (reg_len scan))) (snd st))
                   (\<lambda>s. Inr (scan, s))))"

definition query_mem :: "menv \<Rightarrow> nat \<Rightarrow> u64 \<Rightarrow> mstate \<Rightarrow> mstate res" where
  "query_mem env fuel fdt s =
     bind_res (fdt_scan fuel fdt \<lparr>cb_open = Some mem_open, cb_prop = mem_prop, cb_done = Some (mem_done env), cb_close = None\<rparr>
         (zero_mem_scan, s\<lparr>mem_size := 0\<rparr>))
       (\<lambda>(_, s). kassert (0 < mem_size s) (Inr s))"

section \<open>Harts\<close>

text \<open>The node pointers are nesting depths, 0 the null pointer.\<close>

record hart_scan =
  cpu :: nat
  hart :: u32
  controller :: nat
  cells :: u32
  phandle :: u32

definition hart_open :: "fdt_scan_node list \<Rightarrow> hart_scan scan_state \<Rightarrow> hart_scan scan_state res" where
  "hart_open node st =
     (let scan = fst st;
          scan = if cpu scan = 0 then scan\<lparr>hart := -1\<rparr> else scan;
          scan = if controller scan = 0 then scan\<lparr>cells := 0, phandle := 0\<rparr> else scan
      in Inr (scan, snd st))"

definition hart_prop :: "fdt_scan_prop \<Rightarrow> hart_scan scan_state \<Rightarrow> hart_scan scan_state res" where
  "hart_prop prop st =
     (let scan = fst st
      in if prop_is prop ''device_type'' st \<and> value_is prop ''cpu'' st then
           kassert (cpu scan = 0) (Inr (scan\<lparr>cpu := length (p_node prop)\<rparr>, snd st))
         else if prop_is prop ''interrupt-controller'' st then
           kassert (controller scan = 0) (Inr (scan\<lparr>controller := length (p_node prop)\<rparr>, snd st))
         else if prop_is prop ''#interrupt-cells'' st then Inr (scan\<lparr>cells := word_of prop st\<rparr>, snd st)
         else if prop_is prop ''phandle'' st then Inr (scan\<lparr>phandle := word_of prop st\<rparr>, snd st)
         else if prop_is prop ''reg'' st then
           bind_res (reg_of prop st) (\<lambda>reg. Inr (scan\<lparr>hart := ucast reg\<rparr>, snd st))
         else Inr st)"

definition hls_init :: "u64 \<Rightarrow> mstate \<Rightarrow> mstate" where
  "hls_init i s = update_hls i (\<lambda>_. zero_hls) s"

definition hart_done :: "fdt_scan_node list \<Rightarrow> hart_scan scan_state \<Rightarrow> hart_scan scan_state res" where
  "hart_done node st =
     (let scan = fst st; s = snd st
      in kassert (cpu scan = length node \<longrightarrow> 0 \<le> sint (hart scan))
           (if controller scan = length node \<and> cpu scan \<noteq> 0 then
              kassert (0 < phandle scan)
                (kassert (cells scan = 1)
                   (if sint (hart scan) < int MAX_HARTS then
                      if sint (hart scan) < 0 then Inl BadAccess
                      else Inr (scan, hls_init (ucast (hart scan))
                             (s\<lparr>hart_phandles := (hart_phandles s)[unat (hart scan) := phandle scan],
                                hart_mask := hart_mask s OR push_bit (unat (hart scan)) 1\<rparr>))
                    else Inr st))
            else Inr st))"

definition hart_close :: "fdt_scan_node list \<Rightarrow> hart_scan scan_state \<Rightarrow> (bool \<times> hart_scan scan_state) res" where
  "hart_close node st =
     (let scan = fst st;
          scan = if cpu scan = length node then scan\<lparr>cpu := 0\<rparr> else scan;
          scan = if controller scan = length node then scan\<lparr>controller := 0\<rparr> else scan
      in Inr (False, (scan, snd st)))"

definition query_harts :: "menv \<Rightarrow> nat \<Rightarrow> u64 \<Rightarrow> mstate \<Rightarrow> mstate res" where
  "query_harts env fuel fdt s =
     bind_res (fdt_scan fuel fdt
         \<lparr>cb_open = Some hart_open, cb_prop = hart_prop, cb_done = Some hart_done, cb_close = Some hart_close\<rparr>
         (\<lparr>cpu = 0, hart = 0, controller = 0, cells = 0, phandle = 0\<rparr>, s))
       (\<lambda>(_, s). if 64 \<le> e_hartid env then Inl Undefined
                 else kassert (drop_bit (unat (e_hartid env)) (hart_mask s) \<noteq> 0) (Inr s))"

section \<open>The timer\<close>

record clint_scan =
  c_compat :: bool
  c_reg :: u64
  c_int_value :: u64
  c_int_len :: u32
  c_done :: bool

definition clint_open :: "fdt_scan_node list \<Rightarrow> clint_scan scan_state \<Rightarrow> clint_scan scan_state res" where
  "clint_open node st = Inr ((fst st)\<lparr>c_compat := False, c_reg := 0, c_int_value := 0\<rparr>, snd st)"

definition clint_prop :: "fdt_scan_prop \<Rightarrow> clint_scan scan_state \<Rightarrow> clint_scan scan_state res" where
  "clint_prop prop st =
     bind_res (is_compatible (m_mem (snd st)) prop (lit ''riscv,clint0''))
       (\<lambda>c. if c then Inr ((fst st)\<lparr>c_compat := True\<rparr>, snd st)
            else if prop_is prop ''reg'' st then bind_res (reg_of prop st) (\<lambda>r. Inr ((fst st)\<lparr>c_reg := r\<rparr>, snd st))
            else if prop_is prop ''interrupts-extended'' st then
              Inr ((fst st)\<lparr>c_int_value := p_value prop, c_int_len := p_len prop\<rparr>, snd st)
            else Inr st)"

text \<open>\<^verbatim>\<open>r\<close> words remain; entries have four words.\<close>

function clint_loop :: "u64 \<Rightarrow> u64 \<Rightarrow> u64 \<Rightarrow> int \<Rightarrow> mstate \<Rightarrow> mstate" where
  "clint_loop reg index v r s =
     (if 0 < r then
        let ph = bswap (load32 (m_mem s) v);
            s = (case find_from 0 (\<lambda>p. p = ph) (hart_phandles s) of
                   None \<Rightarrow> s
                 | Some h \<Rightarrow> update_hls (of_nat h)
                     (\<lambda>l. l\<lparr>ipi := reg + index * 4, timecmp := reg + 0x4000 + index * 8\<rparr>) s)
        in clint_loop reg (index + 1) (v + 16) (r - 4) s
      else s)"
  by pat_completeness auto

termination clint_loop
  by (relation "measure (\<lambda>(reg, index, v, r, s). nat r)") auto

declare clint_loop.simps [simp del]

definition clint_done :: "fdt_scan_node list \<Rightarrow> clint_scan scan_state \<Rightarrow> clint_scan scan_state res" where
  "clint_done node st =
     (let scan = fst st
      in if \<not> c_compat scan then Inr st
         else kassert (c_reg scan \<noteq> 0)
           (kassert (c_int_value scan \<noteq> 0 \<and> sint (c_int_len scan) mod 16 = 0)
             (kassert (\<not> c_done scan)
               (Inr (scan\<lparr>c_done := True\<rparr>,
                  clint_loop (c_reg scan) 0 (c_int_value scan) (quot4 (sint (c_int_len scan)))
                    ((snd st)\<lparr>mtime := c_reg scan + 0xbff8\<rparr>))))))"

definition query_clint :: "nat \<Rightarrow> u64 \<Rightarrow> mstate \<Rightarrow> mstate res" where
  "query_clint fuel fdt s =
     bind_res (fdt_scan fuel fdt
         \<lparr>cb_open = Some clint_open, cb_prop = clint_prop, cb_done = Some clint_done, cb_close = None\<rparr>
         (\<lparr>c_compat = False, c_reg = 0, c_int_value = 0, c_int_len = 0, c_done = False\<rparr>, s))
       (\<lambda>(scan, s). kassert (c_done scan) (Inr s))"

section \<open>The interrupt controller\<close>

record plic_scan =
  pl_compat :: bool
  pl_reg :: u64
  pl_int_value :: u64
  pl_int_len :: "u32 option"
  pl_done :: bool
  pl_ndev :: "u32 option"

definition plic_open :: "fdt_scan_node list \<Rightarrow> plic_scan scan_state \<Rightarrow> plic_scan scan_state res" where
  "plic_open node st = Inr ((fst st)\<lparr>pl_compat := False, pl_reg := 0, pl_int_value := 0\<rparr>, snd st)"

definition plic_prop :: "fdt_scan_prop \<Rightarrow> plic_scan scan_state \<Rightarrow> plic_scan scan_state res" where
  "plic_prop prop st =
     bind_res (is_compatible (m_mem (snd st)) prop (lit ''riscv,plic0''))
       (\<lambda>c. if c then Inr ((fst st)\<lparr>pl_compat := True\<rparr>, snd st)
            else if prop_is prop ''reg'' st then bind_res (reg_of prop st) (\<lambda>r. Inr ((fst st)\<lparr>pl_reg := r\<rparr>, snd st))
            else if prop_is prop ''interrupts-extended'' st then
              Inr ((fst st)\<lparr>pl_int_value := p_value prop, pl_int_len := Some (p_len prop)\<rparr>, snd st)
            else if prop_is prop ''riscv,ndev'' st then Inr ((fst st)\<lparr>pl_ndev := Some (word_of prop st)\<rparr>, snd st)
            else Inr st)"

definition HART_BASE :: u64 where "HART_BASE = 0x200000"
definition HART_SIZE :: u64 where "HART_SIZE = 0x1000"
definition ENABLE_BASE :: u64 where "ENABLE_BASE = 0x2000"
definition ENABLE_SIZE :: u64 where "ENABLE_SIZE = 0x80"
definition IRQ_S_EXT :: u32 where "IRQ_S_EXT = 9"
definition IRQ_M_EXT :: u32 where "IRQ_M_EXT = 11"

function plic_loop :: "menv \<Rightarrow> u64 \<Rightarrow> u64 \<Rightarrow> u64 \<Rightarrow> int \<Rightarrow> mstate \<Rightarrow> mstate res" where
  "plic_loop env reg index v r s =
     (if 0 < r then
        let ph = bswap (load32 (m_mem s) v); cpu_int = bswap (load32 (m_mem s) (v + 4));
            ie = reg + ENABLE_BASE + ENABLE_SIZE * index; th = reg + HART_BASE + HART_SIZE * index
        in bind_res
             (case find_from 0 (\<lambda>p. p = ph) (hart_phandles s) of
                None \<Rightarrow> Inr s
              | Some h \<Rightarrow>
                  if cpu_int = IRQ_M_EXT then Inr (update_hls (of_nat h) (\<lambda>l. l\<lparr>plic_m_ie := ie, plic_m_thresh := th\<rparr>) s)
                  else if cpu_int = IRQ_S_EXT then Inr (update_hls (of_nat h) (\<lambda>l. l\<lparr>plic_s_ie := ie, plic_s_thresh := th\<rparr>) s)
                  else printm env (lit ''PLIC wired hart %d to wrong interrupt %d'') [of_nat h, ucast cpu_int] s)
             (plic_loop env reg (index + 1) (v + 8) (r - 2))
      else Inr s)"
  by pat_completeness auto

termination plic_loop
  by (relation "measure (\<lambda>(env, reg, index, v, r, s). nat r)") auto

declare plic_loop.simps [simp del]

definition plic_done :: "menv \<Rightarrow> fdt_scan_node list \<Rightarrow> plic_scan scan_state \<Rightarrow> plic_scan scan_state res" where
  "plic_done env node st =
     (let scan = fst st
      in if \<not> pl_compat scan then Inr st
         else kassert (pl_reg scan \<noteq> 0)
           (if pl_int_value scan = 0 then Inl Assertion
            else case pl_int_len scan of
              None \<Rightarrow> Inl Undefined
            | Some len \<Rightarrow>
                kassert (sint len mod 8 = 0)
                  (case pl_ndev scan of
                     None \<Rightarrow> Inl Undefined
                   | Some ndev \<Rightarrow>
                       kassert (0 \<le> sint ndev \<and> sint ndev < 1024)
                         (kassert (\<not> pl_done scan)
                            (bind_res (plic_loop env (pl_reg scan) 0 (pl_int_value scan) (quot4 (sint len))
                                 ((snd st)\<lparr>plic_priorities := pl_reg scan, plic_ndevs := scast ndev\<rparr>))
                               (\<lambda>s. Inr (scan\<lparr>pl_done := True\<rparr>, s)))))))"

definition zero_plic_scan :: plic_scan where
  "zero_plic_scan =
     \<lparr>pl_compat = False, pl_reg = 0, pl_int_value = 0, pl_int_len = None, pl_done = False, pl_ndev = None\<rparr>"

definition query_plic :: "menv \<Rightarrow> nat \<Rightarrow> u64 \<Rightarrow> mstate \<Rightarrow> mstate res" where
  "query_plic env fuel fdt s =
     bind_res (fdt_scan fuel fdt
         \<lparr>cb_open = Some plic_open, cb_prop = plic_prop, cb_done = Some (plic_done env), cb_close = None\<rparr>
         (zero_plic_scan, s))
       (\<lambda>(_, s). Inr s)"

function redact_loop :: "u64 \<Rightarrow> int \<Rightarrow> mem \<Rightarrow> mem" where
  "redact_loop v r m =
     (if 0 < r then
        redact_loop (v + 8) (r - 2)
          (if bswap (load32 m (v + 4)) = IRQ_M_EXT then store32 m (v + 4) (bswap (-1)) else m)
      else m)"
  by pat_completeness auto

termination redact_loop
  by (relation "measure (\<lambda>(v, r, m). nat r)") auto

declare redact_loop.simps [simp del]

definition plic_redact :: "fdt_scan_node list \<Rightarrow> plic_scan scan_state \<Rightarrow> plic_scan scan_state res" where
  "plic_redact node st =
     (let scan = fst st
      in if \<not> pl_compat scan then Inr st
         else case pl_int_len scan of
           None \<Rightarrow> Inl Undefined
         | Some len \<Rightarrow>
             if pl_int_value scan = 0 \<and> 0 < quot4 (sint len) then Inl BadAccess
             else Inr (scan\<lparr>pl_done := True\<rparr>,
                    (snd st)\<lparr>m_mem := redact_loop (pl_int_value scan) (quot4 (sint len)) (m_mem (snd st))\<rparr>))"

definition filter_plic :: "nat \<Rightarrow> u64 \<Rightarrow> mstate \<Rightarrow> mstate res" where
  "filter_plic fuel fdt s =
     bind_res (fdt_scan fuel fdt
         \<lparr>cb_open = Some plic_open, cb_prop = plic_prop, cb_done = Some plic_redact, cb_close = None\<rparr>
         (zero_plic_scan, s))
       (\<lambda>(_, s). Inr s)"

section \<open>Removing nodes\<close>

record compat_scan =
  compat :: "u8 list"
  depth :: int
  kill :: int

definition compat_open :: "fdt_scan_node list \<Rightarrow> compat_scan scan_state \<Rightarrow> compat_scan scan_state res" where
  "compat_open node st = Inr ((fst st)\<lparr>depth := depth (fst st) + 1\<rparr>, snd st)"

definition compat_prop :: "fdt_scan_prop \<Rightarrow> compat_scan scan_state \<Rightarrow> compat_scan scan_state res" where
  "compat_prop prop st =
     (let scan = fst st
      in bind_res (is_compatible (m_mem (snd st)) prop (compat scan))
           (\<lambda>c. Inr (if c \<and> depth scan < kill scan then scan\<lparr>kill := depth scan\<rparr> else scan, snd st)))"

definition compat_close :: "fdt_scan_node list \<Rightarrow> compat_scan scan_state \<Rightarrow> (bool \<times> compat_scan scan_state) res" where
  "compat_close node st =
     (let scan = fst st; scan' = scan\<lparr>depth := depth scan - 1\<rparr>
      in if kill scan = depth scan then Inr (True, (scan'\<lparr>kill := 999\<rparr>, snd st))
         else Inr (False, (scan', snd st)))"

definition compat_cb :: "compat_scan fdt_cb" where
  "compat_cb = \<lparr>cb_open = Some compat_open, cb_prop = compat_prop, cb_done = None, cb_close = Some compat_close\<rparr>"

definition filter_compat :: "nat \<Rightarrow> u64 \<Rightarrow> u8 list \<Rightarrow> mstate \<Rightarrow> mstate res" where
  "filter_compat fuel fdt c s =
     bind_res (fdt_scan fuel fdt compat_cb (\<lparr>compat = c, depth = 0, kill = 999\<rparr>, s)) (\<lambda>(_, s). Inr s)"

section \<open>The payload\<close>

record chosen_scan =
  chosen :: nat
  ch_start :: u64
  ch_end :: u64

definition chosen_open :: "fdt_scan_node list \<Rightarrow> chosen_scan scan_state \<Rightarrow> chosen_scan scan_state res" where
  "chosen_open node st =
     (case node of
        [] \<Rightarrow> Inl BadAccess
      | n # _ \<Rightarrow> Inr (if str_is (m_mem (snd st)) (n_name n) (lit ''chosen'') then (fst st)\<lparr>chosen := length node\<rparr> else fst st,
                      snd st))"

definition chosen_close :: "fdt_scan_node list \<Rightarrow> chosen_scan scan_state \<Rightarrow> (bool \<times> chosen_scan scan_state) res" where
  "chosen_close node st =
     Inr (False, (if chosen (fst st) \<noteq> 0 \<and> chosen (fst st) = length node then (fst st)\<lparr>chosen := 0\<rparr> else fst st, snd st))"

definition chosen_prop :: "fdt_scan_prop \<Rightarrow> chosen_scan scan_state \<Rightarrow> chosen_scan scan_state res" where
  "chosen_prop prop st =
     (if chosen (fst st) = 0 then Inr st
      else if prop_is prop ''riscv,kernel-start'' st then
        bind_res (reg_of prop st) (\<lambda>v. Inr ((fst st)\<lparr>ch_start := v\<rparr>, snd st))
      else if prop_is prop ''riscv,kernel-end'' st then
        bind_res (reg_of prop st) (\<lambda>v. Inr ((fst st)\<lparr>ch_end := v\<rparr>, snd st))
      else Inr st)"

definition query_chosen :: "nat \<Rightarrow> u64 \<Rightarrow> mstate \<Rightarrow> mstate res" where
  "query_chosen fuel fdt s =
     bind_res (fdt_scan fuel fdt
         \<lparr>cb_open = Some chosen_open, cb_prop = chosen_prop, cb_done = None, cb_close = Some chosen_close\<rparr>
         (\<lparr>chosen = 0, ch_start = 0, ch_end = 0\<rparr>, s))
       (\<lambda>(ch, s). Inr (s\<lparr>kernel_start := ch_start ch, kernel_end := ch_end ch\<rparr>))"

section \<open>Masking harts\<close>

record hart_filter =
  f_compat :: bool
  f_hart :: u32
  f_status :: u64
  f_mmu_type :: u64

definition hart_filter_open :: "fdt_scan_node list \<Rightarrow> hart_filter scan_state \<Rightarrow> hart_filter scan_state res" where
  "hart_filter_open node st = Inr (\<lparr>f_compat = False, f_hart = -1, f_status = 0, f_mmu_type = 0\<rparr>, snd st)"

definition hart_filter_prop :: "fdt_scan_prop \<Rightarrow> hart_filter scan_state \<Rightarrow> hart_filter scan_state res" where
  "hart_filter_prop prop st =
     (let f = fst st
      in if prop_is prop ''device_type'' st \<and> value_is prop ''cpu'' st then Inr (f\<lparr>f_compat := True\<rparr>, snd st)
         else if prop_is prop ''reg'' st then bind_res (reg_of prop st) (\<lambda>r. Inr (f\<lparr>f_hart := ucast r\<rparr>, snd st))
         else if prop_is prop ''status'' st then Inr (f\<lparr>f_status := p_value prop\<rparr>, snd st)
         else if prop_is prop ''mmu-type'' st then Inr (f\<lparr>f_mmu_type := p_value prop\<rparr>, snd st)
         else Inr st)"

definition hart_filter_mask :: "menv \<Rightarrow> hart_filter \<Rightarrow> mstate \<Rightarrow> (bool \<times> mstate) res" where
  "hart_filter_mask env f s =
     (if f_mmu_type f = 0 then Inr (True, s)
      else if \<not> str_is (m_mem s) (f_status f) (lit ''okay'') then Inr (True, s)
      else if str_is (m_mem s) (f_mmu_type f) (lit ''riscv,sv39'') then Inr (False, s)
      else if str_is (m_mem s) (f_mmu_type f) (lit ''riscv,sv48'') then Inr (False, s)
      else bind_res (printm env (lit ''hart_filter_mask saw unknown hart type: status=\"%s\", mmu_type=\"%s\"\<newline>'')
               [f_status f, f_mmu_type f] s)
             (\<lambda>s. Inr (True, s)))"

text \<open>\<^verbatim>\<open>strcpy(status, "masked")\<close>, then the length word eight bytes before the value.\<close>

definition store_masked :: "u64 \<Rightarrow> mem \<Rightarrow> mem" where
  "store_masked p m =
     store32 (\<lambda>a. if a - p < 7 then (lit ''masked'' @ [0]) ! unat (a - p) else m a) (p - 8) (bswap 7)"

definition hart_filter_done :: "menv \<Rightarrow> fdt_scan_node list \<Rightarrow> hart_filter scan_state \<Rightarrow> hart_filter scan_state res" where
  "hart_filter_done env node st =
     (let f = fst st
      in if \<not> f_compat f then Inr st
         else kassert (f_status f \<noteq> 0)
           (kassert (0 \<le> sint (f_hart f))
             (bind_res (hart_filter_mask env f (snd st))
               (\<lambda>(b, s). if \<not> b then Inr (f, s)
                  else if 31 \<le> sint (f_hart f) then Inl Undefined
                  else Inr (f, s\<lparr>m_mem := store_masked (f_status f) (m_mem s),
                              disabled_hart_mask := disabled_hart_mask s OR push_bit (unat (f_hart f)) 1\<rparr>)))))"

definition filter_harts :: "menv \<Rightarrow> nat \<Rightarrow> u64 \<Rightarrow> mstate \<Rightarrow> mstate res" where
  "filter_harts env fuel fdt s =
     bind_res (fdt_scan fuel fdt
         \<lparr>cb_open = Some hart_filter_open, cb_prop = hart_filter_prop, cb_done = Some (hart_filter_done env), cb_close = None\<rparr>
         (\<lparr>f_compat = False, f_hart = 0, f_status = 0, f_mmu_type = 0\<rparr>, s\<lparr>disabled_hart_mask := 0\<rparr>))
       (\<lambda>(_, s). Inr s)"

section \<open>The drivers\<close>

text \<open>The three drivers that are found by the first string of \<^verbatim>\<open>compatible\<close> and their \<^verbatim>\<open>reg\<close>.\<close>

record dev_scan =
  d_compat :: bool
  d_reg :: u64

definition zero_dev_scan :: dev_scan where
  "zero_dev_scan = \<lparr>d_compat = False, d_reg = 0\<rparr>"

definition dev_open :: "fdt_scan_node list \<Rightarrow> dev_scan scan_state \<Rightarrow> dev_scan scan_state res" where
  "dev_open node st = Inr (zero_dev_scan, snd st)"

definition dev_prop :: "string \<Rightarrow> fdt_scan_prop \<Rightarrow> dev_scan scan_state \<Rightarrow> dev_scan scan_state res" where
  "dev_prop c prop st =
     (if prop_is prop ''compatible'' st \<and> value_is prop c st then Inr ((fst st)\<lparr>d_compat := True\<rparr>, snd st)
      else if prop_is prop ''reg'' st then bind_res (reg_of prop st) (\<lambda>r. Inr ((fst st)\<lparr>d_reg := r\<rparr>, snd st))
      else Inr st)"

definition uart_open :: "fdt_scan_node list \<Rightarrow> dev_scan scan_state \<Rightarrow> dev_scan scan_state res" where
  "uart_open = dev_open"

definition uart_prop :: "fdt_scan_prop \<Rightarrow> dev_scan scan_state \<Rightarrow> dev_scan scan_state res" where
  "uart_prop = dev_prop ''sifive,uart0''"

definition uart_done :: "fdt_scan_node list \<Rightarrow> dev_scan scan_state \<Rightarrow> dev_scan scan_state res" where
  "uart_done node st =
     (let scan = fst st; s = snd st
      in if \<not> d_compat scan \<or> d_reg scan = 0 \<or> uart s \<noteq> 0 then Inr st
         else Inr (scan, dev_write 4 (d_reg scan + 4 * UART_REG_RXCTRL) UART_RXEN
                (dev_write 4 (d_reg scan + 4 * UART_REG_TXCTRL) UART_TXEN (s\<lparr>uart := d_reg scan\<rparr>))))"

definition query_uart :: "nat \<Rightarrow> u64 \<Rightarrow> mstate \<Rightarrow> mstate res" where
  "query_uart fuel fdt s =
     bind_res (fdt_scan fuel fdt
         \<lparr>cb_open = Some uart_open, cb_prop = uart_prop, cb_done = Some uart_done, cb_close = None\<rparr>
         (zero_dev_scan, s))
       (\<lambda>(_, s). Inr s)"

definition uart16550_open :: "fdt_scan_node list \<Rightarrow> dev_scan scan_state \<Rightarrow> dev_scan scan_state res" where
  "uart16550_open = dev_open"

definition uart16550_prop :: "fdt_scan_prop \<Rightarrow> dev_scan scan_state \<Rightarrow> dev_scan scan_state res" where
  "uart16550_prop = dev_prop ''ns16550a''"

definition uart16550_done :: "fdt_scan_node list \<Rightarrow> dev_scan scan_state \<Rightarrow> dev_scan scan_state res" where
  "uart16550_done node st =
     (let scan = fst st; s = snd st; r = d_reg scan
      in if \<not> d_compat scan \<or> r = 0 \<or> uart16550 s \<noteq> 0 then Inr st
         else Inr (scan, fold (\<lambda>(i, v). dev_write 1 (r + i) v)
                [(1, 0x00), (3, 0x80), (0, 0x03), (1, 0x00), (3, 0x03), (2, 0xC7)] (s\<lparr>uart16550 := r\<rparr>)))"

definition query_uart16550 :: "nat \<Rightarrow> u64 \<Rightarrow> mstate \<Rightarrow> mstate res" where
  "query_uart16550 fuel fdt s =
     bind_res (fdt_scan fuel fdt
         \<lparr>cb_open = Some uart16550_open, cb_prop = uart16550_prop, cb_done = Some uart16550_done, cb_close = None\<rparr>
         (zero_dev_scan, s))
       (\<lambda>(_, s). Inr s)"

definition finisher_open :: "fdt_scan_node list \<Rightarrow> dev_scan scan_state \<Rightarrow> dev_scan scan_state res" where
  "finisher_open = dev_open"

definition finisher_prop :: "fdt_scan_prop \<Rightarrow> dev_scan scan_state \<Rightarrow> dev_scan scan_state res" where
  "finisher_prop = dev_prop ''sifive,test0''"

definition finisher_done :: "fdt_scan_node list \<Rightarrow> dev_scan scan_state \<Rightarrow> dev_scan scan_state res" where
  "finisher_done node st =
     (let scan = fst st; s = snd st
      in if \<not> d_compat scan \<or> d_reg scan = 0 \<or> finisher s \<noteq> 0 then Inr st
         else Inr (scan, s\<lparr>finisher := d_reg scan\<rparr>))"

definition query_finisher :: "nat \<Rightarrow> u64 \<Rightarrow> mstate \<Rightarrow> mstate res" where
  "query_finisher fuel fdt s =
     bind_res (fdt_scan fuel fdt
         \<lparr>cb_open = Some finisher_open, cb_prop = finisher_prop, cb_done = Some finisher_done, cb_close = None\<rparr>
         (zero_dev_scan, s))
       (\<lambda>(_, s). Inr s)"

definition htif_open :: "fdt_scan_node list \<Rightarrow> bool scan_state \<Rightarrow> bool scan_state res" where
  "htif_open node st = Inr (False, snd st)"

definition htif_prop :: "fdt_scan_prop \<Rightarrow> bool scan_state \<Rightarrow> bool scan_state res" where
  "htif_prop prop st =
     (if prop_is prop ''compatible'' st \<and> value_is prop ''ucb,htif0'' st then Inr (True, snd st) else Inr st)"

definition htif_done :: "fdt_scan_node list \<Rightarrow> bool scan_state \<Rightarrow> bool scan_state res" where
  "htif_done node st = (if \<not> fst st then Inr st else Inr (True, (snd st)\<lparr>htif := 1\<rparr>))"

definition query_htif :: "nat \<Rightarrow> u64 \<Rightarrow> mstate \<Rightarrow> mstate res" where
  "query_htif fuel fdt s =
     bind_res (fdt_scan fuel fdt
         \<lparr>cb_open = Some htif_open, cb_prop = htif_prop, cb_done = Some htif_done, cb_close = None\<rparr> (False, s))
       (\<lambda>(_, s). Inr s)"

section \<open>Printing the tree\<close>

definition FDT_PRINT_MAX_DEPTH :: nat where "FDT_PRINT_MAX_DEPTH = 32"

record fdt_print_info =
  pr_depth :: nat
  pr_stack :: "nat list"

fun print_indent :: "menv \<Rightarrow> nat \<Rightarrow> mstate \<Rightarrow> mstate res" where
  "print_indent env 0 s = Inr s"
| "print_indent env (Suc i) s = bind_res (printm env (lit ''  '') [] s) (print_indent env i)"

definition fdt_print_printm :: "menv \<Rightarrow> nat \<Rightarrow> u8 list \<Rightarrow> u64 list \<Rightarrow> mstate \<Rightarrow> mstate res" where
  "fdt_print_printm env d format va s = bind_res (print_indent env d s) (vprintm env format va)"

text \<open>Closes the braces down to the parent of the node.\<close>

fun print_close :: "menv \<Rightarrow> nat list \<Rightarrow> nat \<Rightarrow> nat \<Rightarrow> mstate \<Rightarrow> (nat \<times> mstate) res" where
  "print_close env stack parent 0 s = (if parent = 0 then Inr (0, s) else Inl BadAccess)"
| "print_close env stack parent (Suc d) s =
     (if parent \<noteq> 0 \<and> stack ! d \<noteq> parent then
        bind_res (fdt_print_printm env d (lit ''}'' @ crlf) [] s) (print_close env stack parent d)
      else Inr (Suc d, s))"

definition fdt_print_open :: "menv \<Rightarrow> fdt_scan_node list \<Rightarrow> fdt_print_info scan_state \<Rightarrow> fdt_print_info scan_state res" where
  "fdt_print_open env node st =
     (case node of
        [] \<Rightarrow> Inl BadAccess
      | n # parent \<Rightarrow>
          bind_res (print_close env (pr_stack (fst st)) (length parent) (pr_depth (fst st)) (snd st))
            (\<lambda>(d, s). bind_res (fdt_print_printm env d (lit ''%s {'' @ crlf) [n_name n] s)
               (\<lambda>s. if FDT_PRINT_MAX_DEPTH \<le> d then Inl BadAccess
                    else Inr (\<lparr>pr_depth = d + 1, pr_stack = (pr_stack (fst st))[d := length node]\<rparr>, s))))"

text \<open>The heuristic for values that are lists of strings.\<close>

definition asstring :: "mem \<Rightarrow> u64 \<Rightarrow> u32 \<Rightarrow> bool" where
  "asstring m p len \<longleftrightarrow>
     list_all (\<lambda>i. isstring (m (p + of_nat i)) \<and>
                   \<not> (0 < i \<and> m (p + of_nat i) = 0 \<and> m (p + of_nat i - 1) = 0)) [0..<nat (sint len)]"

function print_strings :: "menv \<Rightarrow> u64 \<Rightarrow> u64 \<Rightarrow> u64 \<Rightarrow> mstate \<Rightarrow> mstate res" where
  "print_strings env p len i s =
     (if i < len then
        bind_res (if i \<noteq> 0 then printm env (lit '', '') [] s else Inr s)
          (\<lambda>s. bind_res (printm env (lit ''\"%s\"'') [p + i] s)
             (\<lambda>s. bind_res (strlen (m_mem s) (p + i))
                (\<lambda>n. advance n i (\<lambda>i. advance 1 i (\<lambda>i. print_strings env p len i s)))))
      else Inr s)"
  by pat_completeness auto

termination print_strings
proof (relation "measure (\<lambda>(env, p, len, i, s). 2 ^ 64 - unat i)", goal_cases)
  case (2 env p len i s s1 s2 n)
  then have "unat (i + n + 1) = unat i + unat n + 1"
    using no_wrap_add [of i n] no_wrap_add [of "i + n" 1] by simp
  moreover have "unat (i + n + 1) < 2 ^ 64" using unsigned_less [of "i + n + 1", where 'a = nat] by simp
  ultimately show ?case by simp
qed simp

declare print_strings.simps [simp del]

fun print_words :: "menv \<Rightarrow> u64 \<Rightarrow> nat \<Rightarrow> nat \<Rightarrow> mstate \<Rightarrow> mstate res" where
  "print_words env p i 0 s = Inr s"
| "print_words env p i (Suc k) s =
     bind_res (if i \<noteq> 0 then printm env (lit '' '') [] s else Inr s)
       (\<lambda>s. bind_res (printm env (lit ''0x%08x'') [ucast (bswap (load32 (m_mem s) (p + 4 * of_nat i)))] s)
          (print_words env p (Suc i) k))"

definition fdt_print_prop :: "menv \<Rightarrow> fdt_scan_prop \<Rightarrow> fdt_print_info scan_state \<Rightarrow> fdt_print_info scan_state res" where
  "fdt_print_prop env prop st =
     bind_res (fdt_print_printm env (pr_depth (fst st)) (lit ''%s'') [p_name prop] (snd st))
       (\<lambda>s. bind_res
          (if p_len prop = 0 then printm env (lit '';'' @ crlf) [] s
           else bind_res (printm env (lit '' = '') [] s)
             (\<lambda>s. bind_res
                (if asstring (m_mem s) (p_value prop) (p_len prop)
                 then print_strings env (p_value prop) (scast (p_len prop)) 0 s
                 else bind_res (printm env (lit ''<'') [] s)
                        (\<lambda>s. bind_res (print_words env (p_value prop) 0 (unat (word_of_int (quot4 (sint (p_len prop))) :: u64)) s)
                           (printm env (lit ''>'') [])))
                (printm env (lit '';'' @ crlf) [])))
          (\<lambda>s. Inr (fst st, s)))"

definition fdt_print_done :: "fdt_scan_node list \<Rightarrow> fdt_print_info scan_state \<Rightarrow> fdt_print_info scan_state res" where
  "fdt_print_done node st = Inr st"

definition fdt_print_close :: "fdt_scan_node list \<Rightarrow> fdt_print_info scan_state \<Rightarrow> (bool \<times> fdt_print_info scan_state) res" where
  "fdt_print_close node st = Inr (False, st)"

fun print_finish :: "menv \<Rightarrow> nat \<Rightarrow> mstate \<Rightarrow> mstate res" where
  "print_finish env 0 s = Inr s"
| "print_finish env (Suc d) s = bind_res (fdt_print_printm env d (lit ''}'' @ crlf) [] s) (print_finish env d)"

definition fdt_print :: "menv \<Rightarrow> nat \<Rightarrow> u64 \<Rightarrow> mstate \<Rightarrow> mstate res" where
  "fdt_print env fuel fdt s =
     bind_res (fdt_scan fuel fdt
         \<lparr>cb_open = Some (fdt_print_open env), cb_prop = fdt_print_prop env, cb_done = Some fdt_print_done,
          cb_close = Some fdt_print_close\<rparr>
         (\<lparr>pr_depth = 0, pr_stack = replicate FDT_PRINT_MAX_DEPTH 0\<rparr>, s))
       (\<lambda>(info, s). print_finish env (pr_depth info) s)"

end
