(* ===== verification/Fdt_Tree.thy ===== *)
theory Fdt_Tree
  imports Fdt_Scans
begin

text \<open>
  The tree a blob stands for. A node of the device tree is a list of items (no-operations,
  properties, children); \<^verbatim>\<open>ser\<close> writes it as the tokens of the flattened format. The scanner on memory
  that holds the tokens does what the recursive walk of the tree does, so the scans can be
  understood without tokens, padding and positions.
\<close>

section \<open>Words in memory\<close>

lemma bit_bswap:
  assumes "n < 32"
  shows "bit (bswap x) n = bit x (24 + n mod 8 - 8 * (n div 8))"
proof -
  have "n \<in> {0, 1, 2, 3, 4, 5, 6, 7, 8, 9, 10, 11, 12, 13, 14, 15, 16, 17, 18, 19, 20, 21, 22, 23,
    24, 25, 26, 27, 28, 29, 30, 31}"
    using assms by (simp add: numeral_eq_Suc less_Suc_eq)
  then show ?thesis
    by (elim insertE emptyE) (simp_all add: bswap_def Let_def bit_simps)
qed

lemma bswap_bswap [simp]: "bswap (bswap x) = x"
proof (rule bit_word_eqI)
  fix n assume "n < LENGTH(32)"
  then have n: "n < 32" by simp
  define q where "q = n div 8"
  define r where "r = n mod 8"
  have nqr: "n = 8 * q + r" "r < 8" "q < 4" using n by (simp_all add: q_def r_def)
  let ?k = "24 + r - 8 * q"
  have k: "?k = 8 * (3 - q) + r" using nqr by linarith
  have "?k < 32" "?k div 8 = 3 - q" "?k mod 8 = r" using nqr by (simp_all add: k)
  moreover have "24 + r - 8 * (3 - q) = n" using nqr by simp
  ultimately show "bit (bswap (bswap x)) n = bit x n"
    using bit_bswap [OF n, of "bswap x"] bit_bswap [of ?k x] by (simp add: q_def [symmetric] r_def [symmetric])
qed

definition be32 :: "u32 \<Rightarrow> u8 list" where
  "be32 w = [ucast (drop_bit 24 w), ucast (drop_bit 16 w), ucast (drop_bit 8 w), ucast w]"

lemma length_be32 [simp]: "length (be32 w) = 4"
  by (simp add: be32_def)

lemma unat_offset: "unat p + n < 2 ^ 64 \<Longrightarrow> unat (p + of_nat n) = unat (p :: u64) + n"
  by (subst unat_add_no_wrap) (simp_all add: unat_of_nat)

text \<open>The bytes of a list lie in memory from an address on.\<close>

definition holds :: "mem \<Rightarrow> u64 \<Rightarrow> u8 list \<Rightarrow> bool" where
  "holds m p bs \<longleftrightarrow> (\<forall>i < length bs. m (p + of_nat i) = bs ! i)"

lemma holds_Nil [simp]: "holds m p []"
  by (simp add: holds_def)

lemma holds_append: "holds m p (as @ bs) \<longleftrightarrow> holds m p as \<and> holds m (p + of_nat (length as)) bs"
proof
  assume h: "holds m p (as @ bs)"
  have "m (p + of_nat i) = as ! i" if "i < length as" for i
    using h that by (auto simp: holds_def nth_append dest: spec [of _ i])
  moreover have "m (p + of_nat (length as) + of_nat i) = bs ! i" if "i < length bs" for i
    using h that by (auto simp: holds_def nth_append add.assoc dest: spec [of _ "length as + i"])
  ultimately show "holds m p as \<and> holds m (p + of_nat (length as)) bs" by (simp add: holds_def)
next
  assume h: "holds m p as \<and> holds m (p + of_nat (length as)) bs"
  show "holds m p (as @ bs)"
    unfolding holds_def
  proof (intro allI impI)
    fix i assume i: "i < length (as @ bs)"
    show "m (p + of_nat i) = (as @ bs) ! i"
    proof (cases "i < length as")
      case False
      then obtain j where "i = length as + j" using le_Suc_ex by (metis not_less)
      with h i show ?thesis by (simp add: holds_def nth_append add.assoc)
    qed (use h in \<open>simp add: holds_def nth_append\<close>)
  qed
qed

lemma holds_Cons: "holds m p (b # bs) \<longleftrightarrow> m p = b \<and> holds m (p + 1) bs"
  using holds_append [of m p "[b]" bs] by (simp add: holds_def)

lemma load32_holds:
  assumes "holds m p (be32 w)"
  shows "bswap (load32 m p) = w"
proof (rule bit_word_eqI)
  fix n assume "n < LENGTH(32)"
  then have n: "n < 32" by simp
  have m: "m p = ucast (drop_bit 24 w)" "m (p + 1) = ucast (drop_bit 16 w)" "m (p + 2) = ucast (drop_bit 8 w)"
    "m (p + 3) = ucast w"
    using assms by (simp_all add: holds_Cons be32_def add.assoc)
  have "n \<in> {0, 1, 2, 3, 4, 5, 6, 7, 8, 9, 10, 11, 12, 13, 14, 15, 16, 17, 18, 19, 20, 21, 22, 23,
    24, 25, 26, 27, 28, 29, 30, 31}"
    using n by (simp add: numeral_eq_Suc less_Suc_eq)
  then show "bit (bswap (load32 m p)) n = bit w n"
    using bit_bswap [OF n, of "load32 m p"]
    by (elim insertE emptyE) (simp_all add: load32_def bit_le_word m bit_simps)
qed

section \<open>Trees and their tokens\<close>

datatype ditem =
    DNop
  | DProp u32 "u8 list"
  | DNode "u8 list" "ditem list"

definition pad :: "nat \<Rightarrow> u8 list" where
  "pad n = replicate (3 - (n + 3) mod 4) 0"

lemma length_pad: "n + length (pad n) = (n + 3) div 4 * 4"
  using div_mult_mod_eq [of "n + 3" 4] mod_less_divisor [of 4 "n + 3"] unfolding pad_def length_replicate
  by linarith

fun ser :: "ditem \<Rightarrow> u8 list" where
  "ser DNop = be32 FDT_NOP"
| "ser (DProp off v) = be32 FDT_PROP @ be32 (of_nat (length v)) @ be32 off @ v @ pad (length v)"
| "ser (DNode nm its) =
     be32 FDT_BEGIN_NODE @ nm @ [0] @ pad (length nm + 1) @ concat (map ser its) @ be32 FDT_END_NODE"

definition sers :: "ditem list \<Rightarrow> u8 list" where
  "sers its = concat (map ser its)"

text \<open>The number of tokens bounds the fuel of the scanner.\<close>

fun tokens :: "ditem \<Rightarrow> nat" where
  "tokens DNop = 1"
| "tokens (DProp off v) = 1"
| "tokens (DNode nm its) = 2 + sum_list (map tokens its)"

lemma tokens_pos: "0 < tokens it"
  by (cases it) simp_all

text \<open>Names without zero bytes, values whose length is an \<^verbatim>\<open>int\<close>, properties before children.\<close>

fun is_node :: "ditem \<Rightarrow> bool" where
  "is_node (DNode nm its) = True"
| "is_node _ = False"

fun is_prop :: "ditem \<Rightarrow> bool" where
  "is_prop (DProp off v) = True"
| "is_prop _ = False"

fun ordered :: "bool \<Rightarrow> ditem list \<Rightarrow> bool" where
  "ordered d [] = True"
| "ordered d (it # its) = ((is_prop it \<longrightarrow> \<not> d) \<and> ordered (d \<or> is_node it) its)"

fun wf_item :: "ditem \<Rightarrow> bool" where
  "wf_item DNop = True"
| "wf_item (DProp off v) = (length v + 3 < 2 ^ 31)"
| "wf_item (DNode nm its) = (0 \<notin> set nm \<and> ordered False its \<and> list_all wf_item its)"

section \<open>The walk\<close>

text \<open>What the scanner does with the items of a node that start at \<^verbatim>\<open>pos\<close>.\<close>

function walk_items ::
  "'x fdt_cb \<Rightarrow> u64 \<Rightarrow> u64 \<Rightarrow> bool \<Rightarrow> fdt_scan_node list \<Rightarrow> fdt_scan_node \<Rightarrow> ditem list \<Rightarrow> 'x scan_state \<Rightarrow>
   ((bool \<times> fdt_scan_node list) \<times> 'x scan_state) res" where
  "walk_items cb strings pos d node child [] st = Inr ((d, node), st)"
| "walk_items cb strings pos d node child (DNop # its) st = walk_items cb strings (pos + 4) d node child its st"
| "walk_items cb strings pos d node child (DProp off v # its) st =
     (let m = m_mem (snd st); name = strings + ucast off;
          node = set_cells m name (bswap (load32 m (pos + 12))) node
      in bind_res (cb_prop cb \<lparr>p_node = node, p_name = name, p_value = pos + 12, p_len = of_nat (length v)\<rparr> st)
           (walk_items cb strings (pos + of_nat (length (ser (DProp off v)))) d node child its))"
| "walk_items cb strings pos d node child (DNode nm sub # its) st =
     bind_res (call_done d cb node st)
       (\<lambda>st. let child = child\<lparr>n_name := pos + 4\<rparr>; pos_next = pos + of_nat (length (ser (DNode nm sub)))
        in bind_res (call_open cb (child # node) st)
             (\<lambda>st. bind_res (walk_items cb strings (pos + of_nat (4 + length nm + 1 + length (pad (length nm + 1))))
                   False (child # node) fresh_child sub st)
                (\<lambda>((d', node'), st). bind_res (call_done d' cb node' st)
                   (\<lambda>st. bind_res (call_close cb node' st)
                      (\<lambda>(kill, st). bind_res (if kill then nop_fill pos pos_next (m_mem (snd st)) else Inr (m_mem (snd st)))
                         (\<lambda>m. walk_items cb strings pos_next True node (hd node') its
                            (fst st, (snd st)\<lparr>m_mem := m\<rparr>)))))))"
  by pat_completeness auto

termination walk_items
  by (relation "measure (\<lambda>(cb, strings, pos, d, node, child, its, st). size_list size its)") auto

section \<open>Frames\<close>

text \<open>Memory may differ in the \<^verbatim>\<open>n\<close> bytes from \<^verbatim>\<open>p\<close> on.\<close>

definition same_outside :: "u64 \<Rightarrow> nat \<Rightarrow> mem \<Rightarrow> mem \<Rightarrow> bool" where
  "same_outside p n m m' \<longleftrightarrow> (\<forall>a. n \<le> unat (a - p) \<longrightarrow> m' a = m a)"

lemma same_outside_refl [simp]: "same_outside p n m m"
  by (simp add: same_outside_def)

lemma same_outside_trans: "same_outside p n m m' \<Longrightarrow> same_outside p n m' m'' \<Longrightarrow> same_outside p n m m''"
  by (simp add: same_outside_def)

lemma same_outside_shift:
  assumes "same_outside (p + of_nat k) n m m'" and "k + n \<le> N" and "N \<le> 2 ^ 64"
  shows "same_outside p N m m'"
  unfolding same_outside_def
proof (intro allI impI)
  fix a assume a: "N \<le> unat (a - p)"
  show "m' a = m a"
  proof (cases "n = 0")
    case True
    then show ?thesis using assms(1) by (simp add: same_outside_def)
  next
    case False
    then have k: "k < 2 ^ 64" using assms by simp
    then have "unat (of_nat k :: u64) = k" by (simp add: unat_of_nat)
    then have "unat (a - p - of_nat k) = unat (a - p) - k"
      using a assms(2) by (subst unat_sub_no_wrap) (simp_all add: word_le_nat_alt)
    then have "n \<le> unat (a - (p + of_nat k))" using a assms(2) by (simp add: diff_diff_eq)
    with assms(1) show ?thesis by (simp add: same_outside_def)
  qed
qed

lemma holds_outside:
  assumes "same_outside p n m m'" and "holds m (p + of_nat n) bs" and "n + length bs \<le> 2 ^ 64"
  shows "holds m' (p + of_nat n) bs"
  unfolding holds_def
proof (intro allI impI)
  fix i assume i: "i < length bs"
  have "unat (p + of_nat n + of_nat i - p) = n + i"
    using i assms(3) by (simp add: unat_of_nat flip: of_nat_add)
  then have "m' (p + of_nat n + of_nat i) = m (p + of_nat n + of_nat i)"
    using assms(1) by (simp add: same_outside_def)
  with assms(2) i show "m' (p + of_nat n + of_nat i) = bs ! i" by (simp add: holds_def)
qed

lemma nop_fill_outside: "nop_fill pos (pos + of_nat n) m = Inr m' \<Longrightarrow> n < 2 ^ 64 \<Longrightarrow> same_outside pos n m m'"
  by (auto simp: nop_fill_def same_outside_def word_less_nat_alt unat_of_nat split: if_splits)

lemma holds_string:
  assumes "holds m p (nm @ [0])" and "0 \<notin> set nm" and "unat p + length nm < 2 ^ 64"
  shows "string_at m p (length nm)"
proof -
  have "nm ! i \<noteq> 0" if "i < length nm" for i using that assms(2) nth_mem by metis
  with assms show ?thesis by (auto simp: string_at_def holds_def nth_append less_Suc_eq)
qed

section \<open>One step of the scanner\<close>

lemma helper_prop:
  assumes h: "holds (m_mem (snd st)) pos (ser (DProp off v))" and v: "length v + 3 < 2 ^ 31"
  defines "m \<equiv> m_mem (snd st)"
  shows "fdt_scan_helper (Suc k) cb strings pos False node child st =
    (let name = strings + ucast off; node = set_cells m name (bswap (load32 m (pos + 12))) node
     in bind_res (cb_prop cb \<lparr>p_node = node, p_name = name, p_value = pos + 12, p_len = of_nat (length v)\<rparr> st)
          (fdt_scan_helper k cb strings (pos + of_nat (length (ser (DProp off v)))) False node child))"
proof -
  let ?l = "length v"
  have w: "bswap (load32 m pos) = FDT_PROP" "bswap (load32 m (pos + 4)) = of_nat ?l" "bswap (load32 m (pos + 8)) = off"
    using h by (simp_all add: holds_append load32_holds m_def add.assoc)
  have "unat (of_nat ?l :: u32) = ?l" using v by (simp add: unat_of_nat)
  then have s: "sint (of_nat ?l :: u32) = int ?l" using v by (subst sint_small) simp_all
  have "4 * (3 + quot4 (int ?l + 3)) = int (12 + (?l + 3) div 4 * 4)"
    by (simp add: quot4_def zdiv_int)
  also have "12 + (?l + 3) div 4 * 4 = length (ser (DProp off v))" using length_pad [of ?l] by simp
  finally have next': "word_of_int (4 * (3 + quot4 (int ?l + 3))) = (of_nat (length (ser (DProp off v))) :: u64)"
    by (simp only: of_int_of_nat_eq)
  have "\<not> 2 ^ 31 \<le> int ?l + 3" using v by simp
  then show ?thesis
    by (simp only: fdt_scan_helper.simps Let_def m_def [symmetric] w s next')
      (simp add: FDT_PROP_def FDT_NOP_def)
qed

lemma node_parts:
  fixes pos nm sub
  defines "h \<equiv> 4 + length nm + 1 + length (pad (length nm + 1))"
  assumes hd: "holds m pos (ser (DNode nm sub))" and room: "unat pos + length (ser (DNode nm sub)) < 2 ^ 64"
  shows "holds m (pos + of_nat h) (sers sub @ be32 FDT_END_NODE)"
    and "unat (pos + of_nat h) + length (sers sub) + 4 < 2 ^ 64"
    and "pos + of_nat h + of_nat (length (sers sub)) + 4 = pos + of_nat (length (ser (DNode nm sub)))"
proof -
  have n: "length (ser (DNode nm sub)) = h + length (sers sub) + 4" by (simp add: sers_def h_def)
  show "holds m (pos + of_nat h) (sers sub @ be32 FDT_END_NODE)"
    using hd by (simp add: holds_append holds_Cons sers_def add.assoc h_def)
  have "unat (pos + of_nat h) = unat pos + h"
    using room n by (subst unat_add_no_wrap) (simp_all add: unat_of_nat del: ser.simps)
  then show "unat (pos + of_nat h) + length (sers sub) + 4 < 2 ^ 64" using room n by simp
  show "pos + of_nat h + of_nat (length (sers sub)) + 4 = pos + of_nat (length (ser (DNode nm sub)))"
    by (simp only: n) simp
qed

section \<open>Scans that only read the tree\<close>

text \<open>The contract of a set of callbacks: none of them changes memory.\<close>

locale tree_reader =
  fixes cb :: "'x fdt_cb"
  assumes open_reads: "\<And>f node st st'. cb_open cb = Some f \<Longrightarrow> f node st = Inr st' \<Longrightarrow> m_mem (snd st') = m_mem (snd st)"
    and prop_reads: "\<And>prop st st'. cb_prop cb prop st = Inr st' \<Longrightarrow> m_mem (snd st') = m_mem (snd st)"
    and done_reads: "\<And>f node st st'. cb_done cb = Some f \<Longrightarrow> f node st = Inr st' \<Longrightarrow> m_mem (snd st') = m_mem (snd st)"
    and close_reads: "\<And>f node st b st'. cb_close cb = Some f \<Longrightarrow> f node st = Inr (b, st') \<Longrightarrow> m_mem (snd st') = m_mem (snd st)"
begin

lemma call_reads:
  "call_open cb node st = Inr st' \<Longrightarrow> m_mem (snd st') = m_mem (snd st)"
  "call_done d cb node st = Inr st' \<Longrightarrow> m_mem (snd st') = m_mem (snd st)"
  "call_close cb node st = Inr (b, st') \<Longrightarrow> m_mem (snd st') = m_mem (snd st)"
  by (auto simp: call_open_def call_done_def call_close_def
      split: option.splits if_splits dest: open_reads done_reads close_reads)

text \<open>One child: memory changes inside its tokens at most.\<close>

lemma node_outside:
  fixes nm sub pos
  defines "n \<equiv> length (ser (DNode nm sub))" and "h \<equiv> 4 + length nm + 1 + length (pad (length nm + 1))"
  assumes c: "call_done d cb node st = Inr st1" "call_open cb node1 st1 = Inr st2"
    and sub: "same_outside (pos + of_nat h) (length (sers sub)) (m_mem (snd st2)) (m_mem (snd st3))"
    and c': "call_done d' cb node' st3 = Inr st4" "call_close cb node' st4 = Inr (b, st5)"
    and m: "(if b then nop_fill pos (pos + of_nat n) (m_mem (snd st5)) else Inr (m_mem (snd st5))) = Inr m"
    and n: "n < 2 ^ 64"
  shows "same_outside pos n (m_mem (snd st)) m"
proof -
  have mem: "m_mem (snd st2) = m_mem (snd st)" "m_mem (snd st5) = m_mem (snd st3)"
    using call_reads(2) [OF c(1)] call_reads(1) [OF c(2)] call_reads(2) [OF c'(1)] call_reads(3) [OF c'(2)]
    by simp_all
  have "h + length (sers sub) \<le> n" by (simp add: n_def h_def sers_def)
  then have "same_outside pos n (m_mem (snd st)) (m_mem (snd st5))"
    using same_outside_shift [OF sub] n by (simp add: mem)
  moreover have "same_outside pos n (m_mem (snd st5)) m"
    using m n nop_fill_outside [of pos n "m_mem (snd st5)" m] by (auto split: if_splits)
  ultimately show ?thesis by (rule same_outside_trans)
qed

lemma walk_outside:
  "walk_items cb strings pos d node child its st = Inr (r, st') \<Longrightarrow> length (sers its) < 2 ^ 64 \<Longrightarrow>
   same_outside pos (length (sers its)) (m_mem (snd st)) (m_mem (snd st'))"
proof (induction its arbitrary: pos d node child st r st' rule: measure_induct_rule [where f = "size_list size"])
  case (less its)
  note shift = same_outside_shift [where p = pos]
  show ?case
  proof (cases its)
    case Nil
    then show ?thesis using less.prems by (simp add: sers_def)
  next
    case (Cons it rest)
    let ?n = "length (ser it)"
    have len: "length (sers its) = ?n + length (sers rest)" by (simp add: Cons sers_def)
    have step: "same_outside pos (length (sers its)) m (m_mem (snd st'))"
      if "walk_items cb strings (pos + of_nat ?n) d' node' child' rest st1 = Inr (r, st')"
        and "same_outside pos ?n m (m_mem (snd st1))" for d' node' child' st1 m
    proof -
      have "same_outside (pos + of_nat ?n) (length (sers rest)) (m_mem (snd st1)) (m_mem (snd st'))"
        using less.IH [OF _ that(1)] less.prems(2) len by (simp add: Cons)
      then have "same_outside pos (length (sers its)) (m_mem (snd st1)) (m_mem (snd st'))"
        using shift [of ?n "length (sers rest)"] len less.prems(2) by simp
      moreover have "same_outside pos (length (sers its)) m (m_mem (snd st1))"
        using shift [of 0 ?n m "m_mem (snd st1)"] that(2) len less.prems(2) by simp
      ultimately show ?thesis by (rule same_outside_trans [rotated])
    qed
    show ?thesis
    proof (cases it)
      case DNop
      then show ?thesis using step [of d node child st] less.prems(1) by (simp add: Cons)
    next
      case (DProp off v)
      from less.prems(1) obtain pr st1 node'
        where p: "cb_prop cb pr st = Inr st1" and rest: "walk_items cb strings (pos + of_nat ?n) d node' child rest st1 = Inr (r, st')"
        unfolding Cons DProp walk_items.simps Let_def bind_res_eq_Inr by blast
      from step [OF rest, of "m_mem (snd st)"] prop_reads [OF p] show ?thesis by simp
    next
      case (DNode nm sub)
      let ?h = "4 + length nm + 1 + length (pad (length nm + 1))"
      from less.prems(1) obtain st1 st2 d' node' st3 st4 b st5 m
        where c: "call_done d cb node st = Inr st1"
        "call_open cb (child\<lparr>n_name := pos + 4\<rparr> # node) st1 = Inr st2"
        and sub: "walk_items cb strings (pos + of_nat ?h) False (child\<lparr>n_name := pos + 4\<rparr> # node) fresh_child sub st2 = Inr ((d', node'), st3)"
        and c': "call_done d' cb node' st3 = Inr st4" "call_close cb node' st4 = Inr (b, st5)"
        and m: "(if b then nop_fill pos (pos + of_nat ?n) (m_mem (snd st5)) else Inr (m_mem (snd st5))) = Inr m"
        and rest: "walk_items cb strings (pos + of_nat ?n) True node (hd node') rest (fst st5, (snd st5)\<lparr>m_mem := m\<rparr>) = Inr (r, st')"
        unfolding Cons DNode walk_items.simps Let_def by (auto simp: bind_res_eq_Inr)
      have n: "length (sers sub) < 2 ^ 64" "?n < 2 ^ 64" using len less.prems(2) by (simp_all add: DNode sers_def)
      have "same_outside (pos + of_nat ?h) (length (sers sub)) (m_mem (snd st2)) (m_mem (snd st3))"
        using less.IH [OF _ sub] n by (simp add: Cons DNode)
      from node_outside [OF c this c' m [unfolded DNode] n(2) [unfolded DNode]]
      have "same_outside pos ?n (m_mem (snd st)) m" unfolding DNode .
      then show ?thesis using step [OF rest] by simp
    qed
  qed
qed

lemma helper_node:
  fixes pos nm sub child
  defines "h \<equiv> 4 + length nm + 1 + length (pad (length nm + 1))" and "child1 \<equiv> child\<lparr>n_name := pos + 4\<rparr>"
  assumes hd: "holds (m_mem (snd st)) pos (ser (DNode nm sub))" and nm: "0 \<notin> set nm"
    and room: "unat pos + length (ser (DNode nm sub)) < 2 ^ 64"
  shows "fdt_scan_helper (Suc k) cb strings pos d node child st =
    bind_res (call_done d cb node st)
      (\<lambda>st. bind_res (call_open cb (child1 # node) st)
         (\<lambda>st. bind_res (fdt_scan_helper k cb strings (pos + of_nat h) False (child1 # node) fresh_child st)
            (\<lambda>((pos_next, node'), st). bind_res (call_close cb node' st)
               (\<lambda>(kill, st). bind_res (if kill then nop_fill pos pos_next (m_mem (snd st)) else Inr (m_mem (snd st)))
                  (\<lambda>m. fdt_scan_helper k cb strings pos_next True node (hd node') (fst st, (snd st)\<lparr>m_mem := m\<rparr>))))))"
proof -
  let ?l = "length nm"
  have w: "bswap (load32 (m_mem (snd st)) pos) = FDT_BEGIN_NODE" using hd by (simp add: holds_append load32_holds)
  have p4: "unat (pos + 4) = unat pos + 4" using room by (subst unat_add_no_wrap) simp_all
  have "holds (m_mem (snd st)) (pos + 4) (nm @ [0])"
    using hd by (simp add: holds_append holds_Cons add.assoc)
  then have "string_at (m_mem (snd st)) (pos + 4) ?l"
    by (rule holds_string [OF _ nm]) (use room p4 in simp)
  then have len: "strlen (m_mem (snd st)) (pos + 4) = Inr (of_nat ?l)" by (rule strlen_run)
  have "of_nat ?l div (4 :: u64) = of_nat (?l div 4)"
    using room by (simp add: word_unat_eq_iff unat_div unat_of_nat)
  then have "4 * (2 + of_nat ?l div 4) = (of_nat (8 + ?l div 4 * 4) :: u64)" by simp
  also have "8 + ?l div 4 * 4 = h"
  proof -
    have "(?l + 1 + 3) div 4 = ?l div 4 + 1" by simp
    then show ?thesis using length_pad [of "?l + 1"] unfolding h_def by linarith
  qed
  finally have next': "8 + 4 * (of_nat ?l div 4) = (of_nat h :: u64)" by simp
  have mem: "strlen (m_mem (snd st2)) (pos + 4) = Inr (of_nat ?l)"
    if "call_done d cb node st = Inr st1" and "call_open cb (child1 # node) st1 = Inr st2" for st1 st2
    using call_reads(2) [OF that(1)] call_reads(1) [OF that(2)] len by simp
  show ?thesis
    unfolding fdt_scan_helper.simps Let_def w child1_def [symmetric]
    by (simp add: FDT_BEGIN_NODE_def FDT_NOP_def FDT_PROP_def, rule bind_res_cong [OF refl], rule bind_res_cong [OF refl])
      (simp add: mem next' child1_def)
qed

text \<open>A property and a child, given that the scanner follows the walk on what comes after.\<close>

lemma helper_walk_prop:
  fixes pos off v
  defines "n \<equiv> length (ser (DProp off v))"
  assumes hd: "holds (m_mem (snd st)) pos (ser (DProp off v))" and v: "length v + 3 < 2 ^ 31"
    and rest: "\<And>node' st'. m_mem (snd st') = m_mem (snd st) \<Longrightarrow>
      fdt_scan_helper k cb strings (pos + of_nat n) False node' child st' =
      bind_res (walk_items cb strings (pos + of_nat n) False node' child its st') fin"
  shows "fdt_scan_helper (Suc k) cb strings pos False node child st =
    bind_res (walk_items cb strings pos False node child (DProp off v # its) st) fin"
  unfolding walk_items.simps helper_prop [OF hd v] bind_res_assoc Let_def n_def [symmetric]
  by (rule bind_res_cong [OF refl]) (rule rest, rule prop_reads)

lemma helper_walk_node:
  fixes pos nm sub child
  defines "n \<equiv> length (ser (DNode nm sub))" and "h \<equiv> 4 + length nm + 1 + length (pad (length nm + 1))"
    and "c \<equiv> child\<lparr>n_name := pos + 4\<rparr>"
  assumes hd: "holds (m_mem (snd st)) pos (ser (DNode nm sub))" and nm: "0 \<notin> set nm"
    and room: "unat pos + length (ser (DNode nm sub)) < 2 ^ 64"
    and sub: "\<And>st2. m_mem (snd st2) = m_mem (snd st) \<Longrightarrow>
      fdt_scan_helper k cb strings (pos + of_nat h) False (c # node) fresh_child st2 =
      bind_res (walk_items cb strings (pos + of_nat h) False (c # node) fresh_child sub st2)
        (\<lambda>((d', node'), st). bind_res (call_done d' cb node' st) (\<lambda>st. Inr ((pos + of_nat n, node'), st)))"
    and rest: "\<And>child' st'. same_outside pos n (m_mem (snd st)) (m_mem (snd st')) \<Longrightarrow>
      fdt_scan_helper k cb strings (pos + of_nat n) True node child' st' =
      bind_res (walk_items cb strings (pos + of_nat n) True node child' its st') fin"
  shows "fdt_scan_helper (Suc k) cb strings pos d node child st =
    bind_res (walk_items cb strings pos d node child (DNode nm sub # its) st) fin"
  unfolding walk_items.simps helper_node [OF hd nm room] bind_res_assoc Let_def n_def [symmetric] h_def [symmetric]
    c_def [symmetric]
proof (rule bind_res_cong [OF refl], rule bind_res_cong [OF refl], goal_cases)
  case c12: (1 st1 st2)
  have mem2: "m_mem (snd st2) = m_mem (snd st)" using call_reads(2) [OF c12(1)] call_reads(1) [OF c12(2)] by simp
  have sz: "length (sers sub) < 2 ^ 64" "n < 2 ^ 64" using room by (simp_all add: sers_def n_def)
  show ?case
    unfolding sub [OF mem2] bind_res_assoc
  proof (rule bind_res_cong [OF refl], goal_cases)
    case (1 w)
    obtain d' node' st3 where w: "w = ((d', node'), st3)" by (metis surj_pair)
    note sub' = walk_outside [OF 1 [unfolded w] sz(1)]
    show ?case
      unfolding w prod.case bind_res_assoc bind_res_Inr
    proof (rule bind_res_cong [OF refl], rule bind_res_cong [OF refl], goal_cases)
      case c45: (1 st4 r)
      obtain b st5 where r: "r = (b, st5)" by (metis surj_pair)
      show ?case
        unfolding r prod.case bind_res_assoc
      proof (rule bind_res_cong [OF refl], goal_cases)
        case (1 m)
        have "same_outside pos n (m_mem (snd st)) m"
          using node_outside [OF c12 sub' [unfolded h_def] c45(1) c45(2) [unfolded r], folded n_def] 1 sz(2) by simp
        then show ?case by (intro rest) simp
      qed
    qed
  qed
qed

lemma scan_walk:
  assumes "list_all wf_item its" and "ordered d its" and "holds (m_mem (snd st)) pos (sers its @ be32 t)"
    and "t \<noteq> FDT_NOP" "t \<noteq> FDT_PROP" "t \<noteq> FDT_BEGIN_NODE"
    and "unat pos + length (sers its) + 4 < 2 ^ 64" and "sum_list (map tokens its) < k"
  shows "fdt_scan_helper k cb strings pos d node child st =
    bind_res (walk_items cb strings pos d node child its st)
      (\<lambda>((d', node'), st). bind_res (call_done d' cb node' st)
         (\<lambda>st. Inr ((pos + of_nat (length (sers its)) + (if t = FDT_END_NODE then 4 else 0), node'), st)))"
  using assms
proof (induction its arbitrary: pos d node child st t k rule: measure_induct_rule [where f = "size_list size"])
  case (less its)
  obtain k' where k: "k = Suc k'" using less.prems(8) by (cases k) auto
  let ?m = "m_mem (snd st)"
  show ?case
  proof (cases its)
    case Nil
    then have "bswap (load32 ?m pos) = t" using less.prems(3) by (simp add: sers_def load32_holds)
    then show ?thesis using less.prems by (simp add: Nil k sers_def Let_def)
  next
    case (Cons it rest)
    let ?n = "length (ser it)"
    have len: "length (sers its) = ?n + length (sers rest)" and s: "sers its = ser it @ sers rest"
      by (simp_all add: Cons sers_def)
    have holds: "holds ?m pos (ser it)" "holds ?m (pos + of_nat ?n) (sers rest @ be32 t)"
      using less.prems(3) by (simp_all add: s holds_append)
    have npos: "unat (pos + of_nat ?n) = unat pos + ?n"
      using less.prems(7) len by (subst unat_add_no_wrap) (simp_all add: unat_of_nat)
    have rest: "fdt_scan_helper k' cb strings (pos + of_nat ?n) d' node' child' st' =
        bind_res (walk_items cb strings (pos + of_nat ?n) d' node' child' rest st')
          (\<lambda>((d', node'), st). bind_res (call_done d' cb node' st)
             (\<lambda>st. Inr ((pos + of_nat (length (sers its)) + (if t = FDT_END_NODE then 4 else 0), node'), st)))"
      if "d' = (d \<or> is_node it)" and "same_outside pos ?n ?m (m_mem (snd st'))" for d' node' child' st'
    proof -
      have "holds (m_mem (snd st')) (pos + of_nat ?n) (sers rest @ be32 t)"
        using holds_outside [OF that(2) holds(2)] less.prems(7) len by simp
      moreover have "size_list size rest < size_list size its" "list_all wf_item rest" "ordered d' rest"
        "unat (pos + of_nat ?n) + length (sers rest) + 4 < 2 ^ 64" "sum_list (map tokens rest) < k'"
        using less.prems that(1) len npos tokens_pos [of it] by (simp_all add: Cons k)
      moreover have eq: "pos + of_nat (length (sers its)) = pos + of_nat ?n + of_nat (length (sers rest))"
        by (simp add: len)
      ultimately show ?thesis unfolding eq using less.prems(4,5,6) by (intro less.IH)
    qed
    show ?thesis
    proof (cases it)
      case DNop
      then have "bswap (load32 ?m pos) = FDT_NOP" using holds(1) by (simp add: load32_holds)
      then show ?thesis using rest [of d st] by (simp add: k Cons DNop Let_def)
    next
      case (DProp off v)
      have d: "d = False" and v: "length v + 3 < 2 ^ 31" using less.prems(1,2) by (simp_all add: Cons DProp)
      show ?thesis
        unfolding k Cons DProp d
        by (rule helper_walk_prop [OF holds(1) [unfolded DProp] v])
          (use rest [of False] in \<open>simp add: Cons DProp d del: ser.simps\<close>)
    next
      case (DNode nm sub)
      have nm: "0 \<notin> set nm" "ordered False sub" "list_all wf_item sub"
        and room: "unat pos + length (ser (DNode nm sub)) < 2 ^ 64"
        using less.prems(1,7) len by (simp_all add: Cons DNode)
      have fuel: "size_list size sub < size_list size its" "sum_list (map tokens sub) < k'"
        using less.prems(8) by (simp_all add: Cons DNode k)
      show ?thesis
        unfolding k Cons DNode
      proof (rule helper_walk_node [OF holds(1) [unfolded DNode] nm(1) room])
        note parts = node_parts [OF holds(1) [unfolded DNode] room]
        fix st2 :: "'x scan_state" assume m: "m_mem (snd st2) = ?m"
        from less.IH [OF fuel(1) nm(3,2) parts(1) [folded m] _ _ _ parts(2) fuel(2),
            of "child\<lparr>n_name := pos + 4\<rparr> # node" fresh_child]
        show "fdt_scan_helper k' cb strings (pos + of_nat (4 + length nm + 1 + length (pad (length nm + 1)))) False
            (child\<lparr>n_name := pos + 4\<rparr> # node) fresh_child st2 =
          bind_res (walk_items cb strings (pos + of_nat (4 + length nm + 1 + length (pad (length nm + 1)))) False
              (child\<lparr>n_name := pos + 4\<rparr> # node) fresh_child sub st2)
            (\<lambda>((d', node'), st). bind_res (call_done d' cb node' st)
               (\<lambda>st. Inr ((pos + of_nat (length (ser (DNode nm sub))), node'), st)))"
          unfolding parts(3) [symmetric]
          by (simp add: FDT_END_NODE_def FDT_NOP_def FDT_PROP_def FDT_BEGIN_NODE_def)
      qed (use rest [of True] in \<open>simp add: Cons DNode del: ser.simps\<close>)
    qed
  qed
qed

end

end
