(* ===== verification/Fdt_Filter.thy ===== *)
theory Fdt_Filter
  imports Fdt_Tree
begin

text \<open>
  \<^verbatim>\<open>filter_compat\<close> on a tree: it replaces the tokens of exactly the nodes whose \<^verbatim>\<open>compatible\<close> property
  lists the given string by no-operations, so that a later scan sees the tree without them.
\<close>

section \<open>Lists of strings\<close>

text \<open>The string \<^verbatim>\<open>c\<close> is one of the zero-terminated strings of \<^verbatim>\<open>v\<close>.\<close>

function has_string :: "u8 list \<Rightarrow> u8 list \<Rightarrow> bool" where
  "has_string c v =
     (if v = [] then False
      else takeWhile (\<lambda>b. b \<noteq> 0) v = c \<or> has_string c (tl (dropWhile (\<lambda>b. b \<noteq> 0) v)))"
  by pat_completeness auto

termination has_string
proof (relation "measure (\<lambda>(c, v). length v)", goal_cases)
  case (2 c v)
  then have "v \<noteq> []" by simp
  then show ?case using length_dropWhile_le [of "\<lambda>b. b \<noteq> 0" v] by (cases v) (auto split: if_splits)
qed simp

declare has_string.simps [simp del]

definition terminated :: "u8 list \<Rightarrow> bool" where
  "terminated v \<longleftrightarrow> v = [] \<or> last v = 0"

lemma str_is_holds: "0 \<notin> set nm \<Longrightarrow> holds m p (nm @ [0]) \<Longrightarrow> 0 \<notin> set c \<Longrightarrow> str_is m p c \<longleftrightarrow> nm = c"
proof (induction c arbitrary: nm p)
  case Nil
  then show ?case by (cases nm) (auto simp: holds_Cons)
next
  case (Cons a c)
  then show ?case by (cases nm) (auto simp: holds_Cons)
qed

lemma terminated_split:
  assumes "terminated v" and "v \<noteq> []"
  obtains nm rest where "v = nm @ [0] @ rest" and "0 \<notin> set nm" and "terminated rest"
    and "takeWhile (\<lambda>b. b \<noteq> 0) v = nm" and "tl (dropWhile (\<lambda>b. b \<noteq> 0) v) = rest"
proof -
  let ?nm = "takeWhile (\<lambda>b. b \<noteq> 0) v" and ?r = "dropWhile (\<lambda>b. b \<noteq> 0) v"
  have z: "0 \<in> set v" using assms last_in_set [of v] by (simp add: terminated_def)
  then have ne: "?r \<noteq> []" by (metis (mono_tags, lifting) dropWhile_eq_Nil_conv)
  then have hd: "hd ?r = 0" using hd_dropWhile [of "\<lambda>b. b \<noteq> 0" v] by auto
  have v: "v = ?nm @ [0] @ tl ?r" using takeWhile_dropWhile_id [of "\<lambda>b. b \<noteq> 0" v] ne hd by (cases ?r) auto
  have "terminated (tl ?r)"
  proof (cases "tl ?r = []")
    case False
    then have "last v = last (tl ?r)" by (subst v) simp
    then show ?thesis using assms by (simp add: terminated_def)
  qed (simp add: terminated_def)
  moreover have "0 \<notin> set ?nm" by (auto dest: set_takeWhileD)
  ultimately show ?thesis using that v by blast
qed

lemma list_index_has:
  assumes "terminated v" and "holds m p v" and "0 \<notin> set c" and "unat p + length v < 2 ^ 64"
    and "length v < 2 ^ 31" and "unat i + length v < 2 ^ 31" and "e = p + of_nat (length v)"
  shows "\<exists>r. list_index m p e c i = Inr r \<and> (0 \<le> sint r \<longleftrightarrow> has_string c v)"
  using assms
proof (induction v arbitrary: p i rule: measure_induct_rule [where f = length])
  case (less v)
  have l: "unat (of_nat (length v) :: u64) = length v" using less.prems(5) by (simp add: unat_of_nat)
  have s: "sint (e - p) = int (length v)"
    using less.prems(5,7) l by (simp add: sint_small)
  show ?case
  proof (cases "v = []")
    case True
    then show ?thesis using s by (simp add: list_index.simps has_string.simps)
  next
    case False
    obtain nm rest where v: "v = nm @ [0] @ rest" "0 \<notin> set nm" "terminated rest"
      "takeWhile (\<lambda>b. b \<noteq> 0) v = nm" "tl (dropWhile (\<lambda>b. b \<noteq> 0) v) = rest"
      by (rule terminated_split [OF less.prems(1) False])
    have len: "length v = length nm + 1 + length rest" by (subst v(1)) simp
    have "holds m p (nm @ [0] @ rest)" using less.prems(2) v(1) by metis
    then have h: "holds m p (nm @ [0])" "holds m (p + of_nat (length nm + 1)) rest"
      by (simp_all add: holds_append holds_Cons ac_simps)
    have pos: "0 < sint (e - p)" using s False by simp
    show ?thesis
    proof (cases "nm = c")
      case True
      then have "list_index m p e c i = Inr i"
        using pos str_is_holds [OF v(2) h(1) less.prems(3)] by (subst list_index.simps) simp
      moreover have "0 \<le> sint i" using less.prems(6) by (subst sint_small) simp_all
      ultimately show ?thesis using True False v(4) by (subst has_string.simps) simp
    next
      case nm: False
      let ?p = "p + of_nat (length nm + 1)"
      have "string_at m p (length nm)" by (rule holds_string [OF h(1) v(2)]) (use less.prems(4) len in simp)
      then have "strlen m p = Inr (of_nat (length nm))" by (rule strlen_run)
      moreover have u: "unat (p + of_nat (length nm)) = unat p + length nm"
        using unat_offset less.prems(4) len by simp
      moreover have "unat (of_nat (length nm) :: u64) = length nm" using less.prems(4) len by (simp add: unat_of_nat)
      ultimately have eq: "list_index m p e c i = list_index m ?p e c (i + 1)"
        using pos nm str_is_holds [OF v(2) h(1) less.prems(3)] less.prems(4) len
        by (subst list_index.simps) (simp add: advance_ok ac_simps)
      have p': "unat ?p = unat p + length nm + 1"
        using unat_offset [of p "length nm + 1"] less.prems(4) len by simp
      have i': "unat (i + 1) = unat i + 1" using less.prems(6) by (subst unat_add_no_wrap) simp_all
      have "e = ?p + of_nat (length rest)" using less.prems(7) len by simp
      then obtain r where "list_index m ?p e c (i + 1) = Inr r" "0 \<le> sint r \<longleftrightarrow> has_string c rest"
        using less.IH [of rest ?p "i + 1"] v(3) h(2) less.prems(3,4,5,6) len p' i' by auto
      then show ?thesis using nm False v(4,5) by (subst has_string.simps) (simp add: eq)
    qed
  qed
qed

section \<open>The nodes to remove\<close>

text \<open>
  \<^verbatim>\<open>names\<close> says which offsets of the strings block spell \<^verbatim>\<open>compatible\<close>. A node is removed when one
  of its properties has such a name and lists the string.
\<close>

fun compat_item :: "(u32 \<Rightarrow> bool) \<Rightarrow> u8 list \<Rightarrow> ditem \<Rightarrow> bool" where
  "compat_item names c (DProp off v) = (names off \<and> has_string c v)"
| "compat_item names c _ = False"

definition has_compat :: "(u32 \<Rightarrow> bool) \<Rightarrow> u8 list \<Rightarrow> ditem list \<Rightarrow> bool" where
  "has_compat names c its \<longleftrightarrow> list_ex (compat_item names c) its"

fun prune :: "(u32 \<Rightarrow> bool) \<Rightarrow> u8 list \<Rightarrow> ditem \<Rightarrow> ditem list" where
  "prune names c DNop = [DNop]"
| "prune names c (DProp off v) = [DProp off v]"
| "prune names c (DNode nm its) =
     (if has_compat names c its then replicate (length (ser (DNode nm its)) div 4) DNop
      else [DNode nm (concat (map (prune names c) its))])"

definition prunes :: "(u32 \<Rightarrow> bool) \<Rightarrow> u8 list \<Rightarrow> ditem list \<Rightarrow> ditem list" where
  "prunes names c its = concat (map (prune names c) its)"

fun height :: "ditem \<Rightarrow> nat" where
  "height (DNode nm its) = Suc (fold max (map height its) 0)"
| "height _ = 0"

text \<open>Compatible lists end with a zero byte.\<close>

fun lists_ok :: "(u32 \<Rightarrow> bool) \<Rightarrow> ditem \<Rightarrow> bool" where
  "lists_ok names DNop = True"
| "lists_ok names (DProp off v) = (names off \<longrightarrow> terminated v)"
| "lists_ok names (DNode nm its) = list_all (lists_ok names) its"

lemma length_ser_dvd: "4 dvd length (ser it)"
proof (induction it rule: ser.induct)
  case (2 off v)
  then show ?case using length_pad [of "length v"] by simp
next
  case (3 nm its)
  then have "4 dvd length (concat (map ser its))"
    by (induction its) auto
  then show ?case using length_pad [of "length nm + 1"] by simp presburger
qed simp

lemma length_sers_replicate: "length (sers (replicate k DNop)) = 4 * k"
  by (induction k) (simp_all add: sers_def)

lemma length_sers_prune: "length (sers (prune names c it)) = length (ser it)"
proof (induction it rule: ser.induct)
  case (3 nm its)
  have "length (sers (concat (map (prune names c) its))) = length (sers its)"
    using 3 by (induction its) (auto simp: sers_def)
  then show ?case
    using length_ser_dvd [of "DNode nm its"] length_sers_replicate by (auto simp: sers_def)
qed (simp_all add: sers_def)

lemma sers_append: "sers (as @ bs) = sers as @ sers bs"
  by (simp add: sers_def)

lemma length_sers_prunes: "length (sers (prunes names c its)) = length (sers its)"
  by (induction its) (simp_all add: prunes_def sers_append length_sers_prune, simp add: sers_def)

section \<open>The filter walks the tree\<close>

lemma compat_calls [simp]:
  "call_done d compat_cb node st = Inr st"
  "call_open compat_cb node (scan, s) = Inr (scan\<lparr>depth := depth scan + 1\<rparr>, s)"
  "call_close compat_cb node (scan, s) =
     (if kill scan = depth scan then Inr (True, (scan\<lparr>depth := depth scan - 1, kill := 999\<rparr>, s))
      else Inr (False, (scan\<lparr>depth := depth scan - 1\<rparr>, s)))"
  by (simp_all add: call_done_def call_open_def call_close_def compat_cb_def compat_open_def compat_close_def Let_def)

definition names_of :: "mem \<Rightarrow> u64 \<Rightarrow> u32 \<Rightarrow> bool" where
  "names_of m strings off = str_is m (strings + ucast off) (lit ''compatible'')"

fun offs :: "ditem \<Rightarrow> u32 list" where
  "offs DNop = []"
| "offs (DProp off v) = [off]"
| "offs (DNode nm its) = concat (map offs its)"

lemma compat_prop_run:
  assumes h: "holds (m_mem s) (pos + 12) v" and t: "names off \<longrightarrow> terminated v" and c: "0 \<notin> set (compat scan)"
    and room: "unat (pos + 12) + length v < 2 ^ 64" and l: "length v + 3 < 2 ^ 31"
    and n: "names_of (m_mem s) strings off = names off"
  shows "cb_prop compat_cb \<lparr>p_node = nd, p_name = strings + ucast off, p_value = pos + 12, p_len = of_nat (length v)\<rparr> (scan, s) =
    Inr (if compat_item names (compat scan) (DProp off v) \<and> depth scan < kill scan then scan\<lparr>kill := depth scan\<rparr> else scan, s)"
proof -
  have u: "unat (of_nat (length v) :: u32) = length v" using l by (simp add: unat_of_nat)
  then have "sint (of_nat (length v) :: u32) = int (length v)" using l by (subst sint_small) simp_all
  then have sc: "(scast (of_nat (length v) :: u32) :: u64) = of_nat (length v)"
    by (simp only: scast_eq) simp
  have "is_compatible (m_mem s) \<lparr>p_node = nd, p_name = strings + ucast off, p_value = pos + 12, p_len = of_nat (length v)\<rparr> (compat scan) =
      Inr (compat_item names (compat scan) (DProp off v))"
  proof (cases "names off")
    case True
    with t have "terminated v" by simp
    from list_index_has [OF this h c room, of 0] obtain r
      where "list_index (m_mem s) (pos + 12) (pos + 12 + of_nat (length v)) (compat scan) 0 = Inr r"
        "0 \<le> sint r \<longleftrightarrow> has_string (compat scan) v" using l by auto
    then show ?thesis
      using True n by (simp add: is_compatible_def names_of_def fdt_string_list_index_def sc)
  next
    case False
    with n show ?thesis by (simp add: is_compatible_def names_of_def)
  qed
  then show ?thesis by (simp add: compat_cb_def compat_prop_def Let_def)
qed

text \<open>What the two lemmas on the walk assume of the items and of memory.\<close>

definition filterable :: "(u32 \<Rightarrow> bool) \<Rightarrow> u64 \<Rightarrow> bool \<Rightarrow> ditem list \<Rightarrow> u64 \<Rightarrow> mem \<Rightarrow> bool" where
  "filterable names strings d its pos m \<longleftrightarrow>
     list_all wf_item its \<and> ordered d its \<and> list_all (lists_ok names) its \<and> holds m pos (sers its) \<and>
     unat pos + length (sers its) < 2 ^ 64 \<and>
     (\<forall>it \<in> set its. \<forall>off \<in> set (offs it). names_of m strings off = names off)"

lemma filterable_rest:
  assumes "filterable names strings d (it # its) pos m"
  shows "filterable names strings (d \<or> is_node it) its (pos + of_nat (length (ser it))) m"
    and "unat pos + length (ser it) < 2 ^ 64" and "holds m pos (ser it)"
  using assms unat_offset [of pos "length (ser it)"]
  by (auto simp: filterable_def sers_def holds_append)

lemma filterable_sub:
  assumes "filterable names strings d (DNode nm sub # its) pos m"
  shows "filterable names strings False sub (pos + of_nat (4 + length nm + 1 + length (pad (length nm + 1)))) m"
proof -
  note r = filterable_rest(2,3) [OF assms]
  note p = node_parts [OF r(2,1)]
  show ?thesis using assms p(1,2) by (simp add: filterable_def holds_append)
qed

lemma filterable_prop:
  assumes "filterable names strings d (DProp off v # its) pos m"
  shows "holds m (pos + 12) v" and "names off \<longrightarrow> terminated v" and "unat (pos + 12) + length v < 2 ^ 64"
    and "length v + 3 < 2 ^ 31" and "names_of m strings off = names off"
proof -
  note r = filterable_rest(2,3) [OF assms]
  show "holds m (pos + 12) v" using r(2) by (simp add: holds_append add.assoc)
  show "unat (pos + 12) + length v < 2 ^ 64" using r(1) unat_offset [of pos 12] by simp
qed (use assms in \<open>simp_all add: filterable_def\<close>)

text \<open>Inside a node that is going to be removed nothing changes.\<close>

lemma walk_killed:
  assumes "filterable names strings d its pos (m_mem s)" and "0 \<notin> set (compat scan)" and "kill scan \<le> depth scan"
  shows "\<exists>d' node'. walk_items compat_cb strings pos d node child its (scan, s) = Inr ((d', node'), (scan, s))"
  using assms
proof (induction its arbitrary: pos d node child scan rule: measure_induct_rule [where f = "size_list size"])
  case (less its)
  show ?case
  proof (cases its)
    case (Cons it rest)
    note f = less.prems(1) [unfolded Cons]
    note r = filterable_rest [OF f]
    have IH: "\<exists>d' node'. walk_items compat_cb strings (pos + of_nat (length (ser it))) (d \<or> is_node it) nd ch rest (scan, s) =
        Inr ((d', node'), (scan, s))" for nd ch
      by (rule less.IH) (use r(1) less.prems Cons in simp_all)
    show ?thesis
    proof (cases it)
      case DNop
      then show ?thesis using IH by (simp add: Cons)
    next
      case (DProp off v)
      note pr = filterable_prop [OF f [unfolded DProp]]
      show ?thesis
        using IH less.prems(3) unfolding Cons DProp walk_items.simps Let_def
        by (simp add: compat_prop_run [where names = names and off = off, OF pr(1,2) less.prems(2) pr(3,4,5)] del: ser.simps compat_item.simps)
    next
      case (DNode nm sub)
      have "\<exists>d' node'. walk_items compat_cb strings (pos + of_nat (4 + length nm + 1 + length (pad (length nm + 1)))) False nd ch sub
          (scan\<lparr>depth := depth scan + 1\<rparr>, s) = Inr ((d', node'), (scan\<lparr>depth := depth scan + 1\<rparr>, s))" for nd ch
        by (rule less.IH) (use filterable_sub [OF f [unfolded DNode]] less.prems Cons DNode in simp_all)
      then obtain d' node' where "walk_items compat_cb strings (pos + of_nat (4 + length nm + 1 + length (pad (length nm + 1)))) False
          (child\<lparr>n_name := pos + 4\<rparr> # node) fresh_child sub
          (scan\<lparr>depth := depth scan + 1\<rparr>, s) = Inr ((d', node'), (scan\<lparr>depth := depth scan + 1\<rparr>, s))" by blast
      then show ?thesis
        using IH less.prems(3) unfolding Cons DNode walk_items.simps Let_def
        by (simp del: ser.simps)
    qed
  qed simp
qed

section \<open>What the filter writes\<close>

lemma nth_nops: "i < 4 * k \<Longrightarrow> sers (replicate k DNop) ! i = be32 FDT_NOP ! (i mod 4)"
proof (induction k arbitrary: i)
  case (Suc k)
  show ?case
  proof (cases "i < 4")
    case True
    then show ?thesis by (simp add: sers_def nth_append)
  next
    case False
    then have "sers (replicate (Suc k) DNop) ! i = sers (replicate k DNop) ! (i - 4)"
      by (simp add: sers_def nth_append)
    with False Suc show ?thesis by (simp add: le_mod_geq)
  qed
qed simp

lemma nop_byte: "j < 4 \<Longrightarrow> ucast (drop_bit (8 * j) (bswap FDT_NOP)) = be32 FDT_NOP ! j"
proof -
  assume "j < 4"
  then have "j = 0 \<or> j = 1 \<or> j = 2 \<or> j = 3" by arith
  then show ?thesis by (elim disjE) (simp_all add: FDT_NOP_def bswap_def be32_def)
qed

lemma and_3_mod: "unat ((of_nat i :: u64) AND 3) = i mod 4"
proof -
  have "(of_nat i :: u64) AND 3 = take_bit 2 (of_nat i)" by (simp add: take_bit_eq_mask numeral_eq_Suc mask_Suc_exp)
  then have "unat ((of_nat i :: u64) AND 3) = take_bit 2 (unat (of_nat i :: u64))" by (simp add: unsigned_take_bit_eq)
  also have "\<dots> = i mod 4" by (simp add: unat_of_nat take_bit_eq_mod mod_mod_cancel)
  finally show ?thesis .
qed

lemma nop_fill_nops:
  assumes "n = 4 * k" and "n < 2 ^ 64"
  obtains m' where "nop_fill pos (pos + of_nat n) m = Inr m'" and "holds m' pos (sers (replicate k DNop))"
    and "same_outside pos n m m'"
proof -
  have "unat ((of_nat n :: u64) AND 3) = 0" unfolding and_3_mod by (simp add: assms(1))
  then have "(of_nat n :: u64) AND 3 = 0" by (simp only: unat_eq_zero)
  then obtain m' where m': "nop_fill pos (pos + of_nat n) m = Inr m'"
    and f: "m' = (\<lambda>a. if a - pos < of_nat n then ucast (drop_bit (8 * unat ((a - pos) AND 3)) (bswap FDT_NOP)) else m a)"
    by (simp add: nop_fill_def)
  have "m' (pos + of_nat i) = sers (replicate k DNop) ! i" if "i < 4 * k" for i
  proof -
    have "i < n" using that assms(1) by simp
    then have "(of_nat i :: u64) < of_nat n" using assms(2) by (simp add: word_less_nat_alt unat_of_nat)
    then show ?thesis
      using nop_byte [of "i mod 4"] by (simp add: f and_3_mod nth_nops [OF that])
  qed
  then have "holds m' pos (sers (replicate k DNop))" by (simp add: holds_def length_sers_replicate)
  then show ?thesis using that m' nop_fill_outside [OF m' assms(2)] by blast
qed

text \<open>The names lie outside the window that the filter may write.\<close>

definition apart :: "u64 \<Rightarrow> u32 set \<Rightarrow> u64 \<Rightarrow> nat \<Rightarrow> bool" where
  "apart strings S pos n \<longleftrightarrow> (\<forall>off \<in> S. \<forall>i < 11. n \<le> unat (strings + ucast off + of_nat i - pos))"

lemma apart_sub:
  assumes "apart strings S pos N" and "k + n \<le> N"
  shows "apart strings S (pos + of_nat k) n"
  unfolding apart_def
proof (intro ballI allI impI)
  fix off i assume "off \<in> S" "i < (11 :: nat)"
  with assms have a: "N \<le> unat (strings + ucast off + of_nat i - pos)" by (simp add: apart_def)
  then have k: "k \<le> unat (strings + ucast off + of_nat i - pos)" using assms(2) by simp
  then have "k < 2 ^ 64" using unsigned_less [of "strings + ucast off + of_nat i - pos", where ?'a = nat] by simp
  then have "unat (strings + ucast off + of_nat i - pos - of_nat k) = unat (strings + ucast off + of_nat i - pos) - k"
    using k by (subst unat_sub_no_wrap) (simp_all add: word_le_nat_alt unat_of_nat)
  then show "n \<le> unat (strings + ucast off + of_nat i - (pos + of_nat k))"
    using a assms(2) by (simp add: diff_diff_eq)
qed

lemma str_is_cong: "(\<And>i. i \<le> length c \<Longrightarrow> m' (p + of_nat i) = m (p + of_nat i)) \<Longrightarrow> str_is m' p c = str_is m p c"
proof (induction c arbitrary: p)
  case Nil
  from Nil [of 0] show ?case by simp
next
  case (Cons a c)
  have "m' (p + 1 + of_nat i) = m (p + 1 + of_nat i)" if "i \<le> length c" for i
    using Cons.prems [of "Suc i"] that by (simp add: ac_simps)
  then show ?case using Cons.IH [of "p + 1"] Cons.prems [of 0] by simp
qed

lemma names_of_outside:
  assumes "same_outside pos n m m'" and "apart strings S pos n" and "off \<in> S"
  shows "names_of m' strings off = names_of m strings off"
  unfolding names_of_def
proof (rule str_is_cong)
  fix i assume "i \<le> length (lit ''compatible'')"
  then have "i < 11" by (simp add: lit_def)
  then show "m' (strings + ucast off + of_nat i) = m (strings + ucast off + of_nat i)"
    using assms by (simp add: same_outside_def apart_def)
qed

lemma filterable_outside:
  assumes "filterable names strings d its (pos + of_nat n) m" and "same_outside pos n m m'" and "apart strings S pos n"
    and "\<forall>it \<in> set its. set (offs it) \<subseteq> S" and "n + length (sers its) \<le> 2 ^ 64"
  shows "filterable names strings d its (pos + of_nat n) m'"
  using assms names_of_outside [OF assms(2,3)] holds_outside [OF assms(2)]
  by (fastforce simp: filterable_def)

lemma holds_before:
  assumes "same_outside (p + of_nat (length bs)) n m m'" and "holds m p bs" and "length bs + n \<le> 2 ^ 64"
  shows "holds m' p bs"
  unfolding holds_def
proof (intro allI impI)
  fix i assume i: "i < length bs"
  define k where "k = length bs - i"
  have "p + of_nat i - (p + of_nat (length bs)) = - (of_nat k :: u64)"
    using i by (simp add: k_def of_nat_diff)
  moreover have k: "0 < k" "k + n \<le> 2 ^ 64" using i assms(3) by (simp_all add: k_def)
  then have "- (of_nat k :: u64) = of_nat (2 ^ 64 - k)" by (subst of_nat_diff) simp_all
  then have "unat (- (of_nat k :: u64)) = 2 ^ 64 - k" using k by (simp only: unat_of_nat) simp
  then have "n \<le> unat (- (of_nat k :: u64))" using k by simp
  ultimately have "m' (p + of_nat i) = m (p + of_nat i)" using assms(1) by (simp add: same_outside_def)
  then show "m' (p + of_nat i) = bs ! i" using assms(2) i by (simp add: holds_def)
qed


lemma fold_max: "a \<le> fold max xs (a :: nat) \<and> (\<forall>x \<in> set xs. x \<le> fold max xs a)"
proof (induction xs arbitrary: a)
  case (Cons y ys)
  from Cons [of "max y a"] show ?case by simp
qed simp

lemma height_sub: "it \<in> set sub \<Longrightarrow> height it < height (DNode nm sub)"
  using fold_max [where xs = "map height sub" and a = 0] by (simp add: less_Suc_eq_le)

text \<open>One node: its bytes become no-operations, or the pruned node.\<close>

lemma node_pruned:
  assumes h: "holds m pos (ser (DNode nm sub))" and room: "unat pos + length (ser (DNode nm sub)) < 2 ^ 64"
    and o: "same_outside (pos + of_nat (4 + length nm + 1 + length (pad (length nm + 1)))) (length (sers sub)) m m'"
    and p: "holds m' (pos + of_nat (4 + length nm + 1 + length (pad (length nm + 1)))) (sers (prunes names c sub))"
  shows "holds m' pos (ser (DNode nm (prunes names c sub)))"
    and "same_outside pos (length (ser (DNode nm sub))) m m'"
proof -
  define bs where "bs = be32 FDT_BEGIN_NODE @ nm @ [0] @ pad (length nm + 1)"
  have l: "4 + length nm + 1 + length (pad (length nm + 1)) = length bs" by (simp add: bs_def)
  note o = o [unfolded l] and p = p [unfolded l]
  have n: "length (ser (DNode nm sub)) = length bs + length (sers sub) + 4" by (simp add: bs_def sers_def)
  have s: "ser (DNode nm its) = bs @ sers its @ be32 FDT_END_NODE" for its by (simp add: bs_def sers_def)
  have h3: "holds m pos bs" "holds m (pos + of_nat (length bs) + of_nat (length (sers sub))) (be32 FDT_END_NODE)"
    using h by (simp_all only: s holds_append)
  have "holds m' pos bs" by (rule holds_before [OF o h3(1)]) (use room n in simp)
  moreover have "holds m' (pos + of_nat (length bs) + of_nat (length (sers sub))) (be32 FDT_END_NODE)"
    by (rule holds_outside [OF o h3(2)]) (use room n in simp)
  ultimately show "holds m' pos (ser (DNode nm (prunes names c sub)))"
    using p unfolding s holds_append length_sers_prunes by blast
  show "same_outside pos (length (ser (DNode nm sub))) m m'"
    by (rule same_outside_shift [OF o]) (use room n in simp_all)
qed


text \<open>
  The result of the walk over the items of a node at depth \<^verbatim>\<open>D\<close>: when one of them makes the node
  compatible it is marked, and otherwise memory holds the pruned items.
\<close>

definition pruned :: "(u32 \<Rightarrow> bool) \<Rightarrow> ditem list \<Rightarrow> u64 \<Rightarrow> compat_scan \<Rightarrow> mstate \<Rightarrow>
    ((bool \<times> fdt_scan_node list) \<times> compat_scan scan_state) res \<Rightarrow> bool" where
  "pruned names its pos scan s r \<longleftrightarrow>
     (\<exists>d' node' m'. same_outside pos (length (sers its)) (m_mem s) m' \<and>
        (if has_compat names (compat scan) its then r = Inr ((d', node'), (scan\<lparr>kill := depth scan\<rparr>, s\<lparr>m_mem := m'\<rparr>))
         else r = Inr ((d', node'), (scan, s\<lparr>m_mem := m'\<rparr>)) \<and> holds m' pos (sers (prunes names (compat scan) its))))"

lemma pruned_Cons:
  assumes it: "holds m' pos (sers (prune names (compat scan) it))" "same_outside pos (length (ser it)) (m_mem s) m'"
      "\<not> compat_item names (compat scan) it"
    and rest: "pruned names its (pos + of_nat (length (ser it))) scan (s\<lparr>m_mem := m'\<rparr>) r"
    and room: "length (ser it) + length (sers its) < 2 ^ 64"
  shows "pruned names (it # its) pos scan s r"
proof -
  let ?n = "length (ser it)"
  have n: "length (sers (it # its)) = ?n + length (sers its)" by (simp add: sers_def)
  from rest obtain d' node' m'' where o: "same_outside (pos + of_nat ?n) (length (sers its)) m' m''"
    and r: "if has_compat names (compat scan) its then r = Inr ((d', node'), (scan\<lparr>kill := depth scan\<rparr>, s\<lparr>m_mem := m''\<rparr>))
       else r = Inr ((d', node'), (scan, s\<lparr>m_mem := m''\<rparr>)) \<and>
         holds m'' (pos + of_nat ?n) (sers (prunes names (compat scan) its))"
    by (auto simp: pruned_def)
  have "same_outside pos (length (sers (it # its))) (m_mem s) m''"
    using same_outside_trans [of pos "length (sers (it # its))" "m_mem s" m' m'']
      same_outside_shift [of pos 0 ?n "m_mem s" m' "length (sers (it # its))"] it(2)
      same_outside_shift [OF o, of "length (sers (it # its))"] room n by simp
  moreover have "holds m'' pos (sers (prune names (compat scan) it))"
    using holds_before [of pos "sers (prune names (compat scan) it)" "length (sers its)" m' m''] o it(1) room
    by (simp add: length_sers_prune)
  then have "holds m'' pos (sers (prunes names (compat scan) (it # its)))"
    if "holds m'' (pos + of_nat ?n) (sers (prunes names (compat scan) its))"
    using that by (simp add: prunes_def sers_append holds_append length_sers_prune)
  ultimately show ?thesis
    using r it(3) unfolding pruned_def
    by (intro exI [of _ d'] exI [of _ node'] exI [of _ m'']) (auto simp: has_compat_def)
qed

lemma walk_prune_node:
  fixes nm sub
  defines "it \<equiv> DNode nm sub" and "h \<equiv> 4 + length nm + 1 + length (pad (length nm + 1))"
  assumes f: "filterable names strings d (it # rest) pos (m_mem s)" and k: "kill scan = 999" and D: "depth scan + 1 < 999"
    and sub: "pruned names sub (pos + of_nat h) (scan\<lparr>depth := depth scan + 1\<rparr>) s
      (walk_items compat_cb strings (pos + of_nat h) False (child\<lparr>n_name := pos + 4\<rparr> # node) fresh_child sub
         (scan\<lparr>depth := depth scan + 1\<rparr>, s))"
    and rest: "\<And>m' nd ch. same_outside pos (length (ser it)) (m_mem s) m' \<Longrightarrow>
      pruned names rest (pos + of_nat (length (ser it))) scan (s\<lparr>m_mem := m'\<rparr>)
        (walk_items compat_cb strings (pos + of_nat (length (ser it))) True nd ch rest (scan, s\<lparr>m_mem := m'\<rparr>))"
  shows "pruned names (it # rest) pos scan s (walk_items compat_cb strings pos d node child (it # rest) (scan, s))"
proof -
  let ?n = "length (ser it)" and ?c = "compat scan"
  note r = filterable_rest [OF f]
  have room: "?n + length (sers rest) < 2 ^ 64" using f by (simp add: filterable_def sers_def)
  have n: "?n = h + length (sers sub) + 4" by (simp add: it_def h_def sers_def)
  obtain d' node' m' where o: "same_outside (pos + of_nat h) (length (sers sub)) (m_mem s) m'"
    and w: "if has_compat names ?c sub
      then walk_items compat_cb strings (pos + of_nat h) False (child\<lparr>n_name := pos + 4\<rparr> # node) fresh_child sub
         (scan\<lparr>depth := depth scan + 1\<rparr>, s) =
         Inr ((d', node'), (scan\<lparr>depth := depth scan + 1, kill := depth scan + 1\<rparr>, s\<lparr>m_mem := m'\<rparr>))
      else walk_items compat_cb strings (pos + of_nat h) False (child\<lparr>n_name := pos + 4\<rparr> # node) fresh_child sub
         (scan\<lparr>depth := depth scan + 1\<rparr>, s) = Inr ((d', node'), (scan\<lparr>depth := depth scan + 1\<rparr>, s\<lparr>m_mem := m'\<rparr>)) \<and>
         holds m' (pos + of_nat h) (sers (prunes names ?c sub))"
    using sub unfolding pruned_def by (elim exE conjE, intro that) (assumption, simp split: if_splits)
  have scan: "scan\<lparr>depth := depth scan + 1, kill := depth scan + 1, depth := depth scan, kill := 999\<rparr> = scan"
    "scan\<lparr>depth := depth scan + 1, depth := depth scan\<rparr> = scan" using k by (cases scan; simp)+
  show ?thesis
  proof (cases "has_compat names ?c sub")
    case True
    have n4: "?n = 4 * (?n div 4)" using length_ser_dvd [of it] by simp
    obtain m'' where m'': "nop_fill pos (pos + of_nat ?n) m' = Inr m''" "holds m'' pos (sers (replicate (?n div 4) DNop))"
      "same_outside pos ?n m' m''" by (rule nop_fill_nops [OF n4]) (use room in simp)
    have "same_outside pos ?n (m_mem s) m'" by (rule same_outside_shift [OF o]) (use room n in simp_all)
    then have "same_outside pos ?n (m_mem s) m''" using m''(3) by (rule same_outside_trans)
    moreover from this have "walk_items compat_cb strings pos d node child (it # rest) (scan, s) =
        walk_items compat_cb strings (pos + of_nat ?n) True node (hd node') rest (scan, s\<lparr>m_mem := m''\<rparr>)"
      using w True m''(1) scan by (simp add: it_def h_def Let_def del: ser.simps)
    ultimately show ?thesis
      using pruned_Cons [of m'' pos names scan it s rest] rest m''(2) True room by (simp add: it_def del: ser.simps)
  next
    case False
    have "holds m' (pos + of_nat h) (sers (prunes names ?c sub))" using w False by simp
    note p = node_pruned [OF r(3,2) [unfolded it_def] o [unfolded h_def] this [unfolded h_def], folded it_def]
    moreover have "walk_items compat_cb strings pos d node child (it # rest) (scan, s) =
        walk_items compat_cb strings (pos + of_nat ?n) True node (hd node') rest (scan, s\<lparr>m_mem := m'\<rparr>)"
      using w False scan k D by (simp add: it_def h_def Let_def del: ser.simps)
    ultimately show ?thesis
      using pruned_Cons [of m' pos names scan it s rest] rest False room
      by (simp add: it_def prunes_def sers_def [of "[_]"] del: ser.simps)
  qed
qed

lemma walk_prune:
  assumes "filterable names strings d its pos (m_mem s)" and "0 \<notin> set (compat scan)" and "kill scan = 999"
    and "\<forall>it \<in> set its. depth scan + int (height it) < 999" and "0 \<le> depth scan" and "depth scan < 999"
    and "apart strings S pos (length (sers its))" and "\<forall>it \<in> set its. set (offs it) \<subseteq> S"
  shows "pruned names its pos scan s (walk_items compat_cb strings pos d node child its (scan, s))"
  using assms
proof (induction its arbitrary: pos d node child scan s rule: measure_induct_rule [where f = "size_list size"])
  case (less its)
  show ?case
  proof (cases its)
    case Nil
    then show ?thesis by (auto simp: pruned_def has_compat_def prunes_def sers_def intro: exI [of _ "m_mem s"])
  next
    case (Cons it rest)
    note f = less.prems(1) [unfolded Cons]
    note r = filterable_rest [OF f]
    let ?n = "length (ser it)" and ?c = "compat scan"
    have n: "length (sers its) = ?n + length (sers rest)" by (simp add: Cons sers_def)
    have room: "?n + length (sers rest) < 2 ^ 64" using less.prems(1) n by (simp add: filterable_def)
    have IH: "pruned names rest (pos + of_nat ?n) scan (s\<lparr>m_mem := m'\<rparr>)
        (walk_items compat_cb strings (pos + of_nat ?n) (d \<or> is_node it) nd ch rest (scan, s\<lparr>m_mem := m'\<rparr>))"
      if "same_outside pos ?n (m_mem s) m'" for m' nd ch
    proof (rule less.IH)
      have "apart strings S pos ?n" using apart_sub [OF less.prems(7), of 0 ?n] n by simp
      then show "filterable names strings (d \<or> is_node it) rest (pos + of_nat ?n) (m_mem (s\<lparr>m_mem := m'\<rparr>))"
        using filterable_outside [OF r(1) that] less.prems(8) room by (simp add: Cons)
      show "apart strings S (pos + of_nat ?n) (length (sers rest))" using apart_sub [OF less.prems(7)] n by simp
    qed (use less.prems Cons in auto)
    show ?thesis
    proof (cases it)
      case DNop
      have "holds (m_mem s) pos (ser DNop)" using r(3) DNop by simp
      then show ?thesis
        using pruned_Cons [of "m_mem s" pos names scan it s rest] IH [of "m_mem s" node child] room
        by (simp add: Cons DNop sers_def)
    next
      case (DProp off v)
      note pr = filterable_prop [OF f [unfolded DProp]]
      note run = compat_prop_run [where names = names and off = off, OF pr(1,2) less.prems(2) pr(3,4,5)]
      show ?thesis
      proof (cases "compat_item names ?c it")
        case True
        have "has_compat names ?c its" using True by (simp add: Cons has_compat_def)
        moreover obtain d' node' where "walk_items compat_cb strings (pos + of_nat ?n) d
            (set_cells (m_mem s) (strings + ucast off) (bswap (load32 (m_mem s) (pos + 12))) node) child rest
            (scan\<lparr>kill := depth scan\<rparr>, s) = Inr ((d', node'), (scan\<lparr>kill := depth scan\<rparr>, s))"
          using walk_killed [of names strings d rest "pos + of_nat ?n" s "scan\<lparr>kill := depth scan\<rparr>"] r(1) less.prems DProp
          by fastforce
        ultimately show ?thesis
          using True less.prems(3,6) run unfolding pruned_def Cons DProp walk_items.simps Let_def
          by (intro exI [of _ d'] exI [of _ node'] exI [of _ "m_mem s"]) (simp del: ser.simps compat_item.simps)
      next
        case False
        then show ?thesis
          using pruned_Cons [of "m_mem s" pos names scan it s rest] IH [of "m_mem s"] room r(3)
          unfolding Cons DProp walk_items.simps Let_def
          by (simp add: run sers_def del: ser.simps compat_item.simps)
      qed
    next
      case (DNode nm sub)
      show ?thesis
        unfolding Cons DNode
      proof (rule walk_prune_node [OF f [unfolded DNode] less.prems(3)])
        let ?h = "4 + length nm + 1 + length (pad (length nm + 1))"
        show "depth scan + 1 < 999" using less.prems(4) by (auto simp: Cons DNode)
        have "?h + length (sers sub) \<le> length (sers its)" by (simp add: Cons DNode sers_def)
        then show "pruned names sub (pos + of_nat ?h) (scan\<lparr>depth := depth scan + 1\<rparr>) s
          (walk_items compat_cb strings (pos + of_nat ?h) False (child\<lparr>n_name := pos + 4\<rparr> # node) fresh_child sub
            (scan\<lparr>depth := depth scan + 1\<rparr>, s))"
          using filterable_sub [OF f [unfolded DNode]] less.prems height_sub [of _ sub nm] apart_sub [OF less.prems(7), of ?h]
          by (intro less.IH) (fastforce simp: Cons DNode)+
      qed (use IH in \<open>simp add: DNode del: ser.simps\<close>)
    qed
  qed
qed


section \<open>Filtering a blob\<close>

definition dt_struct :: "mem \<Rightarrow> u64 \<Rightarrow> u64" where
  "dt_struct m fdt = fdt + ucast (hdr m fdt 2)"

definition dt_strings :: "mem \<Rightarrow> u64 \<Rightarrow> u64" where
  "dt_strings m fdt = fdt + ucast (hdr m fdt 3)"

text \<open>Memory holds at \<^verbatim>\<open>fdt\<close> a blob whose structure block is the items, all nodes, and an end token.\<close>

definition blob :: "mem \<Rightarrow> u64 \<Rightarrow> ditem list \<Rightarrow> bool" where
  "blob m fdt its \<longleftrightarrow>
     fdt_known m fdt \<and> list_all wf_item its \<and> list_all (\<lambda>it. \<not> is_prop it) its \<and>
     holds m (dt_struct m fdt) (sers its @ be32 FDT_END) \<and>
     unat (dt_struct m fdt) + length (sers its) + 4 < 2 ^ 64"

lemma ordered_no_prop: "list_all (\<lambda>it. \<not> is_prop it) its \<Longrightarrow> ordered d its"
  by (induction its arbitrary: d) auto

lemma length_set_cells [simp]: "length (set_cells m name v node) = length node"
  by (simp add: set_cells_def Let_def split: list.splits)

lemma walk_length:
  "walk_items cb strings pos d node child its st = Inr ((d', node'), st') \<Longrightarrow> length node' = length node"
proof (induction its arbitrary: pos d node child st)
  case (Cons it its)
  show ?case
  proof (cases it)
    case DNop
    then show ?thesis using Cons by simp
  next
    case (DProp off v)
    then show ?thesis
      using Cons.prems by (auto simp: Let_def bind_res_eq_Inr simp del: ser.simps dest!: Cons.IH)
  next
    case (DNode nm sub)
    then show ?thesis
      using Cons.prems by (auto simp: Let_def bind_res_eq_Inr simp del: ser.simps dest!: Cons.IH)
  qed
qed simp

context tree_reader
begin

lemma blob_walk:
  assumes "blob (m_mem (snd st)) fdt its" and "sum_list (map tokens its) < fuel"
  shows "fdt_scan fuel fdt cb st =
    bind_res (walk_items cb (dt_strings (m_mem (snd st)) fdt) (dt_struct (m_mem (snd st)) fdt) False [] fresh_child its st)
      (\<lambda>(_, st). Inr st)"
proof -
  have "FDT_END \<noteq> FDT_NOP" "FDT_END \<noteq> FDT_PROP" "FDT_END \<noteq> FDT_BEGIN_NODE"
    by (simp_all add: FDT_END_def FDT_NOP_def FDT_PROP_def FDT_BEGIN_NODE_def)
  note walk = scan_walk [OF _ _ _ this, where its = its and st = st and d = False and k = fuel and node = "[]" and child = fresh_child]
  show ?thesis
    using assms ordered_no_prop [of its] unfolding blob_def fdt_scan_def dt_struct_def [symmetric] dt_strings_def [symmetric] Let_def
    by (auto simp: walk bind_res_assoc call_done_def dest!: walk_length intro!: bind_res_cong)
qed

end


text \<open>No node of the tree is compatible with the string.\<close>

fun clean :: "(u32 \<Rightarrow> bool) \<Rightarrow> u8 list \<Rightarrow> ditem \<Rightarrow> bool" where
  "clean names c (DNode nm its) = (\<not> has_compat names c its \<and> list_all (clean names c) its)"
| "clean names c _ = True"

lemma has_compat_prunes: "has_compat names c (prunes names c its) = has_compat names c its"
proof (induction its)
  case (Cons it its)
  have "list_ex (compat_item names c) (prune names c it) = compat_item names c it"
    by (cases it) (simp_all add: list_ex_iff)
  then show ?case using Cons by (simp add: has_compat_def prunes_def)
qed (simp add: has_compat_def prunes_def)

lemma clean_prune: "list_all (clean names c) (prune names c it)"
proof (induction it rule: ser.induct)
  case (3 nm its)
  then have "list_all (clean names c) (prunes names c its)" by (auto simp: prunes_def list_all_iff)
  then show ?case using has_compat_prunes [of names c its] by (simp add: prunes_def list_all_iff)
qed simp_all

interpretation compat_scanner: tree_reader compat_cb
  by unfold_locales
    (auto simp: compat_cb_def compat_open_def compat_prop_def compat_close_def Let_def bind_res_eq_Inr split: if_splits)

definition all_offs :: "ditem list \<Rightarrow> u32 set" where
  "all_offs its = (\<Union>it \<in> set its. set (offs it))"

text \<open>
  (C13) \<^verbatim>\<open>filter_compat\<close> removes exactly the compatible nodes: on a blob it returns, changes nothing but the
  structure block, and leaves there the tokens of the tree in which each topmost node that has a
  \<^verbatim>\<open>compatible\<close> property listing the string is replaced by no-operations of the same total length.
  No node of the result is compatible.
\<close>

theorem filter_compat_prunes:
  fixes s fdt
  defines "m \<equiv> m_mem s"
  defines "names \<equiv> names_of m (dt_strings m fdt)"
  assumes "blob m fdt its" and "sum_list (map tokens its) < fuel" and "0 \<notin> set c"
    and "list_all (lists_ok names) its" and "list_all (\<lambda>it. height it < 999) its"
    and "apart (dt_strings m fdt) (all_offs its) (dt_struct m fdt) (length (sers its))"
  shows "\<exists>m'. filter_compat fuel fdt c s = Inr (s\<lparr>m_mem := m'\<rparr>) \<and>
      same_outside (dt_struct m fdt) (length (sers its)) m m' \<and>
      holds m' (dt_struct m fdt) (sers (prunes names c its)) \<and>
      length (sers (prunes names c its)) = length (sers its) \<and>
      list_all (clean names c) (prunes names c its)"
proof -
  let ?scan = "\<lparr>compat = c, depth = 0, kill = 999\<rparr>"
  have b: "list_all wf_item its" "list_all (\<lambda>it. \<not> is_prop it) its" "holds m (dt_struct m fdt) (sers its)"
    "unat (dt_struct m fdt) + length (sers its) < 2 ^ 64" using assms(3) by (simp_all add: blob_def holds_append)
  then have "filterable names (dt_strings m fdt) False its (dt_struct m fdt) (m_mem s)"
    using assms(6) ordered_no_prop by (auto simp: filterable_def names_def m_def)
  then have "pruned names its (dt_struct m fdt) ?scan s
      (walk_items compat_cb (dt_strings m fdt) (dt_struct m fdt) False [] fresh_child its (?scan, s))"
    by (rule walk_prune [where S = "all_offs its"]) (use assms in \<open>auto simp: all_offs_def list_all_iff\<close>)
  moreover have "compat_item names c it \<Longrightarrow> is_prop it" for it by (cases it) simp_all
  then have "\<not> has_compat names c its" using b(2) by (auto simp: has_compat_def list_all_iff list_ex_iff)
  moreover have "list_all (clean names c) (prunes names c its)"
    using clean_prune by (auto simp: prunes_def list_all_iff)
  ultimately show ?thesis
    using compat_scanner.blob_walk [of "(?scan, s)" fdt its fuel] assms(3,4)
    by (auto simp: pruned_def filter_compat_def m_def length_sers_prunes)
qed

definition sample_tree :: "ditem list" where
  "sample_tree = [DNode [] [DNode (lit ''u'') [DProp 0 (lit ''a'' @ [0])], DNode (lit ''v'') [DProp 0 (lit ''b'' @ [0])]]]"

definition sample_bytes :: "u8 list" where
  "sample_bytes =
     be32 FDT_MAGIC @ be32 123 @ be32 40 @ be32 112 @ be32 40 @ be32 17 @ be32 16 @ be32 0 @ be32 11 @ be32 72 @
     (sers sample_tree @ be32 FDT_END) @ lit ''compatible'' @ [0]"

definition sample_mem :: mem where
  "sample_mem a = (let i = unat (a - 0x1000) in if i < length sample_bytes then sample_bytes ! i else 0)"

lemma sample_length [simp]: "length (sers sample_tree) = 68" "length sample_bytes = 123"
  by (simp_all add: sers_def sample_tree_def pad_def lit_def sample_bytes_def)

lemma sample_holds: "holds sample_mem 0x1000 sample_bytes"
  by (simp add: holds_def sample_mem_def unat_of_nat)

lemma sample_hdr: "hdr sample_mem 0x1000 0 = FDT_MAGIC" "hdr sample_mem 0x1000 2 = 40" "hdr sample_mem 0x1000 3 = 112"
    "hdr sample_mem 0x1000 6 = 16" "holds sample_mem (0x1000 + 40) (sers sample_tree @ be32 FDT_END)"
  using sample_holds unfolding sample_bytes_def by (simp_all add: hdr_def load32_holds holds_append)

lemma sample_ok:
  "blob sample_mem 0x1000 sample_tree"
  "list_all (lists_ok names) sample_tree"
  "list_all (\<lambda>it. height it < 999) sample_tree" "sum_list (map tokens sample_tree) < 20"
  using sample_hdr
  by (simp_all add: blob_def fdt_known_def FDT_VERSION_def dt_struct_def) (simp_all add: sample_tree_def terminated_def lit_def)

lemma sample_apart:
  "apart (dt_strings sample_mem 0x1000) (all_offs sample_tree) (dt_struct sample_mem 0x1000) (length (sers sample_tree))"
proof -
  have "unat (72 + of_nat i :: u64) = 72 + i" if "i < 11" for i
    using that by (subst unat_add_no_wrap) (simp_all add: unat_of_nat)
  moreover have "all_offs sample_tree = {0}" by (simp add: all_offs_def sample_tree_def)
  moreover have "dt_strings sample_mem 0x1000 = 4208" "dt_struct sample_mem 0x1000 = 4136"
    using sample_hdr by (simp_all add: dt_struct_def dt_strings_def)
  moreover have "4208 + of_nat i - 4136 = (72 + of_nat i :: u64)" for i by (simp add: algebra_simps)
  ultimately show ?thesis by (simp add: apart_def)
qed

lemma filter_compat_prunes_witness:
  "\<exists>m'. filter_compat 20 0x1000 (lit ''a'') (reset_state sample_mem) = Inr (reset_state m') \<and>
     same_outside (dt_struct sample_mem 0x1000) 68 sample_mem m' \<and>
     holds m' (dt_struct sample_mem 0x1000)
       (sers (prunes (names_of sample_mem (dt_strings sample_mem 0x1000)) (lit ''a'') sample_tree))"
  using filter_compat_prunes [where s = "reset_state sample_mem" and fdt = "0x1000" and its = sample_tree and fuel = 20 and c = "lit ''a''"]
    sample_ok sample_apart
  by (auto simp: lit_def reset_state_def)

end
