(* ===== verification/Fdt_Safe.thy ===== *)
theory Fdt_Safe
  imports Fdt_Scans
begin

text \<open>
  What a scan keeps on any blob, well formed or not: the contract of a set of callbacks that keep a
  property of the state (in any memory, if they remove nodes), and the hart mask that
  \<^verbatim>\<open>query_harts\<close> builds.
\<close>

section \<open>Properties that scans keep\<close>

locale scan_keeps =
  fixes cb :: "'x fdt_cb" and P :: "'x scan_state \<Rightarrow> bool"
  assumes open_keeps: "\<And>f node st st'. cb_open cb = Some f \<Longrightarrow> f node st = Inr st' \<Longrightarrow> P st \<Longrightarrow> P st'"
    and prop_keeps: "\<And>prop st st'. cb_prop cb prop st = Inr st' \<Longrightarrow> P st \<Longrightarrow> P st'"
    and done_keeps: "\<And>f node st st'. cb_done cb = Some f \<Longrightarrow> f node st = Inr st' \<Longrightarrow> P st \<Longrightarrow> P st'"
    and close_keeps: "\<And>f node st b st'. cb_close cb = Some f \<Longrightarrow> f node st = Inr (b, st') \<Longrightarrow> P st \<Longrightarrow> P st'"
    and kill_keeps: "\<And>f node st x s m. cb_close cb = Some f \<Longrightarrow> f node st = Inr (True, (x, s)) \<Longrightarrow> P st \<Longrightarrow> P (x, s\<lparr>m_mem := m\<rparr>)"
begin

lemma calls_keep:
  "call_open cb node st = Inr st' \<Longrightarrow> P st \<Longrightarrow> P st'"
  "call_done d cb node st = Inr st' \<Longrightarrow> P st \<Longrightarrow> P st'"
  "call_close cb node st = Inr (b, st') \<Longrightarrow> P st \<Longrightarrow> P st'"
  by (auto simp: call_open_def call_done_def call_close_def
      split: option.splits if_splits intro: open_keeps done_keeps close_keeps)

lemma after_close:
  "call_close cb node st = Inr (b, st') \<Longrightarrow> P st \<Longrightarrow> b \<or> m = m_mem (snd st') \<Longrightarrow> P (fst st', (snd st')\<lparr>m_mem := m\<rparr>)"
  by (cases b; cases st') (auto simp: call_close_def split: option.splits intro: close_keeps kill_keeps)

lemma helper_keeps:
  "fdt_scan_helper k cb strings pos d node child st = Inr (r, st') \<Longrightarrow> P st \<Longrightarrow> P st'"
proof (induction k arbitrary: pos d node child st r st')
  case (Suc k)
  consider (nop) "bswap (load32 (m_mem (snd st)) pos) = FDT_NOP" | (property) "bswap (load32 (m_mem (snd st)) pos) = FDT_PROP"
    | (node) "bswap (load32 (m_mem (snd st)) pos) = FDT_BEGIN_NODE"
    | (other) "bswap (load32 (m_mem (snd st)) pos) \<notin> {FDT_NOP, FDT_PROP, FDT_BEGIN_NODE}" by auto
  then show ?case
  proof cases
    case nop
    then show ?thesis using Suc by (auto simp: Let_def)
  next
    case property
    then show ?thesis
      using Suc.prems by (auto simp: Let_def bind_res_eq_Inr FDT_PROP_def FDT_NOP_def kassert_def split: if_splits dest!: Suc.IH intro: prop_keeps)
  next
    case node
    have fill: "b \<or> m = m'" if "(if b then nop_fill p q m' else Inr m') = Inr m" for b p q m m'
      using that by (cases b) auto
    show ?thesis
      using node Suc.prems
      by (auto simp: Let_def bind_res_eq_Inr FDT_PROP_def FDT_NOP_def FDT_BEGIN_NODE_def
          dest!: calls_keep(1,2) Suc.IH fill dest: after_close)
  next
    case other
    then show ?thesis
      using Suc.prems by (auto simp: Let_def bind_res_eq_Inr split: if_splits intro: calls_keep)
  qed
qed simp

lemma fdt_scan_keeps: "fdt_scan fuel fdt cb st = Inr st' \<Longrightarrow> P st \<Longrightarrow> P st'"
  by (auto simp: fdt_scan_def Let_def bind_res_eq_Inr split: if_splits dest: helper_keeps)

end

section \<open>The harts\<close>

text \<open>Only harts below \<^verbatim>\<open>MAX_HARTS\<close> are marked, and each has a handle.\<close>

definition mask_ok :: "mstate \<Rightarrow> bool" where
  "mask_ok s \<longleftrightarrow> length (hart_phandles s) = MAX_HARTS \<and>
     (\<forall>i < 64. bit (hart_mask s) i \<longrightarrow> i < MAX_HARTS \<and> hart_phandles s ! i \<noteq> 0)"

lemma hart_done_mask:
  assumes "hart_done node st = Inr st'" and "mask_ok (snd st)"
  shows "mask_ok (snd st')"
proof -
  obtain scan s where st: "st = (scan, s)" by (cases st)
  have "mask_ok (hls_init (ucast h) (s\<lparr>hart_phandles := (hart_phandles s)[unat h := p],
      hart_mask := hart_mask s OR push_bit (unat h) 1\<rparr>))" if "0 < p" "sint h < int MAX_HARTS" "0 \<le> sint h" for h p :: u32
  proof -
    have "unat h < MAX_HARTS" using that(2) sint_nonneg_unat [OF that(3)] by linarith
    then show ?thesis
      using assms(2) that(1) by (auto simp: st mask_ok_def hls_init_def update_hls_def bit_simps nth_list_update)
  qed
  then show ?thesis
    using assms by (auto simp: st hart_done_def Let_def kassert_eq_Inr split: if_splits)
qed

lemma mask_ok_mem [simp]: "mask_ok (s\<lparr>m_mem := m\<rparr>) = mask_ok s"
  by (simp add: mask_ok_def)

interpretation hart_scanner: scan_keeps
  "\<lparr>cb_open = Some hart_open, cb_prop = hart_prop, cb_done = Some hart_done, cb_close = Some hart_close\<rparr>" "\<lambda>st. mask_ok (snd st)"
  by unfold_locales
    (auto simp: hart_open_def hart_prop_def hart_close_def Let_def kassert_eq_Inr bind_res_eq_Inr
      split: if_splits dest: hart_done_mask)

text \<open>
  (C24) Whatever the device tree says, \<^verbatim>\<open>query_harts\<close> marks only harts below \<^verbatim>\<open>MAX_HARTS\<close> as present, gives
  each of them the non-zero handle of its interrupt controller, and fails unless the hart that runs it is
  at most the highest marked one.
\<close>

theorem query_harts_mask:
  assumes "query_harts env fuel fdt s = Inr s'" and "mask_ok s"
  shows "mask_ok s' \<and> drop_bit (unat (e_hartid env)) (hart_mask s') \<noteq> 0"
  using assms hart_scanner.fdt_scan_keeps
  by (fastforce simp: query_harts_def bind_res_eq_Inr kassert_eq_Inr split: if_splits)

text \<open>A blob with one hart, number 2, whose interrupt controller has handle 7.\<close>

definition hart_blob :: "u8 list list" where
  "hart_blob =
     [[208, 13, 254, 237, 0, 0, 0, 249, 0, 0, 0, 40, 0, 0, 0, 172],
      [0, 0, 0, 40, 0, 0, 0, 17, 0, 0, 0, 16, 0, 0, 0, 0],
      [0, 0, 0, 77, 0, 0, 0, 132, 0, 0, 0, 1, 0, 0, 0, 0],
      [0, 0, 0, 3, 0, 0, 0, 4, 0, 0, 0, 62, 0, 0, 0, 1],
      [0, 0, 0, 1, 99, 112, 117, 0, 0, 0, 0, 3, 0, 0, 0, 4],
      [0, 0, 0, 0, 99, 112, 117, 0, 0, 0, 0, 3, 0, 0, 0, 4],
      [0, 0, 0, 12, 0, 0, 0, 2, 0, 0, 0, 1, 105, 99, 0, 0],
      [0, 0, 0, 3, 0, 0, 0, 0, 0, 0, 0, 16, 0, 0, 0, 3],
      [0, 0, 0, 4, 0, 0, 0, 37, 0, 0, 0, 1, 0, 0, 0, 3],
      [0, 0, 0, 4, 0, 0, 0, 54, 0, 0, 0, 7, 0, 0, 0, 2],
      [0, 0, 0, 2, 0, 0, 0, 2, 0, 0, 0, 9, 100, 101, 118, 105],
      [99, 101, 95, 116, 121, 112, 101, 0, 114, 101, 103, 0, 105, 110, 116, 101],
      [114, 114, 117, 112, 116, 45, 99, 111, 110, 116, 114, 111, 108, 108, 101, 114],
      [0, 35, 105, 110, 116, 101, 114, 114, 117, 112, 116, 45, 99, 101, 108, 108],
      [115, 0, 112, 104, 97, 110, 100, 108, 101, 0, 35, 97, 100, 100, 114, 101],
      [115, 115, 45, 99, 101, 108, 108, 115, 0, 0, 0, 0, 0, 0, 0, 0]]"

definition hart_blob_mem :: mem where
  "hart_blob_mem a = (let i = unat (a - 0x1000) in if i < 256 then hart_blob ! (i div 16) ! (i mod 16) else 0)"

definition sample_env :: menv where
  "sample_env = \<lparr>e_dev = (\<lambda>_ _. 0), e_warl = (\<lambda>_ v. v), e_polls = 0, e_hartid = 2, e_tohost = 0, e_fromhost = 0,
     e_mem_done = 0, e_payload_start = 0, e_payload_end = 0, e_stack_top = 0, e_uload = (\<lambda>_. None),
     e_ustore = (\<lambda>_. None), e_ufetch = (\<lambda>_. None), e_misaligned = False, e_pmp = True\<rparr>"

lemma hart_blob_run:
  "case query_harts sample_env 40 0x1000 (reset_state hart_blob_mem) of
     Inl _ \<Rightarrow> False
   | Inr s \<Rightarrow> hart_mask s = 4 \<and> hart_phandles s = [0, 0, 7, 0, 0, 0, 0, 0]"
  by code_simp

lemma query_harts_mask_witness:
  "\<exists>s. query_harts sample_env 40 0x1000 (reset_state hart_blob_mem) = Inr s \<and> mask_ok s \<and> hart_mask s = 4"
proof -
  obtain s where s: "query_harts sample_env 40 0x1000 (reset_state hart_blob_mem) = Inr s" "hart_mask s = 4"
    using hart_blob_run by (cases "query_harts sample_env 40 0x1000 (reset_state hart_blob_mem)") auto
  moreover have "mask_ok (reset_state hart_blob_mem)" by (simp add: mask_ok_def reset_state_def)
  ultimately show ?thesis using query_harts_mask [OF s(1)] by blast
qed

end
