(* ===== verification/M_Trap.thy ===== *)
theory M_Trap
  imports Fdt_Scans
begin

text \<open>
  Traps into machine mode, \<^verbatim>\<open>machine/mtrap.c\<close> and the accesses of \<^verbatim>\<open>machine/unprivileged_memory.h\<close>: the
  calls of the supervisor (\<^verbatim>\<open>mcall_trap\<close>), interrupts between harts, power off, and the redirection of a
  trap to the supervisor.

  A handler works on the registers saved in the trap frame, a list of 32 words, and the state of the
  firmware. It ends in one of three ways: it returns; an access to the memory of the interrupted
  program faults, and the fault is redirected to the supervisor, which abandons the handler; or the
  hart stops for good.
\<close>

section \<open>Constants of encoding.h and mcall.h\<close>

abbreviation (input) MSTATUS_SIE :: u64 where "MSTATUS_SIE \<equiv> 0x00000002"
abbreviation (input) MSTATUS_MIE :: u64 where "MSTATUS_MIE \<equiv> 0x00000008"
abbreviation (input) MSTATUS_SPIE :: u64 where "MSTATUS_SPIE \<equiv> 0x00000020"
abbreviation (input) MSTATUS_MPIE :: u64 where "MSTATUS_MPIE \<equiv> 0x00000080"
abbreviation (input) MSTATUS_SPP :: u64 where "MSTATUS_SPP \<equiv> 0x00000100"
abbreviation (input) MSTATUS_MPP :: u64 where "MSTATUS_MPP \<equiv> 0x00001800"
abbreviation (input) MSTATUS_MPRV :: u64 where "MSTATUS_MPRV \<equiv> 0x00020000"

abbreviation (input) MIP_SSIP :: u64 where "MIP_SSIP \<equiv> 0x2"
abbreviation (input) MIP_STIP :: u64 where "MIP_STIP \<equiv> 0x20"
abbreviation (input) MIP_MTIP :: u64 where "MIP_MTIP \<equiv> 0x80"

abbreviation (input) CAUSE_FETCH_ACCESS :: u64 where "CAUSE_FETCH_ACCESS \<equiv> 0x1"
abbreviation (input) CAUSE_MISALIGNED_LOAD :: u64 where "CAUSE_MISALIGNED_LOAD \<equiv> 0x4"
abbreviation (input) CAUSE_LOAD_ACCESS :: u64 where "CAUSE_LOAD_ACCESS \<equiv> 0x5"
abbreviation (input) CAUSE_MISALIGNED_STORE :: u64 where "CAUSE_MISALIGNED_STORE \<equiv> 0x6"
abbreviation (input) CAUSE_STORE_ACCESS :: u64 where "CAUSE_STORE_ACCESS \<equiv> 0x7"
abbreviation (input) CAUSE_LOAD_PAGE_FAULT :: u64 where "CAUSE_LOAD_PAGE_FAULT \<equiv> 0xd"
abbreviation (input) CAUSE_STORE_PAGE_FAULT :: u64 where "CAUSE_STORE_PAGE_FAULT \<equiv> 0xf"

abbreviation (input) SBI_SET_TIMER :: u64 where "SBI_SET_TIMER \<equiv> 0"
abbreviation (input) SBI_CONSOLE_PUTCHAR :: u64 where "SBI_CONSOLE_PUTCHAR \<equiv> 1"
abbreviation (input) SBI_CONSOLE_GETCHAR :: u64 where "SBI_CONSOLE_GETCHAR \<equiv> 2"
abbreviation (input) SBI_CLEAR_IPI :: u64 where "SBI_CLEAR_IPI \<equiv> 3"
abbreviation (input) SBI_SEND_IPI :: u64 where "SBI_SEND_IPI \<equiv> 4"
abbreviation (input) SBI_REMOTE_FENCE_I :: u64 where "SBI_REMOTE_FENCE_I \<equiv> 5"
abbreviation (input) SBI_REMOTE_SFENCE_VMA :: u64 where "SBI_REMOTE_SFENCE_VMA \<equiv> 6"
abbreviation (input) SBI_REMOTE_SFENCE_VMA_ASID :: u64 where "SBI_REMOTE_SFENCE_VMA_ASID \<equiv> 7"
abbreviation (input) SBI_SHUTDOWN :: u64 where "SBI_SHUTDOWN \<equiv> 8"

abbreviation (input) IPI_SOFT :: u32 where "IPI_SOFT \<equiv> 0x1"
abbreviation (input) IPI_FENCE_I :: u32 where "IPI_FENCE_I \<equiv> 0x2"
abbreviation (input) IPI_SFENCE_VMA :: u32 where "IPI_SFENCE_VMA \<equiv> 0x4"
abbreviation (input) IPI_HALT :: u32 where "IPI_HALT \<equiv> 0x8"

abbreviation (input) ENOSYS :: u64 where "ENOSYS \<equiv> 38"

section \<open>Handlers\<close>

datatype 'a outcome = Done 'a | Redirected | Halted

type_synonym tstate = "u64 list \<times> mstate"
type_synonym 'a run = "('a outcome \<times> tstate) res"

definition bind_run :: "'a run \<Rightarrow> ('a \<Rightarrow> tstate \<Rightarrow> 'b run) \<Rightarrow> 'b run" where
  "bind_run m f =
     bind_res m (\<lambda>(r, st). case r of Done x \<Rightarrow> f x st | Redirected \<Rightarrow> Inr (Redirected, st) | Halted \<Rightarrow> Inr (Halted, st))"

definition on_state :: "(mstate \<Rightarrow> ('a \<times> mstate) res) \<Rightarrow> tstate \<Rightarrow> 'a run" where
  "on_state f st = bind_res (f (snd st)) (\<lambda>(x, s). Inr (Done x, (fst st, s)))"

section \<open>Redirecting a trap to the supervisor\<close>

definition redirect_trap :: "menv \<Rightarrow> u64 \<Rightarrow> u64 \<Rightarrow> u64 \<Rightarrow> mstate \<Rightarrow> mstate" where
  "redirect_trap env epc mstatus badaddr s =
     (let s = write_csr env Sbadaddr badaddr s;
          s = write_csr env Sepc epc s;
          s = write_csr env Scause (read_csr Mcause s) s;
          s = write_csr env Mepc (read_csr Stvec s) s;
          new_mstatus = mstatus AND NOT (MSTATUS_SPP OR MSTATUS_SPIE OR MSTATUS_SIE);
          mpp_s = MSTATUS_MPP AND (drop_bit 1 MSTATUS_MPP);
          new_mstatus = new_mstatus OR ((mstatus * (MSTATUS_SPIE div MSTATUS_SIE)) AND MSTATUS_SPIE);
          new_mstatus = new_mstatus OR ((mstatus div (mpp_s div MSTATUS_SPP)) AND MSTATUS_SPP);
          new_mstatus = new_mstatus OR mpp_s
      in write_csr env Mstatus new_mstatus s)"

definition pmp_trap :: "menv \<Rightarrow> u64 \<Rightarrow> u64 \<Rightarrow> tstate \<Rightarrow> unit run" where
  "pmp_trap env mcause mepc st =
     Inr (Redirected, (fst st, redirect_trap env mepc (read_csr Mstatus (snd st)) (read_csr Mbadaddr (snd st)) (snd st)))"

definition bad_trap :: "u64 \<Rightarrow> mstate \<Rightarrow> 'b res" where
  "bad_trap mepc s = Inl (Panic ''machine mode: unhandlable trap'')"

text \<open>\<^verbatim>\<open>frame\<close> holds the registers of the interrupted firmware, \<^verbatim>\<open>regs\<close> those of the program it serves.\<close>

definition machine_page_fault :: "menv \<Rightarrow> u64 list \<Rightarrow> u64 \<Rightarrow> tstate \<Rightarrow> 'a run" where
  "machine_page_fault env frame mepc st =
     (if read_csr Mstatus (snd st) AND MSTATUS_MPRV \<noteq> 0
      then Inr (Redirected, (fst st, redirect_trap env (frame ! 12) (frame ! 13) (read_csr Mbadaddr (snd st)) (snd st)))
      else bad_trap mepc (snd st))"

definition trap_from_machine_mode :: "menv \<Rightarrow> u64 list \<Rightarrow> u64 \<Rightarrow> tstate \<Rightarrow> 'a run" where
  "trap_from_machine_mode env frame mepc st =
     (if read_csr Mcause (snd st) \<in> set [CAUSE_LOAD_PAGE_FAULT, CAUSE_STORE_PAGE_FAULT, CAUSE_FETCH_ACCESS,
            CAUSE_LOAD_ACCESS, CAUSE_STORE_ACCESS]
      then machine_page_fault env frame mepc st
      else bad_trap mepc (snd st))"

section \<open>Memory of the interrupted program\<close>

text \<open>
  The accesses run with MPRV set and \<^verbatim>\<open>a2\<close>, \<^verbatim>\<open>a3\<close> holding the program counter and status to report. A
  fault traps from machine mode to machine mode. \<^verbatim>\<open>pc\<close>, the address of the instruction in the
  firmware, is only printed.
\<close>

definition hw_trap :: "menv \<Rightarrow> u64 \<Rightarrow> u64 \<Rightarrow> u64 \<Rightarrow> tstate \<Rightarrow> 'a run" where
  "hw_trap env cause addr epc st =
     (let s = snd st; mst = read_csr Mstatus s;
          s' = s\<lparr>csrs := (csrs s)(Mcause := cause, Mbadaddr := addr,
                 Mstatus := (mst OR MSTATUS_MPRV OR MSTATUS_MPP) AND NOT (MSTATUS_MIE OR MSTATUS_MPIE))\<rparr>
      in trap_from_machine_mode env ((replicate 32 0)[12 := epc, 13 := mst]) 0 (fst st, s'))"

definition pages :: "(u64 \<Rightarrow> u64 option) \<Rightarrow> nat \<Rightarrow> u64 \<Rightarrow> u64 list option" where
  "pages tr n a = those (map (\<lambda>i. tr (a + of_nat i)) [0..<n])"

text \<open>The address reported for a page fault is that of the first byte of the access that has no translation.\<close>

definition fault_addr :: "(u64 \<Rightarrow> u64 option) \<Rightarrow> nat \<Rightarrow> u64 \<Rightarrow> u64" where
  "fault_addr tr n a = (case find (\<lambda>i. tr (a + of_nat i) = None) [0..<n] of None \<Rightarrow> a | Some i \<Rightarrow> a + of_nat i)"

definition load_u :: "menv \<Rightarrow> nat \<Rightarrow> u64 \<Rightarrow> u64 \<Rightarrow> tstate \<Rightarrow> u64 run" where
  "load_u env n a epc st =
     (if \<not> e_misaligned env \<and> unat a mod n \<noteq> 0 then hw_trap env CAUSE_MISALIGNED_LOAD a epc st
      else case pages (e_uload env) n a of
             None \<Rightarrow> hw_trap env CAUSE_LOAD_PAGE_FAULT (fault_addr (e_uload env) n a) epc st
           | Some ps \<Rightarrow> Inr (Done (le_word (map (m_mem (snd st)) ps)), st))"

definition put_bytes :: "u64 list \<Rightarrow> u8 list \<Rightarrow> mem \<Rightarrow> mem" where
  "put_bytes ps bs m = fold (\<lambda>(p, b) m. m(p := b)) (zip ps bs) m"

definition store_u :: "menv \<Rightarrow> nat \<Rightarrow> u64 \<Rightarrow> u64 \<Rightarrow> u64 \<Rightarrow> tstate \<Rightarrow> unit run" where
  "store_u env n a v epc st =
     (if \<not> e_misaligned env \<and> unat a mod n \<noteq> 0 then hw_trap env CAUSE_MISALIGNED_STORE a epc st
      else case pages (e_ustore env) n a of
             None \<Rightarrow> hw_trap env CAUSE_STORE_PAGE_FAULT (fault_addr (e_ustore env) n a) epc st
           | Some ps \<Rightarrow> Inr (Done (), (fst st, (snd st)\<lparr>m_mem := put_bytes ps (map (byte_of v) [0..<n]) (m_mem (snd st))\<rparr>)))"

section \<open>Interrupts between harts\<close>

definition send_ipi :: "u64 \<Rightarrow> u32 \<Rightarrow> mstate \<Rightarrow> mstate" where
  "send_ipi recipient event s =
     (if (drop_bit (unat recipient) (disabled_hart_mask s)) AND 1 \<noteq> 0 then s
      else let s = update_hls recipient (\<lambda>h. h\<lparr>mipi_pending := mipi_pending h OR event\<rparr>) s
           in dev_write 4 (ipi (hls s recipient)) 1 s)"

text \<open>\<^verbatim>\<open>for (i = 0, m = mask; m; i++, m >>= 1) if (m & 1) ...\<close>\<close>

function mask_loop :: "(u64 \<Rightarrow> 's \<Rightarrow> 's res) \<Rightarrow> u64 \<Rightarrow> u64 \<Rightarrow> 's \<Rightarrow> 's res" where
  "mask_loop body i m s =
     (if m = 0 then Inr s
      else bind_res (if m AND 1 \<noteq> 0 then body i s else Inr s) (mask_loop body (i + 1) (drop_bit 1 m)))"
  by pat_completeness auto

termination mask_loop
proof (relation "measure (\<lambda>(body, i, m, s). unat m)", goal_cases)
  case (2 body i m s s')
  then have "0 < unat m" by (simp add: word_neq_0_unat)
  then show ?case by (simp add: drop_bit_Suc unat_div_distrib)
qed simp

declare mask_loop.simps [simp del]

text \<open>\<^verbatim>\<open>while (*OTHER_HLS(i)->ipi) incoming_ipi |= atomic_swap(HLS()->ipi, 0);\<close>\<close>

fun wait_ipi :: "menv \<Rightarrow> nat \<Rightarrow> u64 \<Rightarrow> u32 \<times> mstate \<Rightarrow> (u32 \<times> mstate) res" where
  "wait_ipi env 0 i st = Inl OutOfFuel"
| "wait_ipi env (Suc k) i (incoming, s) =
     (let (v, s) = dev_read env 4 (ipi (hls s i)) s
      in if v \<noteq> 0 then
           let a = ipi (HLS env s); old = take_bit 32 (e_dev env (events s) a);
               s = s\<lparr>events := events s @ [Amo_Swap a 0 old]\<rparr>
           in wait_ipi env k i (incoming OR ucast old, s)
         else Inr (incoming, s))"

definition send_all :: "menv \<Rightarrow> u64 \<Rightarrow> u32 \<Rightarrow> mstate \<Rightarrow> mstate res" where
  "send_all env harts event s =
     bind_res (mask_loop (\<lambda>i s. Inr (send_ipi i event s)) 0 harts s)
       (\<lambda>s. if event = IPI_SOFT then Inr s
            else bind_res (mask_loop (wait_ipi env (e_polls env)) 0 harts (0, s))
                   (\<lambda>(incoming, s). Inr (if incoming \<noteq> 0 then dev_write 4 (ipi (HLS env s)) (ucast incoming) s else s)))"

definition send_ipi_many :: "menv \<Rightarrow> u64 \<Rightarrow> u32 \<Rightarrow> tstate \<Rightarrow> unit run" where
  "send_ipi_many env pmask event st =
     bind_run (if pmask \<noteq> 0 then load_u env 8 pmask (read_csr Mepc (snd st)) st else Inr (Done (-1), st))
       (\<lambda>w st. on_state (\<lambda>s. bind_res (send_all env (hart_mask s AND w) event s) (\<lambda>s. Inr ((), s))) st)"

section \<open>Power off\<close>

definition poweroff :: "menv \<Rightarrow> u16 \<Rightarrow> tstate \<Rightarrow> 'a run" where
  "poweroff env code st =
     bind_res (printm env (lit ''Power off'' @ crlf) [] (snd st))
       (\<lambda>s. let s = finisher_exit code s
        in if htif s \<noteq> 0 then htif_poweroff env s
           else bind_run (send_ipi_many env 0 IPI_HALT (fst st, s)) (\<lambda>_ st. Inr (Halted, st)))"

section \<open>Calls of the supervisor\<close>

definition mcall_clear_ipi :: "menv \<Rightarrow> mstate \<Rightarrow> (u64 \<times> mstate) res" where
  "mcall_clear_ipi env s = (let (v, s) = clear_csr env Mip MIP_SSIP s in Inr (v AND MIP_SSIP, s))"

definition mcall_shutdown :: "menv \<Rightarrow> tstate \<Rightarrow> u64 run" where
  "mcall_shutdown env st = poweroff env 0 st"

definition mcall_set_timer :: "menv \<Rightarrow> u64 \<Rightarrow> mstate \<Rightarrow> (u64 \<times> mstate) res" where
  "mcall_set_timer env t s =
     (let s = dev_write 8 (timecmp (HLS env s)) t s;
          (_, s) = clear_csr env Mip MIP_STIP s;
          s = set_csr env Mie MIP_MTIP s
      in Inr (0, s))"

definition mcall_trap :: "menv \<Rightarrow> u64 \<Rightarrow> u64 \<Rightarrow> tstate \<Rightarrow> unit run" where
  "mcall_trap env mcause mepc st =
     (let st = (fst st, write_csr env Mepc (mepc + 4) (snd st));
          n = fst st ! 17; arg0 = fst st ! 10;
          send = (\<lambda>ipi_type. bind_run (send_ipi_many env arg0 ipi_type st) (\<lambda>_ st. Inr (Done 0, st)))
      in bind_run
           (if n = SBI_CONSOLE_PUTCHAR then on_state (mcall_console_putchar env (ucast arg0)) st
            else if n = SBI_CONSOLE_GETCHAR then on_state (mcall_console_getchar env) st
            else if n = SBI_SEND_IPI then send IPI_SOFT
            else if n = SBI_REMOTE_SFENCE_VMA \<or> n = SBI_REMOTE_SFENCE_VMA_ASID then send IPI_SFENCE_VMA
            else if n = SBI_REMOTE_FENCE_I then send IPI_FENCE_I
            else if n = SBI_CLEAR_IPI then on_state (mcall_clear_ipi env) st
            else if n = SBI_SHUTDOWN then mcall_shutdown env st
            else if n = SBI_SET_TIMER then on_state (mcall_set_timer env arg0) st
            else Inr (Done (- ENOSYS), st))
           (\<lambda>retval st. Inr (Done (), ((fst st)[10 := retval], snd st))))"

end
