(* ===== verification/M_Calls.thy ===== *)
theory M_Calls
  imports M_Trap
begin

text \<open>
  What the trap handlers guarantee: how a trap is handed to the supervisor, which registers a call of
  the supervisor changes, and which harts an interrupt reaches.
\<close>

section \<open>Redirection\<close>

text \<open>
  What the privileged architecture promises of the registers the firmware writes: the exception program
  counters keep even addresses, the supervisor's cause register keeps the standard exception codes, its
  address register keeps valid addresses, and the fields of the status register for interrupts, previous
  modes and \<^verbatim>\<open>MPRV\<close> keep what is written unless the previous mode is the reserved one; the other fields
  keep a value the register already had.
\<close>

definition sv39 :: "u64 \<Rightarrow> bool" where
  "sv39 a \<longleftrightarrow> signed_take_bit 38 a = a"

definition trap_fields :: "nat set" where
  "trap_fields = {1, 3, 5, 7, 8, 11, 12, 17}"

definition trap_csrs :: "menv \<Rightarrow> bool" where
  "trap_csrs env \<longleftrightarrow>
     (\<forall>v. even v \<longrightarrow> e_warl env Mepc v = v \<and> e_warl env Sepc v = v) \<and>
     (\<forall>v < 16. e_warl env Scause v = v) \<and>
     (\<forall>v. sv39 v \<longrightarrow> e_warl env Sbadaddr v = v) \<and>
     (\<forall>v. v AND MSTATUS_MPP \<noteq> 0x1000 \<longrightarrow> (\<forall>i \<in> trap_fields. bit (e_warl env Mstatus v) i \<longleftrightarrow> bit v i)) \<and>
     (\<forall>v w. e_warl env Mstatus w = w \<longrightarrow> (\<forall>i. i \<notin> trap_fields \<longrightarrow> (bit v i \<longleftrightarrow> bit w i)) \<longrightarrow>
        (\<forall>i. i \<notin> trap_fields \<longrightarrow> (bit (e_warl env Mstatus v) i \<longleftrightarrow> bit v i)))"

lemma csrs_write_csr [simp]: "csrs (write_csr env c v s) = (csrs s)(c := e_warl env c v)"
  by (simp add: write_csr_def)

lemma redirect_csrs:
  "csrs (redirect_trap env epc mst bad s) Sepc = e_warl env Sepc epc"
  "csrs (redirect_trap env epc mst bad s) Scause = e_warl env Scause (csrs s Mcause)"
  "csrs (redirect_trap env epc mst bad s) Sbadaddr = e_warl env Sbadaddr bad"
  "csrs (redirect_trap env epc mst bad s) Mepc = e_warl env Mepc (csrs s Stvec)"
  by (simp_all add: redirect_trap_def Let_def read_csr_def)

lemma bit_push_1: "bit (push_bit k 1 :: 'a::len word) n \<longleftrightarrow> n = k \<and> k < LENGTH('a)"
  by (auto simp: bit_simps)

text \<open>The status word the redirection writes.\<close>

definition redirect_word :: "u64 \<Rightarrow> u64" where
  "redirect_word mst =
     (mst AND NOT (push_bit 1 1 OR push_bit 5 1 OR push_bit 8 1)) OR (push_bit 4 mst AND push_bit 5 1)
      OR (drop_bit 3 mst AND push_bit 8 1) OR push_bit 11 1"

lemma bit_redirect_word:
  "bit (redirect_word mst) n \<longleftrightarrow>
    (if n = 1 then False else if n = 5 then bit mst 1 else if n = 8 then bit mst 11 else if n = 11 then True else bit mst n)"
proof -
  have len: "bit mst n \<Longrightarrow> n < 64" using bit_imp_le_length [of mst n] by simp
  consider "n = 1" | "n = 5" | "n = 8" | "n = 11" | "n \<noteq> 1" "n \<noteq> 5" "n \<noteq> 8" "n \<noteq> 11" by blast
  then show ?thesis
    unfolding redirect_word_def bit_or_iff bit_and_iff bit_not_iff bit_push_1 bit_push_bit_iff bit_drop_bit_eq o_apply
    by cases (use len in \<open>auto simp: possible_bit_word bit_1_iff\<close>)
qed

lemma redirect_mstatus:
  assumes "trap_csrs env" and "e_warl env Mstatus mst = mst"
  shows "csrs (redirect_trap env epc mst bad s) Mstatus = redirect_word mst"
proof -
  have shifts: "mst * 16 = push_bit 4 mst" "mst div 8 = drop_bit 3 mst"
    by (simp_all add: push_bit_eq_mult drop_bit_eq_div)
  let ?w = "redirect_word mst"
  have "bit (?w AND MSTATUS_MPP) 11" by (simp add: bit_and_iff bit_redirect_word)
  moreover have "\<not> bit (0x1000 :: u64) 11" by simp
  ultimately have "?w AND MSTATUS_MPP \<noteq> 0x1000" by metis
  then have "\<forall>i \<in> trap_fields. bit (e_warl env Mstatus ?w) i \<longleftrightarrow> bit ?w i"
    using assms(1) unfolding trap_csrs_def by blast
  moreover have "bit ?w i \<longleftrightarrow> bit mst i" if "i \<notin> trap_fields" for i
    using that by (simp add: bit_redirect_word trap_fields_def)
  then have "\<forall>i. i \<notin> trap_fields \<longrightarrow> (bit (e_warl env Mstatus ?w) i \<longleftrightarrow> bit ?w i)"
    using assms unfolding trap_csrs_def by blast
  ultimately have "e_warl env Mstatus ?w = ?w" by (intro bit_eqI) blast
  then show ?thesis by (simp add: redirect_trap_def redirect_word_def Let_def shifts or.assoc)
qed

text \<open>The state in which the redirection of a faulting load starts.\<close>

definition load_faulted :: "u64 \<Rightarrow> mstate \<Rightarrow> mstate" where
  "load_faulted a s = s\<lparr>csrs := (csrs s)(Mcause := CAUSE_LOAD_PAGE_FAULT, Mbadaddr := a,
      Mstatus := (csrs s Mstatus OR MSTATUS_MPRV OR MSTATUS_MPP) AND NOT (MSTATUS_MIE OR MSTATUS_MPIE))\<rparr>"

lemma fault_addr_first:
  assumes "pages tr n a = None"
  obtains i where "i < n" and "tr (a + of_nat i) = None" and "\<forall>j < i. tr (a + of_nat j) \<noteq> None"
    and "fault_addr tr n a = a + of_nat i"
proof -
  have those: "those xs = None \<Longrightarrow> \<exists>i < length xs. xs ! i = None" for xs :: "u64 option list"
    by (induction xs) (fastforce split: option.splits simp: nth_Cons')+
  obtain k where k: "k < n" "tr (a + of_nat k) = None"
    using those [OF assms [unfolded pages_def]] by auto
  show ?thesis
  proof (cases "find (\<lambda>i. tr (a + of_nat i) = None) [0..<n]")
    case None
    with k show ?thesis by (auto simp: find_None_iff)
  next
    case (Some i)
    then obtain l where "l < n" "tr (a + of_nat l) = None" "i = l" "\<forall>j < l. tr (a + of_nat j) \<noteq> None"
      by (auto simp: find_Some_iff)
    with Some that show ?thesis by (simp add: fault_addr_def)
  qed
qed

lemma load_u_fault:
  assumes "pages (e_uload env) n a = None" and "e_misaligned env \<or> unat a mod n = 0"
  defines "b \<equiv> fault_addr (e_uload env) n a"
  shows "load_u env n a epc (regs, s) = Inr (Redirected, (regs, redirect_trap env epc (csrs s Mstatus) b (load_faulted b s)))"
proof -
  have g: "\<not> (\<not> e_misaligned env \<and> unat a mod n \<noteq> 0)" using assms(2) by auto
  have "bit (csrs (load_faulted b s) Mstatus AND MSTATUS_MPRV) 17" by (simp add: load_faulted_def bit_simps)
  then have "csrs (load_faulted b s) Mstatus AND MSTATUS_MPRV \<noteq> 0" by (metis bit_0_eq bot_apply bot_bool_def)
  then show ?thesis
    using assms(1) unfolding load_u_def if_not_P [OF g] b_def
    by (simp add: load_faulted_def hw_trap_def Let_def read_csr_def trap_from_machine_mode_def machine_page_fault_def)
qed

lemma redirect_frame:
  "m_mem (redirect_trap env epc mst a s) = m_mem s" "events (redirect_trap env epc mst a s) = events s"
  "hls (redirect_trap env epc mst a s) = hls s"
  by (simp_all add: redirect_trap_def Let_def write_csr_def)

text \<open>
  (C18) A load on behalf of a program that faults in its memory is handed to the supervisor as if the program
  had done it: the program counter and cause are those of the program, the address is that of the first
  byte without a translation (where the register can hold it), the previous mode and interrupt enable
  move to their supervisor fields, interrupts of the supervisor are off, every other field of the status
  is kept, the hart goes on at the trap vector of the supervisor, and neither registers nor memory nor
  devices change. The program counter and the vector are even, as all instruction addresses are.
\<close>

theorem load_fault_delegated:
  assumes "trap_csrs env" and "e_warl env Mstatus (csrs s Mstatus) = csrs s Mstatus" and "even epc" and "even (csrs s Stvec)"
    and "pages (e_uload env) n a = None" and "e_misaligned env \<or> unat a mod n = 0"
  shows "\<exists>s' k. k < n \<and> e_uload env (a + of_nat k) = None \<and> (\<forall>j < k. e_uload env (a + of_nat j) \<noteq> None) \<and>
      load_u env n a epc (regs, s) = Inr (Redirected, (regs, s')) \<and>
      csrs s' Sepc = epc \<and> csrs s' Scause = CAUSE_LOAD_PAGE_FAULT \<and>
      (sv39 (a + of_nat k) \<longrightarrow> csrs s' Sbadaddr = a + of_nat k) \<and> csrs s' Mepc = csrs s Stvec \<and>
      (\<forall>i. bit (csrs s' Mstatus) i \<longleftrightarrow>
         (if i = 1 then False else if i = 5 then bit (csrs s Mstatus) 1 else if i = 8 then bit (csrs s Mstatus) 11
          else if i = 11 then True else bit (csrs s Mstatus) i)) \<and>
      m_mem s' = m_mem s \<and> events s' = events s"
proof -
  obtain k where k: "k < n" "e_uload env (a + of_nat k) = None" "\<forall>j < k. e_uload env (a + of_nat j) \<noteq> None"
    "fault_addr (e_uload env) n a = a + of_nat k" using fault_addr_first [OF assms(5)] by blast
  let ?b = "a + of_nat k"
  let ?r = "redirect_trap env epc (csrs s Mstatus) ?b (load_faulted ?b s)"
  have run: "load_u env n a epc (regs, s) = Inr (Redirected, (regs, ?r))"
    using load_u_fault [OF assms(5,6)] k(4) by simp
  have c: "csrs (load_faulted ?b s) Mcause = CAUSE_LOAD_PAGE_FAULT" "csrs (load_faulted ?b s) Stvec = csrs s Stvec"
    by (simp_all add: load_faulted_def)
  have w: "e_warl env Sepc epc = epc" "e_warl env Mepc (csrs s Stvec) = csrs s Stvec"
    "e_warl env Scause CAUSE_LOAD_PAGE_FAULT = CAUSE_LOAD_PAGE_FAULT" "sv39 ?b \<longrightarrow> e_warl env Sbadaddr ?b = ?b"
    using assms(1,3,4) unfolding trap_csrs_def by auto
  have "csrs ?r Sepc = epc" "csrs ?r Scause = CAUSE_LOAD_PAGE_FAULT" "csrs ?r Mepc = csrs s Stvec"
    "sv39 ?b \<longrightarrow> csrs ?r Sbadaddr = ?b"
    unfolding redirect_csrs c using w by simp_all
  moreover have "m_mem ?r = m_mem s" "events ?r = events s" by (simp_all add: redirect_frame load_faulted_def)
  moreover note redirect_mstatus [OF assms(1,2), of epc ?b "load_faulted ?b s"]
  ultimately show ?thesis using run k(1-3) by (intro exI [of _ ?r] exI [of _ k]) (simp add: bit_redirect_word)
qed

text \<open>
  A hart of which the program may read everything above the first page. Its program counter registers drop
  the lowest bit; its status register has the interrupt, mode and memory privilege fields, reads 2 for the
  width of the lower modes, and makes the reserved previous mode the user's.
\<close>

definition hart_warl :: "csr \<Rightarrow> u64 \<Rightarrow> u64" where
  "hart_warl c v =
     (if c = Mepc \<or> c = Sepc then v AND NOT 1
      else if c = Mstatus
      then ((if v AND MSTATUS_MPP = 0x1000 then v AND NOT MSTATUS_MPP else v) AND 0x7e79aa) OR 0xa00000000
      else v)"

definition call_env :: menv where
  "call_env = \<lparr>e_dev = (\<lambda>_ _. 0), e_warl = hart_warl, e_polls = 1, e_hartid = 0, e_tohost = 0, e_fromhost = 0,
     e_mem_done = 0, e_payload_start = 0, e_payload_end = 0, e_stack_top = 0,
     e_uload = (\<lambda>a. if a < 0x1000 then None else Some a), e_ustore = (\<lambda>a. if a < 0x1000 then None else Some a),
     e_ufetch = Some, e_misaligned = False, e_pmp = True\<rparr>"

lemma even_keeps: "even (v :: u64) \<Longrightarrow> v AND NOT 1 = v"
  by (rule bit_eqI) (auto simp: bit_simps bit_1_iff)

lemma hart_warl_fields:
  assumes "v AND MSTATUS_MPP \<noteq> 0x1000" and "i \<in> trap_fields"
  shows "bit (hart_warl Mstatus v) i \<longleftrightarrow> bit v i"
proof -
  have "bit (0x7e79aa :: u64) i" "\<not> bit (0xa00000000 :: u64) i" using assms(2) by (auto simp: trap_fields_def)
  then show ?thesis using assms(1) by (simp add: hart_warl_def bit_or_iff bit_and_iff)
qed

lemma hart_warl_rest:
  assumes "hart_warl Mstatus w = w" and "\<forall>i. i \<notin> trap_fields \<longrightarrow> (bit v i \<longleftrightarrow> bit w i)" and "i \<notin> trap_fields"
  shows "bit (hart_warl Mstatus v) i \<longleftrightarrow> bit v i"
proof -
  have m: "\<not> bit MSTATUS_MPP i"
  proof -
    have e: "MSTATUS_MPP = push_bit 11 1 OR push_bit 12 1" by simp
    show ?thesis unfolding e bit_or_iff bit_push_1 using assms(3) by (simp add: trap_fields_def)
  qed
  have n: "bit (NOT MSTATUS_MPP) i \<longleftrightarrow> i < 64" unfolding bit_not_iff possible_bit_word using m by simp
  have e: "bit (hart_warl Mstatus x) i \<longleftrightarrow> bit x i \<and> bit (0x7e79aa :: u64) i \<or> bit (0xa00000000 :: u64) i" for x
    using n bit_imp_le_length [of x i] by (auto simp: hart_warl_def bit_or_iff bit_and_iff)
  show ?thesis using e [of w] e [of v] assms by metis
qed

lemma trap_csrs_warl:
  assumes "e_warl env = hart_warl"
  shows "trap_csrs env"
proof -
  have e: "hart_warl Mepc v = v" "hart_warl Sepc v = v" if "even v" for v
    using even_keeps [OF that] by (simp_all add: hart_warl_def)
  have c: "hart_warl Scause v = v" "hart_warl Sbadaddr v = v" for v by (simp_all add: hart_warl_def)
  show ?thesis unfolding trap_csrs_def assms
    by (intro conjI allI impI ballI) (erule e | rule c | erule (1) hart_warl_fields | erule (2) hart_warl_rest)+
qed

lemma call_env [simp]:
  "trap_csrs call_env" "pages (e_uload call_env) 8 0x10 = None"
  "pages (e_uload call_env) 8 0x2000 = Some [0x2000, 0x2001, 0x2002, 0x2003, 0x2004, 0x2005, 0x2006, 0x2007]"
  by (simp_all add: call_env_def trap_csrs_warl pages_def upt_rec)

text \<open>The reset state of such a hart: the width field of its status is set.\<close>

definition hart_state :: "mem \<Rightarrow> mstate" where
  "hart_state m = reset_state m\<lparr>csrs := (\<lambda>c. if c = Mstatus then 0xa00000000 else 0)\<rparr>"

lemma load_fault_delegated_witness:
  "\<exists>s'. load_u (call_env\<lparr>e_misaligned := True, e_uload := (\<lambda>a. if a < 0x3000 then Some a else None)\<rparr>) 8 0x2ffc 0x80000000
       (replicate 32 0, hart_state (\<lambda>_. 0)) = Inr (Redirected, (replicate 32 0, s')) \<and>
     csrs s' Sepc = 0x80000000 \<and> csrs s' Sbadaddr = 0x3000"
proof -
  let ?env = "call_env\<lparr>e_misaligned := True, e_uload := (\<lambda>a. if a < 0x3000 then Some a else None)\<rparr>"
  have "trap_csrs ?env" by (rule trap_csrs_warl) (simp add: call_env_def)
  moreover have "e_warl ?env Mstatus (csrs (hart_state (\<lambda>_. 0)) Mstatus) = csrs (hart_state (\<lambda>_. 0)) Mstatus"
    by (simp add: call_env_def hart_state_def hart_warl_def)
  moreover have "even (csrs (hart_state (\<lambda>_. 0)) Stvec)" by (simp add: hart_state_def)
  moreover have "pages (e_uload ?env) 8 0x2ffc = None" by (simp add: pages_def upt_rec)
  moreover have "e_misaligned ?env \<or> unat (0x2ffc :: u64) mod 8 = 0" by simp
  ultimately obtain s' k where k: "k < 8" "e_uload ?env (0x2ffc + of_nat k) = None"
      "\<forall>j < k. e_uload ?env (0x2ffc + of_nat j) \<noteq> None"
    and r: "load_u ?env 8 0x2ffc 0x80000000 (replicate 32 0, hart_state (\<lambda>_. 0)) = Inr (Redirected, (replicate 32 0, s'))"
      "csrs s' Sepc = 0x80000000" "sv39 (0x2ffc + of_nat k) \<longrightarrow> csrs s' Sbadaddr = 0x2ffc + of_nat k"
    using load_fault_delegated [of ?env "hart_state (\<lambda>_. 0)" "0x80000000" 8 "0x2ffc" "replicate 32 0"] by auto
  have "k \<in> {0, 1, 2, 3, 4, 5, 6, 7}" using k(1) by auto
  moreover have "\<not> 4 < k" using k(3) by (auto dest!: spec [of _ 4])
  ultimately have "k = 4" using k(2) by auto
  then show ?thesis using r by (auto simp: sv39_def)
qed

section \<open>Which harts an interrupt reaches\<close>

definition bits :: "u64 \<Rightarrow> nat list" where
  "bits m = filter (bit m) [0..<64]"

lemma bits_step: "bits m = (if bit m 0 then [0] else []) @ map Suc (bits (drop_bit 1 m))"
proof -
  have e: "[0..<64] = 0 # map Suc [0..<63]" "[0..<64] = [0..<63] @ [63]"
    using upt_Suc_append [of 0 63] by (simp_all add: map_Suc_upt upt_conv_Cons)
  have "\<not> bit m 64" using bit_imp_le_length [of m 64] by auto
  then have "bits (drop_bit 1 m) = filter (bit (drop_bit 1 m)) [0..<63]"
    unfolding bits_def e(2) by (simp add: bit_drop_bit_eq)
  moreover have "bits m = filter (bit m) (0 # map Suc [0..<63])" unfolding bits_def e(1) ..
  ultimately show ?thesis by (simp add: filter_map o_def bit_drop_bit_eq)
qed

lemma mask_loop_fold:
  "mask_loop (\<lambda>i s. Inr (f i s)) i m s = Inr (fold (\<lambda>j. f (i + of_nat j)) (bits m) s)"
proof (induction m arbitrary: i s rule: measure_induct_rule [where f = unat])
  case (less m)
  show ?case
  proof (cases "m = 0")
    case True
    then show ?thesis by (simp add: mask_loop.simps bits_def)
  next
    case False
    then have "unat (drop_bit 1 m) < unat m" by (simp add: word_neq_0_unat drop_bit_Suc unat_div_distrib)
    note IH = less.IH [OF this]
    have "m AND 1 \<noteq> 0 \<longleftrightarrow> bit m 0" by (simp add: and_one_eq bit_0 odd_iff_mod_2_eq_one)
    then have "mask_loop (\<lambda>i s. Inr (f i s)) i m s =
        mask_loop (\<lambda>i s. Inr (f i s)) (i + 1) (drop_bit 1 m) (if bit m 0 then f i s else s)"
      using False by (subst mask_loop.simps) simp
    then show ?thesis
      unfolding IH by (subst bits_step) (simp add: fold_map o_def add.assoc)
  qed
qed

definition notified :: "mstate \<Rightarrow> nat list \<Rightarrow> u32 \<Rightarrow> mstate" where
  "notified s js event =
     s\<lparr>hls := (\<lambda>i. if i \<in> of_nat ` set js then (hls s i)\<lparr>mipi_pending := mipi_pending (hls s i) OR event\<rparr> else hls s i),
       events := events s @ map (\<lambda>j. Write (ipi (hls s (of_nat j))) 4 1) js\<rparr>"

lemma send_ipi_bit:
  "j < 64 \<Longrightarrow> send_ipi (of_nat j) event s = (if bit (disabled_hart_mask s) j then s else notified s [j] event)"
  by (auto simp: send_ipi_def notified_def update_hls_def dev_write_def Let_def unat_of_nat and_one_eq
      fun_eq_iff mod_2_eq_odd bit_iff_odd_drop_bit intro!: mstate.equality)

lemma notified_Cons: "notified (notified s [j] event) js event = notified s (j # js) event"
  by (auto simp: notified_def fun_eq_iff or.assoc intro!: mstate.equality)

lemma fold_send_ipi:
  "\<forall>j \<in> set js. j < 64 \<Longrightarrow>
   fold (\<lambda>j. send_ipi (of_nat j) event) js s = notified s (filter (\<lambda>j. \<not> bit (disabled_hart_mask s) j) js) event"
proof (induction js arbitrary: s)
  case Nil
  then show ?case by (simp add: notified_def)
next
  case (Cons j js)
  have "disabled_hart_mask (notified s [j] event) = disabled_hart_mask s" by (simp add: notified_def)
  then show ?case using Cons by (simp add: send_ipi_bit notified_Cons)
qed

lemma send_soft:
  "send_all env harts IPI_SOFT s = Inr (notified s (filter (\<lambda>j. \<not> bit (disabled_hart_mask s) j) (bits harts)) IPI_SOFT)"
  using fold_send_ipi [of "bits harts" IPI_SOFT s] by (simp add: send_all_def mask_loop_fold bits_def)

text \<open>
  (C16) \<^verbatim>\<open>SBI_SEND_IPI\<close> with a readable mask reaches exactly the harts that are in the mask, exist and are not
  disabled: each gets the soft interrupt added to its pending events and its interrupt register
  written once, in ascending order, and nothing else happens but the return of 0.
\<close>

theorem send_ipi_reaches:
  assumes "regs ! 17 = SBI_SEND_IPI" and "regs ! 10 \<noteq> 0" and "e_misaligned env \<or> unat (regs ! 10) mod 8 = 0"
    and "pages (e_uload env) 8 (regs ! 10) = Some ps"
  shows "mcall_trap env mcause mepc (regs, s) =
    Inr (Done (), (regs[10 := 0],
      notified (write_csr env Mepc (mepc + 4) s)
        (filter (\<lambda>j. bit (hart_mask s) j \<and> bit (le_word (map (m_mem s) ps) :: u64) j \<and> \<not> bit (disabled_hart_mask s) j) [0..<64])
        IPI_SOFT))"
proof -
  have g: "\<not> (\<not> e_misaligned env \<and> unat (regs ! 10) mod 8 \<noteq> 0)" using assms(3) by auto
  have l: "load_u env 8 (regs ! 10) epc st = Inr (Done (le_word (map (m_mem (snd st)) ps)), st)" for epc st
    using assms(4) unfolding load_u_def if_not_P [OF g] by simp
  show ?thesis
    using assms(1,2)
    by (simp add: mcall_trap_def Let_def send_ipi_many_def l bind_run_def on_state_def send_soft write_csr_def
        bits_def bit_and_iff)
qed

lemma send_ipi_reaches_witness:
  "mcall_trap call_env 9 0x80000000 ((replicate 32 0)[17 := 4, 10 := 0x2000],
       reset_state (\<lambda>a. if a = 0x2000 then 6 else 0)\<lparr>hart_mask := 0xf, disabled_hart_mask := 4\<rparr>) =
     Inr (Done (), ((replicate 32 0)[17 := 4, 10 := 0],
       notified (write_csr call_env Mepc 0x80000004
          (reset_state (\<lambda>a. if a = 0x2000 then 6 else 0)\<lparr>hart_mask := 0xf, disabled_hart_mask := 4\<rparr>)) [1] IPI_SOFT))"
proof -
  let ?m = "\<lambda>a :: u64. if a = 0x2000 then 6 else 0 :: u8"
  have "filter (\<lambda>j. bit (0xf :: u64) j \<and> bit (le_word (map ?m [0x2000, 0x2001, 0x2002, 0x2003, 0x2004, 0x2005, 0x2006, 0x2007]) :: u64) j \<and>
      \<not> bit (4 :: u64) j) [0..<64] = [1]"
    by code_simp
  then show ?thesis
    using send_ipi_reaches [of "(replicate 32 0)[17 := 4, 10 := 0x2000]" call_env
        "[0x2000, 0x2001, 0x2002, 0x2003, 0x2004, 0x2005, 0x2006, 0x2007]" 9 "0x80000000"
        "reset_state ?m\<lparr>hart_mask := 0xf, disabled_hart_mask := 4\<rparr>"]
    by (simp add: reset_state_def list_update_swap)
qed

text \<open>
  (C37) When the mask of an interrupt call lies on an unmapped page, the supervisor sees the page fault with
  the program counter of the instruction after the call: \<^verbatim>\<open>mepc\<close> was advanced before the mask was
  read. Once the page is mapped the call is not repeated, and no hart has been interrupted.
\<close>

theorem ipi_fault_skips_call:
  assumes "trap_csrs env" and "even mepc"
    and "regs ! 17 \<in> {SBI_SEND_IPI, SBI_REMOTE_FENCE_I, SBI_REMOTE_SFENCE_VMA}" and "regs ! 10 \<noteq> 0"
    and "e_misaligned env \<or> unat (regs ! 10) mod 8 = 0" and "pages (e_uload env) 8 (regs ! 10) = None"
  shows "\<exists>s'. mcall_trap env mcause mepc (regs, s) = Inr (Redirected, (regs, s')) \<and>
      csrs s' Sepc = mepc + 4 \<and> csrs s' Scause = CAUSE_LOAD_PAGE_FAULT \<and> hls s' = hls s \<and> events s' = events s"
proof -
  let ?s = "write_csr env Mepc (mepc + 4) s" and ?b = "fault_addr (e_uload env) 8 (regs ! 10)"
  let ?r = "redirect_trap env (mepc + 4) (csrs ?s Mstatus) ?b (load_faulted ?b ?s)"
  have e: "even (mepc + 4)" using assms(2) by simp
  have w: "e_warl env Mepc (mepc + 4) = mepc + 4" "e_warl env Sepc (mepc + 4) = mepc + 4"
    "e_warl env Scause CAUSE_LOAD_PAGE_FAULT = CAUSE_LOAD_PAGE_FAULT"
    using assms(1) e unfolding trap_csrs_def by auto
  have "read_csr Mepc ?s = mepc + 4" using w by (simp add: read_csr_def)
  then have "mcall_trap env mcause mepc (regs, s) = Inr (Redirected, (regs, ?r))"
    using assms(3,4) load_u_fault [OF assms(6,5), of "mepc + 4" regs ?s]
    by (auto simp: mcall_trap_def Let_def send_ipi_many_def bind_run_def)
  moreover have c: "csrs (load_faulted ?b ?s) Mcause = CAUSE_LOAD_PAGE_FAULT" by (simp add: load_faulted_def)
  have "csrs ?r Sepc = mepc + 4" "csrs ?r Scause = CAUSE_LOAD_PAGE_FAULT" unfolding redirect_csrs c using w by simp_all
  moreover have "hls ?r = hls s" "events ?r = events s" by (simp_all add: redirect_frame load_faulted_def write_csr_def)
  ultimately show ?thesis by (intro exI [of _ ?r]) simp
qed

lemma ipi_fault_skips_call_witness:
  "\<exists>s'. mcall_trap call_env 9 0x80000000 ((replicate 32 0)[17 := 4, 10 := 0x10], hart_state (\<lambda>_. 0)) =
       Inr (Redirected, ((replicate 32 0)[17 := 4, 10 := 0x10], s')) \<and> csrs s' Sepc = 0x80000004"
  using ipi_fault_skips_call [of call_env "0x80000000" "(replicate 32 0)[17 := 4, 10 := 0x10]" 9 "hart_state (\<lambda>_. 0)"]
  by auto

section \<open>What a call changes\<close>

text \<open>Writing to the console or reading from it touches nothing but the devices and the lock of the host interface.\<close>

definition console_free :: "(mstate \<Rightarrow> 'b) \<Rightarrow> bool" where
  "console_free f \<longleftrightarrow> (\<forall>s es. f (s\<lparr>events := es\<rparr>) = f s) \<and> (\<forall>s l. f (s\<lparr>htif_lock := l\<rparr>) = f s)"

lemma console_free [simp]: "console_free csrs" "console_free m_mem" "console_free kernel_start" "console_free kernel_end"
  by (simp_all add: console_free_def)

lemma csrs_dev [simp]: "csrs (dev_write n a v s) = csrs s" "csrs (snd (dev_read env n a s)) = csrs s"
  by (simp_all add: dev_write_def dev_read_def Let_def)

lemma free_write: "console_free f \<Longrightarrow> f (dev_write n a v s) = f s"
  by (simp add: console_free_def dev_write_def)

lemma free_read: "dev_read env n a s = (v, s') \<Longrightarrow> console_free f \<Longrightarrow> f s' = f s"
  by (auto simp: console_free_def dev_read_def Let_def)

lemma free_uart_put: "uart_put_loop env k ch s = Inr s' \<Longrightarrow> console_free f \<Longrightarrow> f s' = f s"
  by (induction k arbitrary: s) (fastforce simp: Let_def free_write dev_write_def console_free_def split: prod.splits if_splits dest: free_read)+

lemma free_uart16550_put: "uart16550_put_loop env k ch s = Inr s' \<Longrightarrow> console_free f \<Longrightarrow> f s' = f s"
  by (induction k arbitrary: s) (fastforce simp: Let_def free_write split: prod.splits if_splits dest: free_read)+

lemma free_htif_wait: "htif_wait env k s = Inr s' \<Longrightarrow> console_free f \<Longrightarrow> f s' = f s"
  by (induction k arbitrary: s) (fastforce simp: Let_def free_write split: prod.splits if_splits dest: free_read)+

lemma free_htif_set: "htif_set_tohost env dev cmd data s = Inr s' \<Longrightarrow> console_free f \<Longrightarrow> f s' = f s"
  by (auto simp: htif_set_tohost_def htif_send_def Let_def bind_res_eq_Inr free_write dest: free_htif_wait)

lemma free_htif_fromhost: "htif_get_fromhost env dev cmd s = (d, s') \<Longrightarrow> console_free f \<Longrightarrow> f s' = f s"
  by (auto simp: htif_get_fromhost_def htif_recv_def Let_def free_write split: prod.splits dest!: free_read)

lemma free_locked:
  assumes "htif_locked body s = Inr (r, s')" and "console_free f" and "\<And>s r s'. body s = Inr (r, s') \<Longrightarrow> f s' = f s"
  shows "f s' = f s"
  using assms(1,2) by (auto simp: htif_locked_def bind_res_eq_Inr console_free_def split: if_splits dest!: assms(3))

lemma free_putchar: "mcall_console_putchar env ch s = Inr (r, s') \<Longrightarrow> console_free f \<Longrightarrow> f s' = f s"
  by (auto simp: mcall_console_putchar_def uart_putchar_def uart16550_putchar_def htif_console_putchar_def bind_res_eq_Inr
      split: if_splits dest: free_uart_put free_uart16550_put free_htif_set elim!: free_locked)

lemma free_getchar: "mcall_console_getchar env s = Inr (r, s') \<Longrightarrow> console_free f \<Longrightarrow> f s' = f s"
  by (auto simp: mcall_console_getchar_def uart_getchar_def uart16550_getchar_def htif_console_getchar_def bind_res_eq_Inr Let_def
      split: if_splits prod.splits dest!: free_read free_htif_set free_htif_fromhost elim!: free_locked)

lemmas csrs_dev_read = free_read [where f = csrs, OF _ console_free(1)]
lemmas csrs_putchar = free_putchar [where f = csrs, OF _ console_free(1)]
lemmas csrs_getchar = free_getchar [where f = csrs, OF _ console_free(1)]

lemma csrs_wait_ipi: "wait_ipi env k i st = Inr st' \<Longrightarrow> csrs (snd st') = csrs (snd st)"
proof (induction env k i st rule: wait_ipi.induct)
  case (2 env k i incoming s)
  then show ?case by (fastforce simp: Let_def split: prod.splits if_splits dest: csrs_dev_read)
qed simp

lemma mask_loop_keeps:
  assumes "\<And>i s s'. body i s = Inr s' \<Longrightarrow> f s' = f s"
  shows "mask_loop body i m s = Inr s' \<Longrightarrow> f s' = f s"
proof (induction m arbitrary: i s rule: measure_induct_rule [where f = unat])
  case (less m)
  show ?case
  proof (cases "m = 0")
    case True
    then show ?thesis using less.prems by (simp add: mask_loop.simps)
  next
    case False
    then have "unat (drop_bit 1 m) < unat m" by (simp add: word_neq_0_unat drop_bit_Suc unat_div_distrib)
    from less.IH [OF this] less.prems False assms show ?thesis
      by (subst (asm) mask_loop.simps) (fastforce simp: bind_res_eq_Inr split: if_splits)
  qed
qed

lemma csrs_send_all:
  assumes "send_all env harts event s = Inr s'"
  shows "csrs s' = csrs s"
proof -
  have ipi: "csrs (send_ipi i ev s) = csrs s" for i ev s by (simp add: send_ipi_def Let_def update_hls_def)
  have send: "mask_loop (\<lambda>i s. Inr (send_ipi i ev s)) i m s = Inr s' \<Longrightarrow> csrs s' = csrs s" for i m s s' ev
    by (erule mask_loop_keeps [where f = csrs, rotated]) (auto simp: ipi)
  have await: "mask_loop (wait_ipi env k) i m st = Inr st' \<Longrightarrow> csrs (snd st') = csrs (snd st)" for i m st st' k
    by (erule mask_loop_keeps [where f = "\<lambda>st. csrs (snd st)", rotated]) (auto dest: csrs_wait_ipi)
  show ?thesis
    using assms by (auto simp: send_all_def bind_res_eq_Inr split: if_splits dest!: send await)
qed

lemma bind_run_Done:
  "bind_run m f = Inr (Done y, st') \<longleftrightarrow> (\<exists>x st. m = Inr (Done x, st) \<and> f x st = Inr (Done y, st'))"
proof (cases m)
  case (Inr p)
  then show ?thesis by (cases p; cases "fst p") (auto simp: bind_run_def)
qed (simp add: bind_run_def)

lemma on_state_Done: "on_state f st = Inr (Done x, st') \<longleftrightarrow> f (snd st) = Inr (x, snd st') \<and> fst st' = fst st"
  by (cases st; cases st') (auto simp: on_state_def bind_res_eq_Inr)

lemma hw_trap_Done: "hw_trap env c a epc st \<noteq> Inr (Done x, st')"
  by (simp add: hw_trap_def trap_from_machine_mode_def machine_page_fault_def bad_trap_def Let_def)

lemma load_u_Done: "load_u env n a epc st = Inr (Done x, st') \<Longrightarrow> st' = st"
  by (auto simp: load_u_def hw_trap_Done split: if_splits option.splits)

lemma send_ipi_many_Done:
  "send_ipi_many env p event st = Inr (Done u, st') \<Longrightarrow> fst st' = fst st \<and> csrs (snd st') = csrs (snd st)"
  by (auto simp: send_ipi_many_def bind_run_Done on_state_Done bind_res_eq_Inr split: if_splits
      dest!: load_u_Done dest: csrs_send_all)

lemma poweroff_Done: "poweroff env code st \<noteq> Inr (Done x, st')"
  by (auto simp: poweroff_def bind_res_eq_Inr bind_run_Done htif_poweroff_def Let_def)

text \<open>
  (C17) A call of the supervisor that returns leaves the 32 saved registers a frame of 32 registers in which
  only \<^verbatim>\<open>a0\<close> may differ, resumes after the call instruction, and touches no control register but the
  program counter and the interrupt registers; a call with an unknown number returns \<^verbatim>\<open>-ENOSYS\<close> and does
  nothing else.
\<close>

theorem mcall_trap_frame:
  assumes "mcall_trap env mcause mepc (regs, s) = Inr (Done (), (regs', s'))"
  shows "length regs' = length regs \<and> (\<forall>i. i \<noteq> 10 \<longrightarrow> regs' ! i = regs ! i) \<and>
      csrs s' Mepc = e_warl env Mepc (mepc + 4) \<and> (\<forall>c. c \<notin> {Mepc, Mip, Mie} \<longrightarrow> csrs s' c = csrs s c) \<and>
      (8 < regs ! 17 \<longrightarrow> s' = write_csr env Mepc (mepc + 4) s \<and> regs' = regs[10 := - ENOSYS])"
proof -
  let ?s = "write_csr env Mepc (mepc + 4) s"
  let ?ok = "\<lambda>s'. csrs s' Mepc = e_warl env Mepc (mepc + 4) \<and> (\<forall>c. c \<notin> {Mepc, Mip, Mie} \<longrightarrow> csrs s' c = csrs s c)"
  have clear: "mcall_clear_ipi env ?s = Inr (v, s') \<Longrightarrow> ?ok s'" for v s'
    by (auto simp: mcall_clear_ipi_def clear_csr_def Let_def)
  have timer: "mcall_set_timer env t ?s = Inr (v, s') \<Longrightarrow> ?ok s'" for t v s'
    by (auto simp: mcall_set_timer_def clear_csr_def set_csr_def Let_def)
  have "\<exists>v. regs' = regs[10 := v] \<and> ?ok s' \<and> (8 < regs ! 17 \<longrightarrow> s' = ?s \<and> regs' = regs[10 := - ENOSYS])"
    using assms
    by (auto simp: mcall_trap_def Let_def bind_run_Done on_state_Done mcall_shutdown_def poweroff_Done
        split: if_splits dest!: csrs_putchar csrs_getchar send_ipi_many_Done clear timer)
  then obtain v where "regs' = regs[10 := v]" "?ok s'" "8 < regs ! 17 \<longrightarrow> s' = ?s \<and> regs' = regs[10 := - ENOSYS]"
    by blast
  then show ?thesis by (intro conjI) simp_all
qed

lemma mcall_trap_frame_witness:
  "\<exists>regs' s'. mcall_trap call_env 9 0x80000000 ((replicate 32 0)[17 := 9], reset_state (\<lambda>_. 0)) = Inr (Done (), (regs', s')) \<and>
     regs' = (replicate 32 0)[17 := 9, 10 := - 38] \<and> csrs s' Mepc = 0x80000004"
proof -
  have "mcall_trap call_env 9 0x80000000 ((replicate 32 0)[17 := 9], reset_state (\<lambda>_. 0)) =
      Inr (Done (), ((replicate 32 0)[17 := 9, 10 := - 38], write_csr call_env Mepc 0x80000004 (reset_state (\<lambda>_. 0))))"
    by (simp add: mcall_trap_def Let_def bind_run_def)
  from mcall_trap_frame [OF this] this show ?thesis by (simp add: call_env_def hart_warl_def)
qed

end
