(* ===== verification/M_Boot.thy ===== *)
theory M_Boot
  imports M_Calls Fdt_Safe Fdt_Filter
begin

text \<open>
  Starting the machine: \<^verbatim>\<open>machine/minit.c\<close> and the boot loader \<^verbatim>\<open>bbl/bbl.c\<close>. The first hart reads the device
  tree, wakes the other harts, copies the tree after the payload, filters the copy, and enters the
  payload in supervisor mode. The configuration is the default one: the payload runs in supervisor
  mode, there is no hardware floating point, no logo is printed; whether the tree is printed is an
  argument.
\<close>

abbreviation (input) MSTATUS_FS :: u64 where "MSTATUS_FS \<equiv> 0x00006000"
abbreviation (input) MIP_MSIP :: u64 where "MIP_MSIP \<equiv> 0x8"
abbreviation (input) MIP_SEIP :: u64 where "MIP_SEIP \<equiv> 0x200"
abbreviation (input) PRV_S :: u64 where "PRV_S \<equiv> 1"
abbreviation (input) MENTRY_FRAME_SIZE :: u64 where "MENTRY_FRAME_SIZE \<equiv> 32 * 8 + 8 * 32 + 64"

definition MEGAPAGE_SIZE :: u64 where
  "MEGAPAGE_SIZE = push_bit RISCV_PGLEVEL_BITS RISCV_PGSIZE"

section \<open>Setting up a hart\<close>

definition supports_extension :: "char \<Rightarrow> mstate \<Rightarrow> bool" where
  "supports_extension ext s \<longleftrightarrow> read_csr Misa s AND push_bit (of_char ext - of_char CHR ''A'') 1 \<noteq> 0"

definition mstatus_init :: "menv \<Rightarrow> mstate \<Rightarrow> mstate" where
  "mstatus_init env s =
     (let s = if supports_extension CHR ''D'' s \<or> supports_extension CHR ''F'' s then write_csr env Mstatus MSTATUS_FS s else s;
          s = if supports_extension CHR ''S'' s then write_csr env Scounteren (-1) s else s;
          s = write_csr env Mcounteren (-1) s;
          s = write_csr env Mie MIP_MSIP s
      in if supports_extension CHR ''S'' s then write_csr env Sptbr 0 s else s)"

definition delegate_traps :: "menv \<Rightarrow> mstate \<Rightarrow> mstate res" where
  "delegate_traps env s =
     (if \<not> supports_extension CHR ''S'' s then Inr s
      else let interrupts = MIP_SSIP OR MIP_STIP OR MIP_SEIP;
               exceptions = push_bit 0 1 OR push_bit 12 1 OR push_bit 3 1 OR push_bit 13 1 OR push_bit 15 1 OR push_bit 8 1;
               s = write_csr env Mideleg interrupts s;
               s = write_csr env Medeleg exceptions s
           in kassert (read_csr Mideleg s = interrupts) (kassert (read_csr Medeleg s = exceptions) (Inr s)))"

definition fp_init :: "menv \<Rightarrow> mstate \<Rightarrow> mstate res" where
  "fp_init env s =
     (if \<not> supports_extension CHR ''D'' s \<and> \<not> supports_extension CHR ''F'' s then Inr s
      else kassert (read_csr Mstatus s AND MSTATUS_FS \<noteq> 0)
             (let fd_mask = push_bit 5 1 OR push_bit 3 1; (_, s) = clear_csr env Misa fd_mask s
              in kassert (read_csr Misa s AND fd_mask = 0) (Inr s)))"

definition memory_init :: "mstate \<Rightarrow> mstate" where
  "memory_init s = s\<lparr>mem_size := mem_size s div MEGAPAGE_SIZE * MEGAPAGE_SIZE\<rparr>"

definition hart_init :: "menv \<Rightarrow> mstate \<Rightarrow> mstate res" where
  "hart_init env s = bind_res (fp_init env (mstatus_init env s)) (delegate_traps env)"

definition plic_init :: "mstate \<Rightarrow> mstate" where
  "plic_init s = fold (\<lambda>i s. dev_write 4 (plic_priorities s + 4 * of_nat i) 1 s) [1..<Suc (unat (plic_ndevs s))] s"

definition ie_words :: "mstate \<Rightarrow> u64" where
  "ie_words s = plic_ndevs s div 8 + 1"

definition hart_plic_init :: "menv \<Rightarrow> mstate \<Rightarrow> mstate" where
  "hart_plic_init env s =
     (let s = dev_write 4 (ipi (HLS env s)) 0 s;
          s = dev_write 8 (timecmp (HLS env s)) (-1) s;
          s = write_csr env Mip 0 s
      in if plic_ndevs s = 0 then s
         else let s = fold (\<lambda>i s. if plic_s_ie (HLS env s) \<noteq> 0
                                 then dev_write 8 (plic_s_ie (HLS env s) + 8 * of_nat i) (-1) s else s)
                        [0..<unat (ie_words s)] s;
                  s = dev_write 4 (plic_m_thresh (HLS env s)) 1 s
              in if plic_s_thresh (HLS env s) \<noteq> 0 then dev_write 4 (plic_s_thresh (HLS env s)) 0 s else s)"

definition wake_harts :: "mstate \<Rightarrow> mstate" where
  "wake_harts s =
     fold (\<lambda>h s. if drop_bit h (NOT (disabled_hart_mask s) AND hart_mask s) AND 1 \<noteq> 0
                 then dev_write 4 (ipi (hls s (of_nat h))) 1 s else s) [0..<MAX_HARTS] s"

section \<open>Leaving machine mode\<close>

text \<open>Where the hart continues, in which mode, and the two arguments it passes.\<close>

record launch =
  l_pc :: u64
  l_mode :: u64
  l_a0 :: u64
  l_a1 :: u64

text \<open>A hart without memory protection traps at the first write, and the trap vector skips both.\<close>

definition setup_pmp :: "menv \<Rightarrow> mstate \<Rightarrow> mstate" where
  "setup_pmp env s =
     (if e_pmp env then write_csr env Pmpcfg0 (0x18 OR 0x01 OR 0x02 OR 0x04) (write_csr env Pmpaddr0 (-1) s)
      else s\<lparr>csrs := (csrs s)(Mcause := 2,
             Mstatus := (read_csr Mstatus s OR MSTATUS_MPP) AND NOT (MSTATUS_MIE OR MSTATUS_MPIE))\<rparr>)"

definition enter_supervisor_mode :: "menv \<Rightarrow> u64 \<Rightarrow> u64 \<Rightarrow> u64 \<Rightarrow> mstate \<Rightarrow> launch \<times> mstate" where
  "enter_supervisor_mode env fn arg0 arg1 s =
     (let s = setup_pmp env s;
          mstatus = INSERT_FIELD (read_csr Mstatus s) MSTATUS_MPP PRV_S;
          mstatus = INSERT_FIELD mstatus MSTATUS_MPIE 0;
          s = write_csr env Mstatus mstatus s;
          s = write_csr env Mscratch (e_stack_top env - MENTRY_FRAME_SIZE) s;
          p_fcsr = e_stack_top env - MENTRY_FRAME_SIZE;
          s = s\<lparr>m_mem := store64 (m_mem s) p_fcsr 0\<rparr>;
          s = write_csr env Mepc fn s
      in (\<lparr>l_pc = read_csr Mepc s, l_mode = EXTRACT_FIELD (read_csr Mstatus s) MSTATUS_MPP, l_a0 = arg0, l_a1 = arg1\<rparr>, s))"

definition enter_machine_mode :: "menv \<Rightarrow> u64 \<Rightarrow> u64 \<Rightarrow> u64 \<Rightarrow> mstate \<Rightarrow> launch \<times> mstate" where
  "enter_machine_mode env fn arg0 arg1 s =
     (let s = setup_pmp env s;
          s = write_csr env Mstatus (INSERT_FIELD (read_csr Mstatus s) MSTATUS_MPIE 0) s;
          s = write_csr env Mscratch (e_stack_top env - MENTRY_FRAME_SIZE) s
      in (\<lparr>l_pc = fn, l_mode = 3, l_a0 = arg0, l_a1 = arg1\<rparr>, s))"

section \<open>The boot loader\<close>

definition dtb_output :: "menv \<Rightarrow> mstate \<Rightarrow> u64" where
  "dtb_output env s =
     (let e = if kernel_end s \<noteq> 0 then kernel_end s else e_payload_end env
      in (e + MEGAPAGE_SIZE - 1) div MEGAPAGE_SIZE * MEGAPAGE_SIZE)"

definition filter_dtb :: "menv \<Rightarrow> nat \<Rightarrow> u64 \<Rightarrow> mstate \<Rightarrow> mstate res" where
  "filter_dtb env fuel source s =
     (let dest = dtb_output env s
      in bind_res (memcpy (m_mem s) dest source (ucast (fdt_size (m_mem s) source)))
           (\<lambda>(_, m). bind_res (filter_harts env fuel dest (s\<lparr>m_mem := m\<rparr>))
              (\<lambda>s. bind_res (filter_plic fuel dest s)
                 (\<lambda>s. bind_res (filter_compat fuel dest (lit ''riscv,clint0'') s)
                    (filter_compat fuel dest (lit ''riscv,debug-013''))))))"

text \<open>A hart that finds no entry point waits for another to set it, one that is masked waits for ever.\<close>

definition boot_other_hart :: "menv \<Rightarrow> mstate \<Rightarrow> (launch \<times> mstate) res" where
  "boot_other_hart env s =
     (if entry_point s = 0 then Inl Livelock
      else if 31 \<le> e_hartid env then Inl Undefined
      else if push_bit (unat (e_hartid env)) 1 AND disabled_hart_mask s \<noteq> 0 then Inl Livelock
      else Inr (enter_supervisor_mode env (entry_point s) (e_hartid env) (dtb_output env s) s))"

definition boot_loader :: "menv \<Rightarrow> nat \<Rightarrow> bool \<Rightarrow> u64 \<Rightarrow> mstate \<Rightarrow> (launch \<times> mstate) res" where
  "boot_loader env fuel print dtb s =
     bind_res (filter_dtb env fuel dtb s)
       (\<lambda>s. bind_res (if print then fdt_print env fuel (dtb_output env s) s else Inr s)
          (\<lambda>s. boot_other_hart env
             (s\<lparr>entry_point := if kernel_start s \<noteq> 0 then kernel_start s else e_payload_start env\<rparr>)))"

section \<open>The harts\<close>

definition init_first_hart :: "menv \<Rightarrow> nat \<Rightarrow> bool \<Rightarrow> u64 \<Rightarrow> mstate \<Rightarrow> (launch \<times> mstate) res" where
  "init_first_hart env fuel print dtb s =
     bind_res (query_uart fuel dtb s)
       (\<lambda>s. bind_res (query_uart16550 fuel dtb s)
       (\<lambda>s. bind_res (query_htif fuel dtb s)
       (\<lambda>s. bind_res (printm env (lit ''bbl loader'' @ crlf) [] s)
       (\<lambda>s. bind_res (hart_init env s)
       (\<lambda>s. bind_res (query_finisher fuel dtb (hls_init 0 s))
       (\<lambda>s. bind_res (query_mem env fuel dtb s)
       (\<lambda>s. bind_res (query_harts env fuel dtb s)
       (\<lambda>s. bind_res (query_clint fuel dtb s)
       (\<lambda>s. bind_res (query_plic env fuel dtb s)
       (\<lambda>s. bind_res (query_chosen fuel dtb s)
       (\<lambda>s. boot_loader env fuel print dtb
              (memory_init (hart_plic_init env (plic_init (wake_harts s)))))))))))))))"

definition init_other_hart :: "menv \<Rightarrow> mstate \<Rightarrow> (launch \<times> mstate) res" where
  "init_other_hart env s = bind_res (hart_init env s) (\<lambda>s. boot_other_hart env (hart_plic_init env s))"

section \<open>What the payload starts with\<close>

lemma MEGAPAGE_SIZE_val: "MEGAPAGE_SIZE = 0x200000"
  by (simp add: MEGAPAGE_SIZE_def pg_defs)

lemma unat_div_mult: "unat (a div b * b :: u64) = unat a div unat b * unat b"
proof -
  have "unat a < 2 ^ 64" using unsigned_less [of a, where 'a = nat] by simp
  with div_times_less_eq_dividend have "unat a div unat b * unat b < 2 ^ 64" by (rule le_less_trans)
  then show ?thesis by (simp add: unat_word_ariths unat_div_distrib mod_mult_left_eq)
qed

lemma round_up_megapage:
  assumes "unat e + 0x200000 \<le> 2 ^ 64"
  defines "r \<equiv> (e + MEGAPAGE_SIZE - 1) div MEGAPAGE_SIZE * MEGAPAGE_SIZE"
  shows "e \<le> r" "unat r < unat e + 0x200000" "unat r mod 0x200000 = 0"
proof -
  have u: "unat (e + 0x1fffff) = unat e + 0x1fffff" using assms(1) by (subst unat_add_no_wrap) simp_all
  have m: "e + MEGAPAGE_SIZE - 1 = e + 0x1fffff" by (simp add: MEGAPAGE_SIZE_val)
  have r: "unat r = (unat e + 0x1fffff) div 0x200000 * 0x200000"
    unfolding r_def m unat_div_mult u by (simp add: MEGAPAGE_SIZE_val)
  then show "e \<le> r" "unat r < unat e + 0x200000" "unat r mod 0x200000 = 0"
    by (simp_all add: word_le_nat_alt)
qed

section \<open>What printing and filtering leave alone\<close>

lemma free_putstring: "putstring env cs s = Inr s' \<Longrightarrow> console_free f \<Longrightarrow> f s' = f s"
  by (induction cs arbitrary: s) (fastforce simp: bind_res_eq_Inr split: if_splits dest: free_putchar)+

lemma free_vprintm: "vprintm env fmt va s = Inr s' \<Longrightarrow> console_free f \<Longrightarrow> f s' = f s"
  by (auto simp: vprintm_def bind_res_eq_Inr dest: free_putstring)

lemma free_printm: "printm env fmt va s = Inr s' \<Longrightarrow> console_free f \<Longrightarrow> f s' = f s"
  by (auto simp: printm_def dest: free_vprintm)

lemma free_indent: "print_indent env d s = Inr s' \<Longrightarrow> console_free f \<Longrightarrow> f s' = f s"
  by (induction d arbitrary: s) (fastforce simp: bind_res_eq_Inr dest: free_printm)+

lemma free_print_line: "fdt_print_printm env d fmt va s = Inr s' \<Longrightarrow> console_free f \<Longrightarrow> f s' = f s"
  by (fastforce simp: fdt_print_printm_def bind_res_eq_Inr dest: free_indent free_vprintm)

lemma free_print_close: "print_close env stack parent d s = Inr (d', s') \<Longrightarrow> console_free f \<Longrightarrow> f s' = f s"
  by (induction d arbitrary: s) (fastforce simp: bind_res_eq_Inr split: if_splits dest: free_print_line)+

lemma free_print_finish: "print_finish env d s = Inr s' \<Longrightarrow> console_free f \<Longrightarrow> f s' = f s"
  by (induction d arbitrary: s) (fastforce simp: bind_res_eq_Inr dest: free_print_line)+

lemma free_print_words: "print_words env p i k s = Inr s' \<Longrightarrow> console_free f \<Longrightarrow> f s' = f s"
  by (induction k arbitrary: i s) (fastforce simp: bind_res_eq_Inr split: if_splits dest: free_printm)+

lemma free_print_strings: "print_strings env p len i s = Inr s' \<Longrightarrow> console_free f \<Longrightarrow> f s' = f s"
proof (induction env p len i s rule: print_strings.induct)
  case (1 env p len i s)
  show ?case
  proof (cases "i < len")
    case True
    obtain s1 s2 n where s: "(if i \<noteq> 0 then printm env (lit '', '') [] s else Inr s) = Inr s1"
        "printm env (lit ''\"%s\"'') [p + i] s1 = Inr s2" "strlen (m_mem s2) (p + i) = Inr n"
      and r: "advance n i (\<lambda>i. advance 1 i (\<lambda>i. print_strings env p len i s2)) = Inr s'"
      using "1.prems"(1) True by (subst (asm) print_strings.simps) (auto simp: bind_res_eq_Inr)
    have "f s1 = f s" using s(1) "1.prems"(2) by (auto split: if_splits dest: free_printm)
    moreover have "f s2 = f s1" using s(2) "1.prems"(2) by (rule free_printm)
    moreover have "f s' = f s2"
      using "1.IH" [OF True s _ _ _ "1.prems"(2)] r by (auto simp: advance_def split: if_splits)
    ultimately show ?thesis by simp
  next
    case False
    then show ?thesis using "1.prems" by (simp add: print_strings.simps)
  qed
qed

lemma free_print_prop: "fdt_print_prop env prop st = Inr st' \<Longrightarrow> console_free f \<Longrightarrow> f (snd st') = f (snd st)"
  by (fastforce simp: fdt_print_prop_def bind_res_eq_Inr split: if_splits
      dest: free_printm free_print_line free_print_strings free_print_words)

lemma free_print_open: "fdt_print_open env node st = Inr st' \<Longrightarrow> console_free f \<Longrightarrow> f (snd st') = f (snd st)"
  by (fastforce simp: fdt_print_open_def bind_res_eq_Inr split: list.splits if_splits
      dest: free_print_close free_print_line)

definition payload :: "mstate \<Rightarrow> u64 \<times> u64" where
  "payload s = (kernel_start s, kernel_end s)"

lemma payload_mem [simp]: "payload (s\<lparr>m_mem := m\<rparr>) = payload s" "payload (s\<lparr>disabled_hart_mask := d\<rparr>) = payload s"
  "console_free payload"
  "console_free (\<lambda>s. (payload s, m_mem s))"
  by (simp_all add: payload_def console_free_def)

interpretation print_scan: scan_keeps
  "\<lparr>cb_open = Some (fdt_print_open env), cb_prop = fdt_print_prop env, cb_done = Some fdt_print_done,
    cb_close = Some fdt_print_close\<rparr>" "\<lambda>st. (payload (snd st), m_mem (snd st)) = k" for env k
  by unfold_locales (auto simp: fdt_print_done_def fdt_print_close_def 
      dest!: free_print_open [where f = "\<lambda>s. (payload s, m_mem s)"] free_print_prop [where f = "\<lambda>s. (payload s, m_mem s)"])

interpretation hart_filter_scan: scan_keeps
  "\<lparr>cb_open = Some hart_filter_open, cb_prop = hart_filter_prop, cb_done = Some (hart_filter_done env), cb_close = None\<rparr>"
  "\<lambda>st. payload (snd st) = k" for env k
  by unfold_locales
    (auto simp: hart_filter_open_def hart_filter_prop_def hart_filter_done_def hart_filter_mask_def Let_def kassert_eq_Inr
      bind_res_eq_Inr split: if_splits dest!: free_printm [where f = payload])

interpretation plic_filter_scan: scan_keeps
  "\<lparr>cb_open = Some plic_open, cb_prop = plic_prop, cb_done = Some plic_redact, cb_close = None\<rparr>"
  "\<lambda>st. payload (snd st) = k" for k
  by unfold_locales
    (auto simp: plic_open_def plic_prop_def plic_redact_def Let_def kassert_eq_Inr bind_res_eq_Inr split: if_splits option.splits)

interpretation compat_filter_scan: scan_keeps compat_cb "\<lambda>st. payload (snd st) = k" for k
  by unfold_locales (auto simp: compat_cb_def compat_open_def compat_prop_def compat_close_def Let_def bind_res_eq_Inr split: if_splits)

lemma fdt_print_keeps:
  assumes "fdt_print env fuel fdt s = Inr s'"
  shows "payload s' = payload s" "m_mem s' = m_mem s"
proof -
  let ?cb = "\<lparr>cb_open = Some (fdt_print_open env), cb_prop = fdt_print_prop env, cb_done = Some fdt_print_done,
    cb_close = Some fdt_print_close\<rparr>"
  obtain info s1 where r: "fdt_scan fuel fdt ?cb (\<lparr>pr_depth = 0, pr_stack = replicate FDT_PRINT_MAX_DEPTH 0\<rparr>, s) = Inr (info, s1)"
    "print_finish env (pr_depth info) s1 = Inr s'" using assms by (auto simp: fdt_print_def bind_res_eq_Inr)
  have "(payload s1, m_mem s1) = (payload s, m_mem s)"
    using print_scan.fdt_scan_keeps [OF r(1), of "(payload s, m_mem s)"] by simp
  moreover have "(payload s', m_mem s') = (payload s1, m_mem s1)"
    using free_print_finish [OF r(2), of "\<lambda>s. (payload s, m_mem s)"] by simp
  ultimately have "(payload s', m_mem s') = (payload s, m_mem s)" by simp
  then show "payload s' = payload s" "m_mem s' = m_mem s" by simp_all
qed

lemma filters_keep:
  "filter_harts env fuel fdt s = Inr s' \<Longrightarrow> payload s' = payload s"
  "filter_plic fuel fdt s = Inr s' \<Longrightarrow> payload s' = payload s"
  "filter_compat fuel fdt c s = Inr s' \<Longrightarrow> payload s' = payload s"
  by (fastforce simp: filter_harts_def filter_plic_def filter_compat_def bind_res_eq_Inr
      dest!: hart_filter_scan.fdt_scan_keeps [where k = "payload s"]
      plic_filter_scan.fdt_scan_keeps [where k = "payload s"] compat_filter_scan.fdt_scan_keeps [where k = "payload s"])+

lemma unat_ucast_32: "unat (ucast (x :: u32) :: u64) = unat x"
  by transfer simp

lemma copied_byte:
  assumes "i < unat n"
  shows "copy_mem m d q n (d + of_nat i) = m (q + of_nat i)"
proof -
  have "(of_nat i :: u64) < n" using assms by (simp add: word_less_nat_alt unat_of_nat)
  then show ?thesis by (simp add: copy_mem_def)
qed

lemma filter_dtb_steps:
  assumes "filter_dtb env fuel dtb s = Inr s'"
  defines "d \<equiv> dtb_output env s" and "n \<equiv> (ucast (fdt_size (m_mem s) dtb) :: u64)"
  assumes "7 \<le> unat d" and "unat d + unat n < 2 ^ 64" and "unat dtb + unat n < 2 ^ 64" and "disjoint d dtb (unat n)"
  shows "payload s' = payload s \<and> (\<exists>s2 s3 s4. filter_harts env fuel d (s\<lparr>m_mem := copy_mem (m_mem s) d dtb n\<rparr>) = Inr s2 \<and>
      filter_plic fuel d s2 = Inr s3 \<and> filter_compat fuel d (lit ''riscv,clint0'') s3 = Inr s4 \<and>
      filter_compat fuel d (lit ''riscv,debug-013'') s4 = Inr s')"
proof -
  have "memcpy (m_mem s) d dtb n = Inr (d, copy_mem (m_mem s) d dtb n)"
    by (rule memcpy_run) (use assms(4-) in simp_all)
  then obtain s2 s3 s4 where r: "filter_harts env fuel d (s\<lparr>m_mem := copy_mem (m_mem s) d dtb n\<rparr>) = Inr s2"
      "filter_plic fuel d s2 = Inr s3" "filter_compat fuel d (lit ''riscv,clint0'') s3 = Inr s4"
      "filter_compat fuel d (lit ''riscv,debug-013'') s4 = Inr s'"
    using assms(1) by (auto simp: filter_dtb_def Let_def bind_res_eq_Inr d_def n_def)
  with filters_keep(1) [OF r(1)] filters_keep(2) [OF r(2)] filters_keep(3) [OF r(3)] filters_keep(3) [OF r(4)]
  show ?thesis by simp
qed

lemma enter_supervisor:
  assumes "trap_csrs env" and "even fn" and "enter_supervisor_mode env fn a0 a1 s = (l, s')"
  shows "l = \<lparr>l_pc = fn, l_mode = PRV_S, l_a0 = a0, l_a1 = a1\<rparr>"
    and "disabled_hart_mask s' = disabled_hart_mask s" and "m_mem s' = store64 (m_mem s) (e_stack_top env - MENTRY_FRAME_SIZE) 0"
proof -
  define w where "w = INSERT_FIELD (INSERT_FIELD (csrs (setup_pmp env s) Mstatus) MSTATUS_MPP PRV_S) MSTATUS_MPIE 0"
  have w: "w AND MSTATUS_MPP = 0x800" by (simp add: w_def INSERT_FIELD_def and.assoc bit.conj_disj_distrib2)
  then have "\<forall>i \<in> trap_fields. bit (e_warl env Mstatus w) i \<longleftrightarrow> bit w i"
    using assms(1) unfolding trap_csrs_def by simp
  then have b: "bit (e_warl env Mstatus w) i \<longleftrightarrow> bit w i" if "i \<in> {11, 12}" for i using that by (auto simp: trap_fields_def)
  have m: "MSTATUS_MPP = push_bit 11 1 OR push_bit 12 1" by simp
  have "e_warl env Mstatus w AND MSTATUS_MPP = w AND MSTATUS_MPP"
    by (rule bit_eqI) (unfold m bit_and_iff bit_or_iff bit_push_1, use b in blast)
  with w have "EXTRACT_FIELD (e_warl env Mstatus w) MSTATUS_MPP = PRV_S" by (simp add: EXTRACT_FIELD_def)
  moreover have "e_warl env Mepc fn = fn" using assms(1,2) by (simp add: trap_csrs_def)
  moreover have "disabled_hart_mask (setup_pmp env s) = disabled_hart_mask s" "m_mem (setup_pmp env s) = m_mem s"
    by (simp_all add: setup_pmp_def write_csr_def)
  ultimately show "l = \<lparr>l_pc = fn, l_mode = PRV_S, l_a0 = a0, l_a1 = a1\<rparr>" "disabled_hart_mask s' = disabled_hart_mask s"
    "m_mem s' = store64 (m_mem s) (e_stack_top env - MENTRY_FRAME_SIZE) 0"
    using assms(3) by (auto simp: enter_supervisor_mode_def Let_def read_csr_def write_csr_def w_def)
qed

text \<open>
  (C21) The boot loader enters the payload at its start, in supervisor mode, with the number of its hart,
  which is not masked, and the address of the device tree: the first megapage boundary at or after the end
  of the payload, whether that is the one the tree names or the one linked into the image. The device
  tree is there: the memory is the result of running the four filters, at that address, on a memory into
  which every byte of the firmware's tree was copied, but for the word of the stack frame the last step
  clears. The tree must fit at both places without overlapping, and payloads start at even addresses.
\<close>

theorem boot_loader_hands_over:
  assumes "boot_loader env fuel print dtb s = Inr (l, s')" and "trap_csrs env"
  defines "fn \<equiv> if kernel_start s \<noteq> 0 then kernel_start s else e_payload_start env"
    and "e \<equiv> if kernel_end s \<noteq> 0 then kernel_end s else e_payload_end env" and "n \<equiv> unat (fdt_size (m_mem s) dtb)"
  assumes "even fn" and "0 < e" and "unat e + 0x200000 \<le> 2 ^ 64"
    and "unat (dtb_output env s) + n < 2 ^ 64" and "unat dtb + n < 2 ^ 64" and "disjoint (dtb_output env s) dtb n"
  shows "l_pc l = fn \<and> fn \<noteq> 0 \<and> l_mode l = PRV_S \<and> l_a0 l = e_hartid env \<and>
      \<not> bit (disabled_hart_mask s') (unat (e_hartid env)) \<and>
      e \<le> l_a1 l \<and> unat (l_a1 l) < unat e + 0x200000 \<and> unat (l_a1 l) mod 0x200000 = 0 \<and>
      (\<exists>m1 s2 s3 s4 s5. (\<forall>i < n. m1 (l_a1 l + of_nat i) = m_mem s (dtb + of_nat i)) \<and>
         filter_harts env fuel (l_a1 l) (s\<lparr>m_mem := m1\<rparr>) = Inr s2 \<and> filter_plic fuel (l_a1 l) s2 = Inr s3 \<and>
         filter_compat fuel (l_a1 l) (lit ''riscv,clint0'') s3 = Inr s4 \<and>
         filter_compat fuel (l_a1 l) (lit ''riscv,debug-013'') s4 = Inr s5 \<and>
         m_mem s' = store64 (m_mem s5) (e_stack_top env - MENTRY_FRAME_SIZE) 0)"
proof -
  let ?d = "dtb_output env s" and ?n = "ucast (fdt_size (m_mem s) dtb) :: u64" and ?k = "unat (e_hartid env)"
  have d: "?d = (e + MEGAPAGE_SIZE - 1) div MEGAPAGE_SIZE * MEGAPAGE_SIZE" by (simp add: dtb_output_def e_def Let_def)
  note up = round_up_megapage [OF assms(8), folded d]
  have n: "unat ?n = n" by (simp add: n_def unat_ucast_32)
  have "0 < unat ?d" using up(1) assms(7) by (simp add: word_less_nat_alt word_le_nat_alt)
  moreover have "0x200000 dvd unat ?d" using up(3) by (rule mod_0_imp_dvd)
  ultimately have "0x200000 \<le> unat ?d" by (intro dvd_imp_le)
  then have low: "7 \<le> unat ?d" by linarith
  obtain s5 s6 where r: "filter_dtb env fuel dtb s = Inr s5"
      "(if print then fdt_print env fuel (dtb_output env s5) s5 else Inr s5) = Inr s6"
      "boot_other_hart env (s6\<lparr>entry_point := if kernel_start s6 \<noteq> 0 then kernel_start s6 else e_payload_start env\<rparr>) = Inr (l, s')"
    (is "boot_other_hart env ?s = _")
    using assms(1) by (auto simp: boot_loader_def bind_res_eq_Inr)
  have steps: "payload s5 = payload s" "\<exists>s2 s3 s4. filter_harts env fuel ?d (s\<lparr>m_mem := copy_mem (m_mem s) ?d dtb ?n\<rparr>) = Inr s2 \<and>
      filter_plic fuel ?d s2 = Inr s3 \<and> filter_compat fuel ?d (lit ''riscv,clint0'') s3 = Inr s4 \<and>
      filter_compat fuel ?d (lit ''riscv,debug-013'') s4 = Inr s5"
    using filter_dtb_steps [OF r(1) low] assms(9-) unfolding n by simp_all
  have "payload s6 = payload s5" and mem: "m_mem s6 = m_mem s5" using r(2) fdt_print_keeps by (auto split: if_splits)
  then have p: "kernel_start s6 = kernel_start s" "kernel_end s6 = kernel_end s" using steps(1) by (simp_all add: payload_def)
  then have ep: "entry_point ?s = fn" "dtb_output env ?s = ?d" by (simp_all add: fn_def dtb_output_def)
  have h: "fn \<noteq> 0" "e_hartid env < 31" "push_bit ?k 1 AND disabled_hart_mask s6 = 0"
    "enter_supervisor_mode env fn (e_hartid env) ?d ?s = (l, s')"
    using r(3) ep by (auto simp: boot_other_hart_def not_le split: if_splits)
  note en = enter_supervisor [OF assms(2,6) h(4)]
  have "?k < 64" using h(2) by (simp add: word_less_nat_alt)
  then have "bit (push_bit ?k 1 :: u64) ?k" unfolding bit_push_1 by simp
  moreover have "\<not> bit (push_bit ?k 1 AND disabled_hart_mask s6) ?k" using h(3) by simp
  ultimately have "\<not> bit (disabled_hart_mask s6) ?k" unfolding bit_and_iff by blast
  moreover have "\<forall>i < n. copy_mem (m_mem s) ?d dtb ?n (?d + of_nat i) = m_mem s (dtb + of_nat i)"
    using copied_byte [of _ ?n] unfolding n by blast
  ultimately show ?thesis using en h(1) up steps(2) mem by auto
qed

text \<open>A hart whose firmware and payload are small, and a device tree with two nodes.\<close>

definition boot_env :: menv where
  "boot_env = call_env\<lparr>e_payload_start := 0x100000, e_payload_end := 0x134567, e_stack_top := 0x80000\<rparr>"

definition boot_blob :: "u8 list list" where
  "boot_blob =
     [[208, 13, 254, 237, 0, 0, 0, 107, 0, 0, 0, 40, 0, 0, 0, 96],
      [0, 0, 0, 40, 0, 0, 0, 17, 0, 0, 0, 16, 0, 0, 0, 0],
      [0, 0, 0, 11, 0, 0, 0, 56, 0, 0, 0, 1, 0, 0, 0, 0],
      [0, 0, 0, 1, 99, 0, 0, 0, 0, 0, 0, 3, 0, 0, 0, 13],
      [0, 0, 0, 0, 114, 105, 115, 99, 118, 44, 99, 108, 105, 110, 116, 48],
      [0, 0, 0, 0, 0, 0, 0, 2, 0, 0, 0, 2, 0, 0, 0, 9],
      [99, 111, 109, 112, 97, 116, 105, 98, 108, 101, 0, 0, 0, 0, 0, 0]]"

definition boot_mem :: mem where
  "boot_mem a = (let i = unat (a - 0x1000) in if i < 112 then boot_blob ! (i div 16) ! (i mod 16) else 0)"

lemma boot_filters:
  "case bind_res (filter_harts boot_env 20 0x200000 (hart_state (copy_mem boot_mem 0x200000 0x1000 107)))
          (\<lambda>s. bind_res (filter_plic 20 0x200000 s)
             (\<lambda>s. bind_res (filter_compat 20 0x200000 (lit ''riscv,clint0'') s)
                (filter_compat 20 0x200000 (lit ''riscv,debug-013'')))) of
     Inl _ \<Rightarrow> False
   | Inr s \<Rightarrow> disabled_hart_mask s = 0 \<and> m_mem s 0x200033 = 4"
  by code_simp

lemma boot_run:
  "\<exists>l s'. boot_loader boot_env 20 False 0x1000 (hart_state boot_mem) = Inr (l, s')"
proof -
  have size: "fdt_size boot_mem 0x1000 = 107" by code_simp
  have d: "dtb_output boot_env (hart_state m) = 0x200000" for m
    by (simp add: dtb_output_def hart_state_def reset_state_def boot_env_def MEGAPAGE_SIZE_val)
  have "memcpy boot_mem 0x200000 0x1000 107 = Inr (0x200000, copy_mem boot_mem 0x200000 0x1000 107)"
    by (rule memcpy_run) (simp_all add: disjoint_def)
  then have "filter_dtb boot_env 20 0x1000 (hart_state boot_mem) =
      bind_res (filter_harts boot_env 20 0x200000 (hart_state (copy_mem boot_mem 0x200000 0x1000 107)))
          (\<lambda>s. bind_res (filter_plic 20 0x200000 s)
             (\<lambda>s. bind_res (filter_compat 20 0x200000 (lit ''riscv,clint0'') s)
                (filter_compat 20 0x200000 (lit ''riscv,debug-013''))))"
    unfolding filter_dtb_def d by (simp add: Let_def size hart_state_def reset_state_def)
  then obtain s where s: "filter_dtb boot_env 20 0x1000 (hart_state boot_mem) = Inr s" "disabled_hart_mask s = 0"
    using boot_filters by (simp split: sum.splits)
  moreover have "e_hartid boot_env = 0" "e_payload_start boot_env = 0x100000" by (simp_all add: boot_env_def call_env_def)
  ultimately show ?thesis by (simp add: boot_loader_def boot_other_hart_def)
qed

lemma boot_loader_hands_over_witness:
  "\<exists>l s'. boot_loader boot_env 20 False 0x1000 (hart_state boot_mem) = Inr (l, s') \<and>
     l_pc l = 0x100000 \<and> l_mode l = PRV_S \<and> 0x134567 \<le> l_a1 l \<and> unat (l_a1 l) mod 0x200000 = 0"
proof -
  obtain l s' where run: "boot_loader boot_env 20 False 0x1000 (hart_state boot_mem) = Inr (l, s')" using boot_run by blast
  have size: "fdt_size (m_mem (hart_state boot_mem)) 0x1000 = 107"
    unfolding hart_state_def reset_state_def mstate.simps by code_simp
  have k: "kernel_start (hart_state boot_mem) = 0" "kernel_end (hart_state boot_mem) = 0"
    by (simp_all add: hart_state_def reset_state_def)
  have d: "dtb_output boot_env (hart_state boot_mem) = 0x200000"
    by (simp add: dtb_output_def k boot_env_def MEGAPAGE_SIZE_val)
  have "trap_csrs boot_env" by (rule trap_csrs_warl) (simp add: boot_env_def call_env_def)
  from boot_loader_hands_over [OF run this] run show ?thesis
    unfolding size d k by (auto simp: boot_env_def disjoint_def)
qed

section \<open>The interrupt controller\<close>

lemma fold_enable:
  assumes "plic_s_ie (HLS env s) \<noteq> 0"
  shows "fold (\<lambda>i s. if plic_s_ie (HLS env s) \<noteq> 0 then dev_write 8 (plic_s_ie (HLS env s) + 8 * of_nat i) (-1) s else s) js s =
    s\<lparr>events := events s @ map (\<lambda>i. Write (plic_s_ie (HLS env s) + 8 * of_nat i) 8 (-1)) js\<rparr>"
  using assms
proof (induction js arbitrary: s)
  case (Cons j js)
  have "HLS env (dev_write n a v s) = HLS env s" for n a v s by (simp add: HLS_def dev_write_def)
  then show ?case using Cons by (simp add: dev_write_def)
qed simp

text \<open>
  (C38) Initialising the interrupt controller of a hart with supervisor registers clears its pending
  interrupts, enables \<^verbatim>\<open>plic_ndevs / 8 + 1\<close> words of 64 sources and sets the two thresholds. The number
  of words divides by the bytes of a word, not its bits: from 128 sources on, the writes leave the
  \<^verbatim>\<open>ENABLE_SIZE\<close> bytes of the hart and reach the enable registers of the next one.
\<close>

theorem hart_plic_init_overruns:
  assumes "plic_s_ie (HLS env s) \<noteq> 0" and "plic_s_thresh (HLS env s) \<noteq> 0" and "plic_ndevs s \<noteq> 0"
  defines "h \<equiv> HLS env s"
  shows "events (hart_plic_init env s) = events s @ [Write (ipi h) 4 0, Write (timecmp h) 8 (-1)] @
      map (\<lambda>i. Write (plic_s_ie h + 8 * of_nat i) 8 (-1)) [0..<unat (plic_ndevs s) div 8 + 1] @
      [Write (plic_m_thresh h) 4 1, Write (plic_s_thresh h) 4 0] \<and>
    (128 \<le> plic_ndevs s \<longrightarrow> Write (plic_s_ie h + ENABLE_SIZE) 8 (-1) \<in> set (events (hart_plic_init env s)))"
proof -
  let ?s = "write_csr env Mip 0 (dev_write 8 (timecmp h) (-1) (dev_write 4 (ipi h) 0 s))"
  have n: "unat (ie_words ?s) = unat (plic_ndevs s) div 8 + 1"
  proof -
    have "unat (plic_ndevs s div 8) < 2 ^ 61" using unsigned_less [of "plic_ndevs s", where 'a = nat] by (simp add: unat_div_distrib)
    then have "unat (plic_ndevs s div 8 + 1) = unat (plic_ndevs s div 8) + 1" by (subst unat_add_no_wrap) simp_all
    then show ?thesis by (simp add: ie_words_def write_csr_def dev_write_def unat_div_distrib)
  qed
  have h: "HLS env (s\<lparr>events := es\<rparr>) = HLS env s" "HLS env (s\<lparr>csrs := c\<rparr>) = HLS env s" for s es c
    by (simp_all add: HLS_def)
  have ev: "events (hart_plic_init env s) = events s @ [Write (ipi h) 4 0, Write (timecmp h) 8 (-1)] @
      map (\<lambda>i. Write (plic_s_ie h + 8 * of_nat i) 8 (-1)) [0..<unat (plic_ndevs s) div 8 + 1] @
      [Write (plic_m_thresh h) 4 1, Write (plic_s_thresh h) 4 0]"
    using assms(1-3) n unfolding hart_plic_init_def Let_def h_def
    by (simp add: fold_enable h dev_write_def write_csr_def)
  have w: "Write (plic_s_ie h + ENABLE_SIZE) 8 (-1) \<in>
      set (map (\<lambda>i. Write (plic_s_ie h + 8 * of_nat i) 8 (-1)) [0..<unat (plic_ndevs s) div 8 + 1])" if "128 \<le> plic_ndevs s"
  proof -
    have "128 \<le> unat (plic_ndevs s)" using that by (simp add: word_le_nat_alt)
    then have "16 < unat (plic_ndevs s) div 8 + 1" by simp
    then have "16 \<in> set [0..<unat (plic_ndevs s) div 8 + 1]" unfolding set_upt by simp
    then show ?thesis unfolding set_map by (rule rev_image_eqI) (simp add: ENABLE_SIZE_def)
  qed
  show ?thesis
  proof (intro conjI impI)
    assume "128 \<le> plic_ndevs s"
    from w [OF this] show "Write (plic_s_ie h + ENABLE_SIZE) 8 (-1) \<in> set (events (hart_plic_init env s))"
      unfolding ev set_append by blast
  qed (rule ev)
qed

lemma hart_plic_init_overruns_witness:
  "Write (0xc002000 + ENABLE_SIZE) 8 (-1) \<in> set (events (hart_plic_init boot_env
     (reset_state (\<lambda>_. 0)\<lparr>plic_ndevs := 1023, hls := (\<lambda>_. zero_hls\<lparr>plic_s_ie := 0xc002000, plic_s_thresh := 0xc200000\<rparr>)\<rparr>)))"
proof -
  let ?s = "reset_state (\<lambda>_. 0)\<lparr>plic_ndevs := 1023, hls := (\<lambda>_. zero_hls\<lparr>plic_s_ie := 0xc002000, plic_s_thresh := 0xc200000\<rparr>)\<rparr>"
  have h: "plic_s_ie (HLS boot_env ?s) = 0xc002000" "plic_s_thresh (HLS boot_env ?s) = 0xc200000" by (simp_all add: HLS_def)
  then have "128 \<le> plic_ndevs ?s \<longrightarrow>
      Write (plic_s_ie (HLS boot_env ?s) + ENABLE_SIZE) 8 (-1) \<in> set (events (hart_plic_init boot_env ?s))"
    by (intro hart_plic_init_overruns [THEN conjunct2]) simp_all
  moreover have "128 \<le> plic_ndevs ?s" by simp
  ultimately show ?thesis unfolding h by blast
qed

end
