(* ===== verification/Emulation.thy ===== *)
theory Emulation
  imports M_Calls "HOL-Library.Signed_Division"
begin

text \<open>
  Instruction emulation: \<^verbatim>\<open>machine/emulation.c\<close>, \<^verbatim>\<open>machine/misaligned_ldst.c\<close>, \<^verbatim>\<open>machine/muldiv_emulation.c\<close>
  and \<^verbatim>\<open>machine/fp_ldst.c\<close>, for a hart without multiplication and floating point.

  The trap frame has 64 words: the integer registers and, from index 32 on, the emulated
  floating-point registers. The emulated control register \<^verbatim>\<open>fcsr\<close> is in \<^verbatim>\<open>tp\<close> while a handler runs; here
  it is the field \<^verbatim>\<open>m_fcsr\<close>. The arithmetic instructions of \<^verbatim>\<open>machine/fp_emulation.c\<close> are the two
  arguments \<^verbatim>\<open>fmadd\<close> and \<^verbatim>\<open>fp\<close> of the dispatcher.
\<close>

section \<open>Fields of an instruction\<close>

definition RV_X :: "u64 \<Rightarrow> nat \<Rightarrow> nat \<Rightarrow> u64" where
  "RV_X x s n = drop_bit s x AND (push_bit n 1 - 1)"

definition RVC_LD_IMM :: "u64 \<Rightarrow> u64" where
  "RVC_LD_IMM x = push_bit 3 (RV_X x 10 3) OR push_bit 6 (RV_X x 5 2)"

definition RVC_LDSP_IMM :: "u64 \<Rightarrow> u64" where
  "RVC_LDSP_IMM x = push_bit 3 (RV_X x 5 2) OR push_bit 5 (RV_X x 12 1) OR push_bit 6 (RV_X x 2 3)"

definition RVC_SDSP_IMM :: "u64 \<Rightarrow> u64" where
  "RVC_SDSP_IMM x = push_bit 3 (RV_X x 10 3) OR push_bit 6 (RV_X x 7 3)"

abbreviation (input) SH_RD :: nat where "SH_RD \<equiv> 7"
abbreviation (input) SH_RS1 :: nat where "SH_RS1 \<equiv> 15"
abbreviation (input) SH_RS2 :: nat where "SH_RS2 \<equiv> 20"
abbreviation (input) SH_RS2C :: nat where "SH_RS2C \<equiv> 2"

definition RVC_RS1S :: "u64 \<Rightarrow> u64" where "RVC_RS1S insn = 8 + RV_X insn SH_RD 3"
definition RVC_RS2S :: "u64 \<Rightarrow> u64" where "RVC_RS2S insn = 8 + RV_X insn SH_RS2C 3"
definition RVC_RS2 :: "u64 \<Rightarrow> u64" where "RVC_RS2 insn = RV_X insn SH_RS2C 5"

definition SHIFT_RIGHT :: "u64 \<Rightarrow> int \<Rightarrow> u64" where
  "SHIFT_RIGHT x y = (if y < 0 then push_bit (nat (- y)) x else drop_bit (nat y) x)"

text \<open>The index of the register that the five bits from \<^verbatim>\<open>pos\<close> on name: a byte offset, divided by 8.\<close>

definition GET_REG :: "u64 \<Rightarrow> nat \<Rightarrow> nat" where
  "GET_REG insn pos = unat (SHIFT_RIGHT insn (int pos - 3) AND 0xf8) div 8"

definition IMM_I :: "u64 \<Rightarrow> u64" where
  "IMM_I insn = scast (signed_drop_bit 20 (ucast insn :: u32))"

definition IMM_S :: "u64 \<Rightarrow> u64" where
  "IMM_S insn = scast (push_bit 5 (signed_drop_bit 25 (ucast insn :: u32)) OR ucast (drop_bit 7 insn AND 0x1f))"

definition GET_RM :: "u64 \<Rightarrow> u64" where
  "GET_RM insn = drop_bit 12 insn AND 7"

definition SET_RD :: "u64 \<Rightarrow> u64 \<Rightarrow> tstate \<Rightarrow> tstate" where
  "SET_RD insn v st = ((fst st)[GET_REG insn SH_RD := v], snd st)"

abbreviation (input) MSTATUS_FS :: u64 where "MSTATUS_FS \<equiv> 0x00006000"

definition SET_FS_DIRTY :: "menv \<Rightarrow> mstate \<Rightarrow> mstate" where
  "SET_FS_DIRTY env s = set_csr env Mstatus MSTATUS_FS s"

definition GET_F64_REG :: "u64 \<Rightarrow> nat \<Rightarrow> u64 list \<Rightarrow> u64" where
  "GET_F64_REG insn pos regs = regs ! (32 + GET_REG insn pos)"

definition GET_F32_REG :: "u64 \<Rightarrow> nat \<Rightarrow> u64 list \<Rightarrow> u32" where
  "GET_F32_REG insn pos regs = ucast (GET_F64_REG insn pos regs)"

definition SET_F64_RD :: "menv \<Rightarrow> u64 \<Rightarrow> u64 \<Rightarrow> tstate \<Rightarrow> tstate" where
  "SET_F64_RD env insn v st = ((fst st)[32 + GET_REG insn SH_RD := v], SET_FS_DIRTY env (snd st))"

text \<open>A 32-bit value overwrites the lower half of the register.\<close>

definition SET_F32_RD :: "menv \<Rightarrow> u64 \<Rightarrow> u32 \<Rightarrow> tstate \<Rightarrow> tstate" where
  "SET_F32_RD env insn v st =
     SET_F64_RD env insn ((GET_F64_REG insn SH_RD (fst st) AND NOT 0xffffffff) OR ucast v) st"

section \<open>Fetching the instruction\<close>

definition fetch_u :: "menv \<Rightarrow> nat \<Rightarrow> u64 \<Rightarrow> u64 \<Rightarrow> tstate \<Rightarrow> u64 run" where
  "fetch_u env n a epc st =
     (case pages (e_ufetch env) n a of
        None \<Rightarrow> hw_trap env CAUSE_LOAD_PAGE_FAULT (fault_addr (e_ufetch env) n a) epc st
      | Some ps \<Rightarrow> Inr (Done (le_word (map (m_mem (snd st)) ps)), st))"

text \<open>The instruction, two bytes if compressed, and the status at that time.\<close>

definition get_insn :: "menv \<Rightarrow> u64 \<Rightarrow> tstate \<Rightarrow> (u64 \<times> u64) run" where
  "get_insn env mepc st =
     (let mst = read_csr Mstatus (snd st)
      in if mepc AND 2 = 0 then
           bind_run (fetch_u env 4 mepc mepc st)
             (\<lambda>insn st. Inr (Done (if insn AND 3 = 3 then insn else drop_bit 48 (push_bit 48 insn), mst), st))
         else
           bind_run (fetch_u env 2 mepc mepc st)
             (\<lambda>insn st. if insn AND 3 \<noteq> 3 then Inr (Done (insn, mst), st)
                else bind_run (fetch_u env 2 (mepc + 2) mepc st)
                       (\<lambda>tmp st. Inr (Done (insn + push_bit 16 tmp, mst), st))))"

definition truly_illegal_insn :: "menv \<Rightarrow> u64 \<Rightarrow> u64 \<Rightarrow> u64 \<Rightarrow> tstate \<Rightarrow> unit run" where
  "truly_illegal_insn env mepc mstatus insn st =
     Inr (Redirected, (fst st, redirect_trap env mepc mstatus insn (snd st)))"

section \<open>Misaligned accesses\<close>

text \<open>
  The length, the shift that extends the sign, whether the target is a floating-point register, and
  the word whose bits from 7 on name the target.
\<close>

definition decode_load :: "u64 \<Rightarrow> (nat \<times> nat \<times> bool \<times> u64) option" where
  "decode_load insn =
     (if insn AND 0x707f = 0x2003 then Some (4, 32, False, insn)
      else if insn AND 0x707f = 0x3003 then Some (8, 0, False, insn)
      else if insn AND 0x707f = 0x6003 then Some (4, 0, False, insn)
      else if insn AND 0x707f = 0x3007 then Some (8, 0, True, insn)
      else if insn AND 0x707f = 0x2007 then Some (4, 0, True, insn)
      else if insn AND 0x707f = 0x1003 then Some (2, 48, False, insn)
      else if insn AND 0x707f = 0x5003 then Some (2, 0, False, insn)
      else if insn AND 0xe003 = 0x6000 then Some (8, 0, False, push_bit SH_RD (RVC_RS2S insn))
      else if insn AND 0xe003 = 0x6002 \<and> drop_bit SH_RD insn AND 0x1f \<noteq> 0 then Some (8, 0, False, insn)
      else if insn AND 0xe003 = 0x4000 then Some (4, 32, False, push_bit SH_RD (RVC_RS2S insn))
      else if insn AND 0xe003 = 0x4002 \<and> drop_bit SH_RD insn AND 0x1f \<noteq> 0 then Some (4, 32, False, insn)
      else if insn AND 0xe003 = 0x2000 then Some (8, 0, True, push_bit SH_RD (RVC_RS2S insn))
      else if insn AND 0xe003 = 0x2002 then Some (8, 0, True, insn)
      else None)"

fun load_bytes :: "menv \<Rightarrow> u64 \<Rightarrow> u64 \<Rightarrow> nat \<Rightarrow> tstate \<Rightarrow> u8 list run" where
  "load_bytes env mepc a 0 st = Inr (Done [], st)"
| "load_bytes env mepc a (Suc n) st =
     bind_run (load_u env 1 a mepc st)
       (\<lambda>b st. bind_run (load_bytes env mepc (a + 1) n st) (\<lambda>bs st. Inr (Done (ucast b # bs), st)))"

definition misaligned_load_trap :: "menv \<Rightarrow> u64 \<Rightarrow> u64 \<Rightarrow> tstate \<Rightarrow> unit run" where
  "misaligned_load_trap env mcause mepc st =
     bind_run (get_insn env mepc st)
       (\<lambda>(insn, mstatus) st.
          let npc = mepc + insn_len insn; addr = read_csr Mbadaddr (snd st)
          in case decode_load insn of
               None \<Rightarrow> truly_illegal_insn env mepc mstatus insn st
             | Some (n, shift, fp, insn) \<Rightarrow>
                 bind_run (load_bytes env mepc addr n st)
                   (\<lambda>bs st. let val = le_word bs;
                        st = (if \<not> fp then SET_RD insn (signed_drop_bit shift (push_bit shift val)) st
                              else if n = 8 then SET_F64_RD env insn val st
                              else SET_F32_RD env insn (ucast val) st)
                      in Inr (Done (), (fst st, write_csr env Mepc npc (snd st)))))"

definition decode_store :: "u64 \<Rightarrow> u64 list \<Rightarrow> (nat \<times> u64) option" where
  "decode_store insn regs =
     (if insn AND 0x707f = 0x2023 then Some (4, regs ! GET_REG insn SH_RS2)
      else if insn AND 0x707f = 0x3023 then Some (8, regs ! GET_REG insn SH_RS2)
      else if insn AND 0x707f = 0x3027 then Some (8, GET_F64_REG insn SH_RS2 regs)
      else if insn AND 0x707f = 0x2027 then Some (4, scast (GET_F32_REG insn SH_RS2 regs))
      else if insn AND 0x707f = 0x1023 then Some (2, regs ! GET_REG insn SH_RS2)
      else if insn AND 0xe003 = 0xe000 then Some (8, regs ! GET_REG (RVC_RS2S insn) 0)
      else if insn AND 0xe003 = 0xe002 \<and> drop_bit SH_RD insn AND 0x1f \<noteq> 0 then Some (8, regs ! GET_REG insn SH_RS2C)
      else if insn AND 0xe003 = 0xc000 then Some (4, regs ! GET_REG (RVC_RS2S insn) 0)
      else if insn AND 0xe003 = 0xc002 \<and> drop_bit SH_RD insn AND 0x1f \<noteq> 0 then Some (4, regs ! GET_REG insn SH_RS2C)
      else if insn AND 0xe003 = 0xa000 then Some (8, GET_F64_REG (RVC_RS2S insn) 0 regs)
      else if insn AND 0xe003 = 0xa002 then Some (8, GET_F64_REG insn SH_RS2C regs)
      else None)"

fun store_bytes :: "menv \<Rightarrow> u64 \<Rightarrow> u64 \<Rightarrow> u8 list \<Rightarrow> tstate \<Rightarrow> unit run" where
  "store_bytes env mepc a [] st = Inr (Done (), st)"
| "store_bytes env mepc a (b # bs) st =
     bind_run (store_u env 1 a (ucast b) mepc st) (\<lambda>_ st. store_bytes env mepc (a + 1) bs st)"

definition misaligned_store_trap :: "menv \<Rightarrow> u64 \<Rightarrow> u64 \<Rightarrow> tstate \<Rightarrow> unit run" where
  "misaligned_store_trap env mcause mepc st =
     bind_run (get_insn env mepc st)
       (\<lambda>(insn, mstatus) st.
          let npc = mepc + insn_len insn
          in case decode_store insn (fst st) of
               None \<Rightarrow> truly_illegal_insn env mepc mstatus insn st
             | Some (n, val) \<Rightarrow>
                 bind_run (store_bytes env mepc (read_csr Mbadaddr (snd st)) (map (byte_of val) [0..<n]) st)
                   (\<lambda>_ st. Inr (Done (), (fst st, write_csr env Mepc npc (snd st)))))"

section \<open>Multiplication and division\<close>

text \<open>A division by zero, or one whose quotient overflows, is undefined in C, and so is a signed product that overflows.\<close>

definition c_sdiv :: "int \<Rightarrow> 'a::len word \<Rightarrow> 'a word \<Rightarrow> (int \<Rightarrow> int \<Rightarrow> int) \<Rightarrow> 'a word res" where
  "c_sdiv lo a b f =
     (if b = 0 \<or> sint a = lo \<and> sint b = -1 then Inl Undefined else Inr (word_of_int (f (sint a) (sint b))))"

definition c_udiv :: "'a::len word \<Rightarrow> 'a word \<Rightarrow> ('a word \<Rightarrow> 'a word \<Rightarrow> 'a word) \<Rightarrow> 'a word res" where
  "c_udiv a b f = (if b = 0 then Inl Undefined else Inr (f a b))"

text \<open>The value of the instruction, and \<^const>\<open>None\<close> when it is not one of them; \<^verbatim>\<open>double_int\<close> has 128 bits.\<close>

definition mul_div_value :: "u64 \<Rightarrow> u64 \<Rightarrow> u64 \<Rightarrow> u64 res option" where
  "mul_div_value insn rs1 rs2 =
     (let op = insn AND 0xfe00707f
      in if op = 0x2000033 then Some (Inr (rs1 * rs2))
         else if op = 0x2004033 then Some (c_sdiv (- (2 ^ 63)) rs1 rs2 (sdiv))
         else if op = 0x2005033 then Some (c_udiv rs1 rs2 (div))
         else if op = 0x2006033 then Some (c_sdiv (- (2 ^ 63)) rs1 rs2 (smod))
         else if op = 0x2007033 then Some (c_udiv rs1 rs2 (mod))
         else if op = 0x2001033 then Some (Inr (ucast (drop_bit 64 (scast rs1 * scast rs2 :: 128 word))))
         else if op = 0x2003033 then Some (if 2 ^ 127 \<le> uint rs1 * uint rs2 then Inl Undefined
              else Inr (ucast (drop_bit 64 (ucast rs1 * ucast rs2 :: 128 word))))
         else if op = 0x2002033 then Some (Inr (ucast (drop_bit 64 (scast rs1 * ucast rs2 :: 128 word))))
         else None)"

definition set_result :: "menv \<Rightarrow> u64 \<Rightarrow> u64 \<Rightarrow> u64 \<Rightarrow> u64 res option \<Rightarrow> tstate \<Rightarrow> unit run" where
  "set_result env mepc mstatus insn v st =
     (case v of
        None \<Rightarrow> truly_illegal_insn env mepc mstatus insn st
      | Some r \<Rightarrow> bind_res r (\<lambda>val. Inr (Done (), SET_RD insn val st)))"

definition emulate_mul_div :: "menv \<Rightarrow> u64 \<Rightarrow> u64 \<Rightarrow> u64 \<Rightarrow> tstate \<Rightarrow> unit run" where
  "emulate_mul_div env mepc mstatus insn st =
     set_result env mepc mstatus insn
       (mul_div_value insn (fst st ! GET_REG insn SH_RS1) (fst st ! GET_REG insn SH_RS2)) st"

definition mul_div32_value :: "u64 \<Rightarrow> u32 \<Rightarrow> u32 \<Rightarrow> u32 res option" where
  "mul_div32_value insn rs1 rs2 =
     (let op = insn AND 0xfe00707f
      in if op = 0x200003b then Some (Inr (rs1 * rs2))
         else if op = 0x200403b then Some (c_sdiv (- (2 ^ 31)) rs1 rs2 (sdiv))
         else if op = 0x200503b then Some (c_udiv rs1 rs2 (div))
         else if op = 0x200603b then Some (c_sdiv (- (2 ^ 31)) rs1 rs2 (smod))
         else if op = 0x200703b then Some (c_udiv rs1 rs2 (mod))
         else None)"

definition emulate_mul_div32 :: "menv \<Rightarrow> u64 \<Rightarrow> u64 \<Rightarrow> u64 \<Rightarrow> tstate \<Rightarrow> unit run" where
  "emulate_mul_div32 env mepc mstatus insn st =
     set_result env mepc mstatus insn
       (map_option (\<lambda>r. bind_res r (\<lambda>v. Inr (scast v)))
          (mul_div32_value insn (ucast (fst st ! GET_REG insn SH_RS1)) (ucast (fst st ! GET_REG insn SH_RS2)))) st"

section \<open>Loads and stores of floating-point registers\<close>

definition emulate_float_load :: "menv \<Rightarrow> u64 \<Rightarrow> u64 \<Rightarrow> u64 \<Rightarrow> u64 \<Rightarrow> tstate \<Rightarrow> unit run" where
  "emulate_float_load env mcause mepc mstatus insn st =
     (let addr = fst st ! GET_REG insn SH_RS1 + IMM_I insn;
          punt = misaligned_load_trap env mcause mepc (fst st, write_csr env Mbadaddr addr (snd st))
      in if mstatus AND MSTATUS_FS = 0 then truly_illegal_insn env mepc mstatus insn st
         else if insn AND 0x7000 = 0x2000 then
           (if addr mod 4 \<noteq> 0 then punt
            else bind_run (load_u env 4 addr mepc st) (\<lambda>v st. Inr (Done (), SET_F32_RD env insn (ucast v) st)))
         else if insn AND 0x7000 = 0x3000 then
           (if addr mod 8 \<noteq> 0 then punt
            else bind_run (load_u env 8 addr mepc st) (\<lambda>v st. Inr (Done (), SET_F64_RD env insn v st)))
         else truly_illegal_insn env mepc mstatus insn st)"

definition emulate_float_store :: "menv \<Rightarrow> u64 \<Rightarrow> u64 \<Rightarrow> u64 \<Rightarrow> u64 \<Rightarrow> tstate \<Rightarrow> unit run" where
  "emulate_float_store env mcause mepc mstatus insn st =
     (let addr = fst st ! GET_REG insn SH_RS1 + IMM_S insn;
          punt = misaligned_store_trap env mcause mepc (fst st, write_csr env Mbadaddr addr (snd st))
      in if mstatus AND MSTATUS_FS = 0 then truly_illegal_insn env mepc mstatus insn st
         else if insn AND 0x7000 = 0x2000 then
           (if addr mod 4 \<noteq> 0 then punt
            else store_u env 4 addr (ucast (GET_F32_REG insn SH_RS2 (fst st))) mepc st)
         else if insn AND 0x7000 = 0x3000 then
           (if addr mod 8 \<noteq> 0 then punt
            else store_u env 8 addr (GET_F64_REG insn SH_RS2 (fst st)) mepc st)
         else truly_illegal_insn env mepc mstatus insn st)"

definition rvc_load :: "menv \<Rightarrow> u64 \<Rightarrow> u64 \<Rightarrow> u64 \<Rightarrow> u64 \<Rightarrow> tstate \<Rightarrow> unit run" where
  "rvc_load env mcause mepc addr rd st =
     (if addr mod 8 \<noteq> 0 then misaligned_load_trap env mcause mepc st
      else bind_run (load_u env 8 addr mepc st) (\<lambda>v st. Inr (Done (), SET_F64_RD env rd v st)))"

definition rvc_store :: "menv \<Rightarrow> u64 \<Rightarrow> u64 \<Rightarrow> u64 \<Rightarrow> u64 \<Rightarrow> tstate \<Rightarrow> unit run" where
  "rvc_store env mcause mepc addr rs2 st =
     (if addr mod 8 \<noteq> 0 then misaligned_store_trap env mcause mepc st
      else store_u env 8 addr (GET_F64_REG rs2 SH_RS2 (fst st)) mepc st)"

definition emulate_rvc :: "menv \<Rightarrow> u64 \<Rightarrow> u64 \<Rightarrow> u64 \<Rightarrow> u64 \<Rightarrow> tstate \<Rightarrow> unit run" where
  "emulate_rvc env mcause mepc mstatus insn st =
     (let st = (fst st, write_csr env Mepc (mepc + 2) (snd st));
          rs1s = fst st ! GET_REG (RVC_RS1S insn) 0; sp = fst st ! GET_REG 2 0
      in if mstatus AND MSTATUS_FS = 0 then truly_illegal_insn env mepc mstatus insn st
         else if insn AND 0xe003 = 0x2000 then
           rvc_load env mcause mepc (rs1s + RVC_LD_IMM insn) (push_bit SH_RD (RVC_RS2S insn)) st
         else if insn AND 0xe003 = 0x2002 then rvc_load env mcause mepc (sp + RVC_LDSP_IMM insn) insn st
         else if insn AND 0xe003 = 0xa000 then
           rvc_store env mcause mepc (rs1s + RVC_LD_IMM insn) (push_bit SH_RS2 (RVC_RS2S insn)) st
         else if insn AND 0xe003 = 0xa002 then
           rvc_store env mcause mepc (sp + RVC_SDSP_IMM insn) (push_bit SH_RS2 (RVC_RS2 insn)) st
         else truly_illegal_insn env mepc mstatus insn st)"

section \<open>Control registers\<close>

definition GET_FCSR :: "mstate \<Rightarrow> u64" where "GET_FCSR s = m_fcsr s AND 0xFF"

definition SET_FCSR :: "menv \<Rightarrow> u64 \<Rightarrow> mstate \<Rightarrow> mstate" where
  "SET_FCSR env v s = SET_FS_DIRTY env (s\<lparr>m_fcsr := v AND 0xFF\<rparr>)"

definition GET_FRM :: "mstate \<Rightarrow> u64" where "GET_FRM s = drop_bit 5 (GET_FCSR s)"
definition GET_FFLAGS :: "mstate \<Rightarrow> u64" where "GET_FFLAGS s = GET_FCSR s AND 0x1F"

definition SET_FRM :: "menv \<Rightarrow> u64 \<Rightarrow> mstate \<Rightarrow> mstate" where
  "SET_FRM env v s = SET_FCSR env (GET_FFLAGS s OR push_bit 5 v) s"

definition SET_FFLAGS :: "menv \<Rightarrow> u64 \<Rightarrow> mstate \<Rightarrow> mstate" where
  "SET_FFLAGS env v s = SET_FCSR env (push_bit 5 (GET_FRM s) OR (v AND 0x1F)) s"

definition emulate_read_csr :: "menv \<Rightarrow> u64 \<Rightarrow> u64 \<Rightarrow> mstate \<Rightarrow> (u64 \<times> mstate) option" where
  "emulate_read_csr env num mstatus s =
     (let counteren = (if EXTRACT_FIELD mstatus MSTATUS_MPP = 0 then read_csr Scounteren s else -1);
          counter = (\<lambda>i r. if drop_bit i counteren AND 1 = 0 then None else Some r);
          fp = (\<lambda>r. if mstatus AND MSTATUS_FS = 0 then None else Some (r, s))
      in if num = 0xc00 then counter 0 (read_csr Mcycle s, s)
         else if num = 0xc01 then counter 1 (dev_read env 8 (mtime s) s)
         else if num = 0xc02 then counter 2 (read_csr Minstret s, s)
         else if num = 0xb03 then counter 3 (read_csr Mhpmcounter3 s, s)
         else if num = 0xb04 then counter 4 (read_csr Mhpmcounter4 s, s)
         else if num = 0x323 then Some (read_csr Mhpmevent3 s, s)
         else if num = 0x324 then Some (read_csr Mhpmevent4 s, s)
         else if num = 0x2 then fp (GET_FRM s)
         else if num = 0x1 then fp (GET_FFLAGS s)
         else if num = 0x3 then fp (GET_FCSR s)
         else None)"

definition emulate_write_csr :: "menv \<Rightarrow> u64 \<Rightarrow> u64 \<Rightarrow> mstate \<Rightarrow> mstate option" where
  "emulate_write_csr env num v s =
     (if num = 0xc00 then Some (write_csr env Mcycle v s)
      else if num = 0xc02 then Some (write_csr env Minstret v s)
      else if num = 0xb03 then Some (write_csr env Mhpmcounter3 v s)
      else if num = 0xb04 then Some (write_csr env Mhpmcounter4 v s)
      else if num = 0x323 then Some (write_csr env Mhpmevent3 v s)
      else if num = 0x324 then Some (write_csr env Mhpmevent4 v s)
      else if num = 0x2 then Some (SET_FRM env v s)
      else if num = 0x1 then Some (SET_FFLAGS env v s)
      else if num = 0x3 then Some (SET_FCSR env v s)
      else None)"

text \<open>The new value of the control register and whether it is written, by the three bits that name the operation.\<close>

definition csr_operation :: "u64 \<Rightarrow> u64 \<Rightarrow> u64 \<Rightarrow> u64 \<Rightarrow> (u64 \<times> bool) option" where
  "csr_operation rm rs1_num rs1_val csr_val =
     (if rm = 1 then Some (rs1_val, True)
      else if rm = 2 then Some (csr_val OR rs1_val, rs1_num \<noteq> 0)
      else if rm = 3 then Some (csr_val AND NOT rs1_val, rs1_num \<noteq> 0)
      else if rm = 5 then Some (rs1_num, True)
      else if rm = 6 then Some (csr_val OR rs1_num, rs1_num \<noteq> 0)
      else if rm = 7 then Some (csr_val AND NOT rs1_num, rs1_num \<noteq> 0)
      else None)"

definition emulate_system_opcode :: "menv \<Rightarrow> u64 \<Rightarrow> u64 \<Rightarrow> u64 \<Rightarrow> tstate \<Rightarrow> unit run" where
  "emulate_system_opcode env mepc mstatus insn st =
     (let rs1_num = drop_bit 15 insn AND 0x1f; rs1_val = fst st ! GET_REG insn SH_RS1;
          csr_num = ucast (drop_bit 20 (ucast insn :: u32)); illegal = truly_illegal_insn env mepc mstatus insn
      in case emulate_read_csr env csr_num mstatus (snd st) of
           None \<Rightarrow> illegal st
         | Some (csr_val, s) \<Rightarrow>
             (case csr_operation (GET_RM insn) rs1_num rs1_val csr_val of
                None \<Rightarrow> illegal (fst st, s)
              | Some (v, do_write) \<Rightarrow>
                  if do_write then
                    (case emulate_write_csr env csr_num v s of
                       None \<Rightarrow> illegal (fst st, s)
                     | Some s \<Rightarrow> Inr (Done (), SET_RD insn csr_val (fst st, s)))
                  else Inr (Done (), SET_RD insn csr_val (fst st, s))))"

section \<open>Dispatch\<close>

type_synonym emulation_func = "u64 \<Rightarrow> u64 \<Rightarrow> u64 \<Rightarrow> u64 \<Rightarrow> tstate \<Rightarrow> unit run"

definition illegal_insn_trap_table :: "menv \<Rightarrow> emulation_func \<Rightarrow> emulation_func \<Rightarrow> u64 \<Rightarrow> emulation_func" where
  "illegal_insn_trap_table env fmadd fp i mcause mepc mstatus insn =
     (if i = 1 then emulate_float_load env mcause mepc mstatus insn
      else if i = 9 then emulate_float_store env mcause mepc mstatus insn
      else if i = 12 then emulate_mul_div env mepc mstatus insn
      else if i = 14 then emulate_mul_div32 env mepc mstatus insn
      else if i \<in> set [16, 17, 18, 19] then fmadd mcause mepc mstatus insn
      else if i = 20 then fp mcause mepc mstatus insn
      else if i = 28 then emulate_system_opcode env mepc mstatus insn
      else truly_illegal_insn env mepc mstatus insn)"

definition illegal_insn_trap :: "menv \<Rightarrow> emulation_func \<Rightarrow> emulation_func \<Rightarrow> u64 \<Rightarrow> u64 \<Rightarrow> tstate \<Rightarrow> unit run" where
  "illegal_insn_trap env fmadd fp mcause mepc st =
     (let mstatus = read_csr Mstatus (snd st); insn = read_csr Mbadaddr (snd st)
      in bind_run
           (if insn AND 3 \<noteq> 3 \<and> insn = 0 then get_insn env mepc st else Inr (Done (insn, mstatus), st))
           (\<lambda>(insn, mstatus) st.
              if insn AND 3 \<noteq> 3 then emulate_rvc env mcause mepc mstatus insn st
              else illegal_insn_trap_table env fmadd fp (drop_bit 2 (insn AND 0x7c)) mcause mepc mstatus insn
                     (fst st, write_csr env Mepc (mepc + 4) (snd st))))"

end
