(* ===== verification/Emu_Correct.thy ===== *)
theory Emu_Correct
  imports Emulation
begin

text \<open>
  What the emulated instructions compute: misaligned accesses read and write the bytes the instruction
  names, multiplication and division agree with the instruction set, and the places where the
  emulation differs from it.
\<close>

section \<open>Bytes of the program\<close>

lemma pages_0 [simp]: "pages tr 0 a = Some []"
  by (simp add: pages_def)

lemma pages_Suc:
  "pages tr (Suc n) a = (case tr a of None \<Rightarrow> None | Some p \<Rightarrow> map_option ((#) p) (pages tr n (a + 1)))"
proof -
  have "map (\<lambda>i. tr (a + of_nat i)) [0..<Suc n] = tr a # map (\<lambda>i. tr (a + 1 + of_nat i)) [0..<n]"
    unfolding upt_conv_Cons [OF zero_less_Suc] by (simp add: map_Suc_upt [symmetric] add.assoc del: upt_Suc)
  then show ?thesis unfolding pages_def by (simp del: upt_Suc)
qed

lemma length_pages: "pages tr n a = Some ps \<Longrightarrow> length ps = n"
proof (induction n arbitrary: a ps)
  case (Suc n)
  then show ?case by (auto simp: pages_Suc split: option.splits)
qed simp

lemma bind_run_simps [simp]:
  "bind_run (Inr (Done x, st)) f = f x st" "bind_run (Inr (Redirected, st)) f = Inr (Redirected, st)"
  "bind_run (Inl e) f = Inl e"
  by (simp_all add: bind_run_def)

lemma ucast_byte [simp]: "ucast (ucast b :: u64) = (b :: u8)"
  by (rule bit_word_eqI) (auto simp: bit_simps)

lemma load_u_1: "e_uload env a = Some p \<Longrightarrow> load_u env 1 a epc st = Inr (Done (ucast (m_mem (snd st) p)), st)"
  using pages_Suc [of "e_uload env" 0 a] by (simp add: load_u_def le_word_def)

lemma load_bytes_run:
  "pages (e_uload env) n a = Some ps \<Longrightarrow> load_bytes env mepc a n st = Inr (Done (map (m_mem (snd st)) ps), st)"
proof (induction n arbitrary: a ps)
  case (Suc n)
  then show ?case by (auto simp: pages_Suc load_u_1 simp del: One_nat_def split: option.splits)
qed simp

lemma store_u_1:
  "e_ustore env a = Some p \<Longrightarrow>
   store_u env 1 a (ucast b) epc (regs, s) = Inr (Done (), (regs, s\<lparr>m_mem := (m_mem s)(p := b)\<rparr>))"
  using pages_Suc [of "e_ustore env" 0 a] by (simp add: store_u_def put_bytes_def byte_of_def)

lemma put_bytes_Cons: "put_bytes (p # ps) (b # bs) m = put_bytes ps bs (m(p := b))"
  by (simp add: put_bytes_def)

lemma store_bytes_run:
  "pages (e_ustore env) (length bs) a = Some ps \<Longrightarrow>
   store_bytes env mepc a bs (regs, s) = Inr (Done (), (regs, s\<lparr>m_mem := put_bytes ps bs (m_mem s)\<rparr>))"
proof (induction bs arbitrary: a ps s)
  case Nil
  then show ?case by (simp add: put_bytes_def)
next
  case (Cons b bs)
  then show ?case by (auto simp: pages_Suc store_u_1 put_bytes_Cons fun_upd_def simp del: One_nat_def split: option.splits)
qed

lemma put_bytes_other: "q \<notin> set ps \<Longrightarrow> put_bytes ps bs m q = m q"
proof (induction ps arbitrary: bs m)
  case (Cons p ps)
  then show ?case by (cases bs) (simp_all add: put_bytes_Cons, simp add: put_bytes_def)
qed (simp add: put_bytes_def)

lemma map_put_bytes: "distinct ps \<Longrightarrow> length bs = length ps \<Longrightarrow> map (put_bytes ps bs m) ps = bs"
proof (induction ps arbitrary: bs m)
  case (Cons p ps)
  then show ?case by (cases bs) (simp_all add: put_bytes_Cons put_bytes_other)
qed simp

lemma le_word_bytes: "le_word (map (byte_of v) [0..<n]) = take_bit (8 * n) (v :: u64)"
proof (rule bit_word_eqI)
  fix k assume "k < LENGTH(64)"
  have "k div 8 < n \<longleftrightarrow> k < 8 * n" by (simp add: div_less_iff_less_mult mult.commute)
  then show "bit (le_word (map (byte_of v) [0..<n]) :: u64) k = bit (take_bit (8 * n) v) k"
    using \<open>k < LENGTH(64)\<close> by (auto simp: bit_le_word bit_byte_of bit_take_bit_iff)
qed

text \<open>
  The byte loops of the two misaligned handlers invert each other: a value stored by one at an address
  whose pages can be written and read is what the other loads from there, cut to the length of the access.
\<close>

lemma misaligned_roundtrip:
  assumes "pages (e_ustore env) n a = Some ps" and "pages (e_uload env) n a = Some ps" and "distinct ps"
  shows "\<exists>s'. store_bytes env mepc a (map (byte_of v) [0..<n]) (regs, s) = Inr (Done (), (regs, s')) \<and>
      (\<exists>bs. load_bytes env mepc' a n (regs, s') = Inr (Done bs, (regs, s')) \<and> le_word bs = take_bit (8 * n) v)"
proof -
  let ?bs = "map (byte_of v) [0..<n]"
  have "map (put_bytes ps ?bs (m_mem s)) ps = ?bs"
    by (rule map_put_bytes [OF assms(3)]) (simp add: length_pages [OF assms(1)])
  then show ?thesis
    using store_bytes_run [of env ?bs a ps] load_bytes_run [OF assms(2)] assms(1) by (simp add: le_word_bytes)
qed

lemma misaligned_roundtrip_witness:
  "\<exists>s'. store_bytes call_env 0 0x2003 (map (byte_of 0x1122334455667788) [0..<8]) ([], reset_state (\<lambda>_. 0)) = Inr (Done (), ([], s')) \<and>
     (\<exists>bs. load_bytes call_env 0 0x2003 8 ([], s') = Inr (Done bs, ([], s')) \<and> le_word bs = (0x1122334455667788 :: u64))"
proof -
  have "pages (e_ustore call_env) 8 0x2003 = Some [0x2003, 0x2004, 0x2005, 0x2006, 0x2007, 0x2008, 0x2009, 0x200a]"
    "pages (e_uload call_env) 8 0x2003 = Some [0x2003, 0x2004, 0x2005, 0x2006, 0x2007, 0x2008, 0x2009, 0x200a]"
    by (simp_all add: call_env_def pages_def upt_rec)
  from misaligned_roundtrip [OF this, of 0 "0x1122334455667788" "[]" "reset_state (\<lambda>_. 0)" 0]
  show ?thesis by simp
qed

section \<open>Misaligned loads\<close>

text \<open>The value the instruction set gives an integer load of these bytes, and their number.\<close>

definition isa_load :: "u64 \<Rightarrow> u8 list \<Rightarrow> u64" where
  "isa_load insn bs =
     (let op = insn AND 0x707f
      in if op = 0x2003 then scast (le_word bs :: u32)
         else if op = 0x6003 then ucast (le_word bs :: u32)
         else if op = 0x1003 then scast (le_word bs :: u16)
         else if op = 0x5003 then ucast (le_word bs :: u16)
         else le_word bs)"

definition isa_len :: "u64 \<Rightarrow> nat" where
  "isa_len insn = (let op = insn AND 0x707f in if op = 0x3003 then 8 else if op = 0x2003 \<or> op = 0x6003 then 4 else 2)"

lemma le_word_ucast:
  "LENGTH('a::len) = 8 * length bs \<Longrightarrow> length bs \<le> 8 \<Longrightarrow> (le_word bs :: u64) = ucast (le_word bs :: 'a word)"
  by (rule bit_word_eqI) (auto simp: bit_le_word bit_simps)

lemma shift_sign:
  assumes "k + LENGTH('a::len) = 64"
  shows "signed_drop_bit k (push_bit k (ucast w :: u64)) = scast (w :: 'a word)"
proof (rule bit_word_eqI)
  fix n assume n: "n < LENGTH(64)"
  define l where "l = LENGTH('a)"
  have l: "0 < l" "k + l = 64" using assms by (simp_all add: l_def)
  show "bit (signed_drop_bit k (push_bit k (ucast w :: u64))) n = bit (scast w :: u64) n"
  proof (cases "n < l")
    case True
    then have "\<not> 64 - k \<le> n" "min n (l - 1) = n" using l by auto
    then show ?thesis
      using n True l by (simp add: bit_signed_drop_bit_iff bit_push_bit_iff bit_ucast_iff bit_signed_iff l_def)
  next
    case False
    then have "64 - k \<le> n" "min n (l - 1) = l - 1" "63 - k = l - 1" using l by auto
    moreover have k: "k \<le> 63" using l by simp
    ultimately show ?thesis
      using n l by (simp add: k bit_signed_drop_bit_iff bit_push_bit_iff bit_ucast_iff bit_signed_iff l_def)
  qed
qed

text \<open>
  (C19) A misaligned integer load sets its register to the value the instruction set defines for the bytes at
  the faulting address, sign or zero extended, resumes after the instruction, and changes nothing else.
\<close>

theorem misaligned_load_isa:
  assumes "get_insn env mepc (regs, s) = Inr (Done (insn, mst), (regs, s))"
    and "insn AND 0x707f \<in> {0x2003, 0x3003, 0x6003, 0x1003, 0x5003}"
    and "pages (e_uload env) (isa_len insn) (csrs s Mbadaddr) = Some ps"
  shows "misaligned_load_trap env mcause mepc (regs, s) =
    Inr (Done (), (regs[GET_REG insn SH_RD := isa_load insn (map (m_mem s) ps)], write_csr env Mepc (mepc + 4) s))"
proof -
  let ?bs = "map (m_mem s) ps"
  have "insn AND 3 = (insn AND 0x707f) AND 3" by (simp add: and.assoc)
  then have "insn AND 3 = 3" using assms(2) by auto
  then have len: "insn_len insn = 4" by (simp add: insn_len_def)
  have lb: "length ?bs = isa_len insn" using length_pages [OF assms(3)] by simp
  obtain n shift where d: "decode_load insn = Some (n, shift, False, insn)" "n = isa_len insn"
    and v: "signed_drop_bit shift (push_bit shift (le_word ?bs)) = isa_load insn ?bs"
  proof (cases "insn AND 0x707f = 0x2003 \<or> insn AND 0x707f = 0x1003")
    case True
    then show ?thesis
      using that lb le_word_ucast [of ?bs, where 'a = 32] le_word_ucast [of ?bs, where 'a = 16]
        shift_sign [of 32, where 'a = 32] shift_sign [of 48, where 'a = 16]
      by (auto simp: decode_load_def isa_len_def isa_load_def)
  next
    case False
    then show ?thesis
      using that assms(2) lb le_word_ucast [of ?bs, where 'a = 32] le_word_ucast [of ?bs, where 'a = 16]
      by (auto simp: decode_load_def isa_len_def isa_load_def)
  qed
  then show ?thesis
    using assms(1) load_bytes_run [OF assms(3), of mepc "(regs, s)"]
    by (simp add: misaligned_load_trap_def Let_def read_csr_def SET_RD_def len)
qed

theorem misaligned_load_isa_witness:
  "misaligned_load_trap call_env 4 0x3000
       (replicate 64 0, (reset_state ((\<lambda>_. 0)(0x3000 := 0x03, 0x3001 := 0x15, 0x2001 := 0xfe, 0x2002 := 0xff)))\<lparr>csrs := (\<lambda>_. 0)(Mbadaddr := 0x2001)\<rparr>) =
     Inr (Done (), ((replicate 64 0)[10 := -2], write_csr call_env Mepc 0x3004
       ((reset_state ((\<lambda>_. 0)(0x3000 := 0x03, 0x3001 := 0x15, 0x2001 := 0xfe, 0x2002 := 0xff)))\<lparr>csrs := (\<lambda>_. 0)(Mbadaddr := 0x2001)\<rparr>)))"
proof -
  let ?s = "(reset_state ((\<lambda>_. 0)(0x3000 := 0x03, 0x3001 := 0x15, 0x2001 := 0xfe, 0x2002 := 0xff)))\<lparr>csrs := (\<lambda>_. 0)(Mbadaddr := 0x2001)\<rparr>"
  have "pages (e_ufetch call_env) 4 0x3000 = Some [0x3000, 0x3001, 0x3002, 0x3003]"
    by (simp add: call_env_def pages_def upt_rec)
  then have "get_insn call_env 0x3000 (replicate 64 0, ?s) = Inr (Done (0x1503, 0), (replicate 64 0, ?s))"
    by (simp add: get_insn_def fetch_u_def le_word_def reset_state_def read_csr_def)
  moreover have "pages (e_uload call_env) (isa_len 0x1503) (csrs ?s Mbadaddr) = Some [0x2001, 0x2002]"
    by (simp add: call_env_def pages_def upt_rec isa_len_def)
  ultimately show ?thesis
    using misaligned_load_isa [of call_env "0x3000" "replicate 64 0" ?s "0x1503" 0 "[0x2001, 0x2002]" 4]
    by (simp add: GET_REG_def SHIFT_RIGHT_def isa_load_def reset_state_def le_word_def)
qed

section \<open>Multiplication and division\<close>

text \<open>The eight instructions of the standard extension for 64 bits, by their three-bit function code.\<close>

definition isa_mul_div :: "u64 \<Rightarrow> u64 \<Rightarrow> u64 \<Rightarrow> u64" where
  "isa_mul_div f a b =
     (if f = 0 then word_of_int (sint a * sint b)
      else if f = 1 then word_of_int (sint a * sint b div 2 ^ 64)
      else if f = 2 then word_of_int (sint a * uint b div 2 ^ 64)
      else if f = 3 then word_of_int (uint a * uint b div 2 ^ 64)
      else if f = 4 then (if b = 0 then -1 else word_of_int (sint a sdiv sint b))
      else if f = 5 then (if b = 0 then -1 else word_of_int (uint a div uint b))
      else if f = 6 then (if b = 0 then a else word_of_int (sint a smod sint b))
      else (if b = 0 then a else word_of_int (uint a mod uint b)))"

text \<open>The operands for which the C expression has no defined value.\<close>

definition mul_div_undefined :: "u64 \<Rightarrow> u64 \<Rightarrow> u64 \<Rightarrow> bool" where
  "mul_div_undefined f a b =
     (f = 3 \<and> 2 ^ 127 \<le> uint a * uint b \<or> f \<in> {4, 5, 6, 7} \<and> b = 0 \<or>
      f \<in> {4, 6} \<and> sint a = - (2 ^ 63) \<and> sint b = -1)"

lemma high_half: "(ucast (drop_bit 64 (word_of_int p :: 128 word)) :: u64) = word_of_int (p div 2 ^ 64)"
  unfolding drop_bit_eq_div [symmetric] by (rule bit_word_eqI) (auto simp: bit_simps bit_word_of_int_iff)

lemma double_products:
  "(scast a * scast b :: 128 word) = word_of_int (sint a * sint b)"
  "(scast a * ucast b :: 128 word) = word_of_int (sint a * uint b)"
  "(ucast a * ucast b :: 128 word) = word_of_int (uint a * uint b)" for a b :: u64
  by simp_all

lemma push_field: "push_bit k (drop_bit k x AND c) = x AND push_bit k (c :: 'a::len word)"
  by (rule bit_word_eqI) (auto simp: bit_and_iff bit_push_bit_iff bit_drop_bit_eq)

lemma op_split:
  "insn AND 0xfe00707f = ((insn AND 0xfe00007f) OR push_bit 12 (drop_bit 12 insn AND 7) :: u64)"
proof -
  have "(0xfe00707f :: u64) = 0xfe00007f OR push_bit 12 7" by simp
  then show ?thesis unfolding push_field by (simp only: bit.conj_disj_distrib)
qed

lemma and_7_cases: "(x :: u64) AND 7 \<in> {0, 1, 2, 3, 4, 5, 6, 7}"
proof -
  have "x AND 7 \<le> 7" by (rule word_and_le1)
  then have "unat (x AND 7) \<le> 7" by (simp add: word_le_nat_alt)
  then have "unat (x AND 7) \<in> {0, 1, 2, 3, 4, 5, 6, 7}" by auto
  then show ?thesis by (auto simp: word_unat_eq_iff)
qed

lemma mul_div_value_isa:
  "mul_div_value insn a b =
    (let f = drop_bit 12 insn AND 7
     in if insn AND 0xfe00007f \<noteq> 0x2000033 then None
        else Some (if mul_div_undefined f a b then Inl Undefined else Inr (isa_mul_div f a b)))"
proof (cases "insn AND 0xfe00007f = 0x2000033")
  case True
  have low: "(word_of_int (sint a * sint b) :: u64) = a * b" by simp
  note defs = mul_div_value_def isa_mul_div_def mul_div_undefined_def c_sdiv_def c_udiv_def
  show ?thesis
    using and_7_cases [of "drop_bit 12 insn"] unfolding defs op_split True Let_def double_products high_half low
    by (elim insertE) (simp_all add: word_div_def word_mod_def)
next
  case False
  have "insn AND 0xfe00007f = (insn AND 0xfe00707f) AND 0xfe00007f" by (simp add: and.assoc)
  with False show ?thesis by (auto simp: mul_div_value_def Let_def)
qed

text \<open>
  (C20) The emulation of the multiplications and divisions is the one of the instruction set: for one of the
  eight instructions the target register gets the value defined for its operands and nothing else changes,
  except for the operands that make the C expression undefined (a divisor of zero, the quotient that
  overflows, an unsigned product of 2^127 and more); any other instruction is passed on as illegal.
\<close>

theorem mul_div_isa:
  "emulate_mul_div env mepc mstatus insn (regs, s) =
    (let f = drop_bit 12 insn AND 7; a = regs ! GET_REG insn SH_RS1; b = regs ! GET_REG insn SH_RS2
     in if insn AND 0xfe00007f \<noteq> 0x2000033 then Inr (Redirected, (regs, redirect_trap env mepc mstatus insn s))
        else if mul_div_undefined f a b then Inl Undefined
        else Inr (Done (), (regs[GET_REG insn SH_RD := isa_mul_div f a b], s)))"
  by (simp add: emulate_mul_div_def mul_div_value_isa set_result_def truly_illegal_insn_def SET_RD_def Let_def)

section \<open>Fields that are part of a known pattern\<close>

lemma and_refine: "x AND k = v \<Longrightarrow> k AND m = m \<Longrightarrow> x AND m = v AND (m :: u64)"
  by (metis and.assoc)

lemma not_full_length: "insn AND 3 \<noteq> 3 \<Longrightarrow> c AND 3 = 3 \<Longrightarrow> insn AND 0x707f \<noteq> (c :: u64)"
proof
  assume "insn AND 3 \<noteq> 3" "c AND 3 = 3" "insn AND 0x707f = c"
  then have "c AND 3 = insn AND 3" by (auto simp: and.assoc)
  with \<open>insn AND 3 \<noteq> 3\<close> \<open>c AND 3 = 3\<close> show False by simp
qed

lemma csr_number: "ucast (drop_bit 20 (ucast insn :: u32)) = (drop_bit 20 (insn AND 0xfff00000) :: u64)"
proof -
  have "ucast (drop_bit 20 (ucast insn :: u32)) = take_bit 12 (drop_bit 20 insn)"
    by (rule bit_word_eqI) (auto simp: bit_simps)
  then show ?thesis by (simp add: take_bit_eq_mask mask_eq_exp_minus_1 drop_bit_and)
qed

section \<open>Compressed stores and loads\<close>

text \<open>
  The test of the store handler on the bits where a load has its target register: a misaligned
  \<^verbatim>\<open>c.sdsp\<close> whose five bits are zero, that is with offset 0 or 32 from the stack pointer, is a valid
  instruction, but the handler stores nothing and reports it as an illegal one.
\<close>

lemma misaligned_sdsp_rejected:
  assumes "get_insn env mepc (regs, s) = Inr (Done (insn, mst), (regs, s))" and "insn AND 0xef83 = 0xe002"
  shows "misaligned_store_trap env mcause mepc (regs, s) = Inr (Redirected, (regs, redirect_trap env mepc mst insn s))"
proof -
  note m = and_refine [OF assms(2)]
  have "insn AND 3 = 2" "insn AND 0xe003 = 0xe002" "insn AND 0xf80 = 0"
    using m [of 3] m [of "0xe003"] m [of "0xf80"] by simp_all
  moreover have "drop_bit 7 insn AND 0x1f = drop_bit 7 (insn AND 0xf80)" by (simp add: drop_bit_and)
  ultimately have "decode_store insn regs = None" by (simp add: decode_store_def not_full_length)
  then show ?thesis by (simp add: misaligned_store_trap_def assms(1) truly_illegal_insn_def Let_def)
qed

lemma misaligned_sdsp_rejected_witness:
  "misaligned_store_trap call_env 6 0x2000 ([], reset_state ((\<lambda>_. 0)(0x2000 := 0x06, 0x2001 := 0xe0))) =
   Inr (Redirected, ([], redirect_trap call_env 0x2000 0 0xe006 (reset_state ((\<lambda>_. 0)(0x2000 := 0x06, 0x2001 := 0xe0)))))"
proof -
  have "pages (e_ufetch call_env) 4 0x2000 = Some [0x2000, 0x2001, 0x2002, 0x2003]"
    by (simp add: call_env_def pages_def upt_rec)
  then have "get_insn call_env 0x2000 ([], reset_state ((\<lambda>_. 0)(0x2000 := 0x06, 0x2001 := 0xe0))) =
      Inr (Done (0xe006, 0), ([], reset_state ((\<lambda>_. 0)(0x2000 := 0x06, 0x2001 := 0xe0))))"
    by (simp add: get_insn_def fetch_u_def le_word_def reset_state_def read_csr_def)
  from misaligned_sdsp_rejected [OF this] show ?thesis by simp
qed

section \<open>Control registers\<close>

text \<open>
  (C39) A program may read a counter only if \<^verbatim>\<open>scounteren\<close> allows it, but nothing is checked for the writes and
  for the event selectors: in every mode, a \<^verbatim>\<open>csrrw\<close> to \<^verbatim>\<open>mhpmevent3\<close> is carried out in machine mode.
\<close>

theorem event_selector_open:
  assumes "csrs s Mbadaddr = insn" and "insn AND 0xfff0707f = 0x32301073"
  shows "illegal_insn_trap env fmadd fp mcause mepc (regs, s) =
    Inr (Done (), (regs[GET_REG insn SH_RD := csrs s Mhpmevent3],
      write_csr env Mhpmevent3 (regs ! GET_REG insn SH_RS1) (write_csr env Mepc (mepc + 4) s)))"
proof -
  note m = and_refine [OF assms(2)]
  have "insn AND 3 = 3" "insn AND 0x7c = 0x70" "insn AND 0x7000 = 0x1000" "insn AND 0xfff00000 = 0x32300000"
    using m [of 3] m [of "0x7c"] m [of "0x7000"] m [of "0xfff00000"] by simp_all
  moreover have "drop_bit 12 insn AND 7 = drop_bit 12 (insn AND 0x7000)" by (simp add: drop_bit_and)
  ultimately show ?thesis
    using assms(1)
    by (simp add: illegal_insn_trap_def illegal_insn_trap_table_def emulate_system_opcode_def emulate_read_csr_def
        csr_number csr_operation_def emulate_write_csr_def GET_RM_def SET_RD_def read_csr_def Let_def write_csr_def)
qed

theorem event_selector_open_witness:
  "illegal_insn_trap call_env (\<lambda>_ _ _ _ _. Inl Undefined) (\<lambda>_ _ _ _ _. Inl Undefined) 2 0x80000000
     ((replicate 64 0)[11 := 5], (reset_state (\<lambda>_. 0))\<lparr>csrs := (\<lambda>_. 0)(Mbadaddr := 0x32359573)\<rparr>) =
   Inr (Done (), ((replicate 64 0)[11 := 5, 10 := 0],
     write_csr call_env Mhpmevent3 5 (write_csr call_env Mepc 0x80000004
       ((reset_state (\<lambda>_. 0))\<lparr>csrs := (\<lambda>_. 0)(Mbadaddr := 0x32359573)\<rparr>))))"
proof -
  have "GET_REG 0x32359573 SH_RD = 10" "GET_REG 0x32359573 SH_RS1 = 11"
    by (simp_all add: GET_REG_def SHIFT_RIGHT_def)
  then show ?thesis
    using event_selector_open [of "(reset_state (\<lambda>_. 0))\<lparr>csrs := (\<lambda>_. 0)(Mbadaddr := 0x32359573)\<rparr>" "0x32359573"
        call_env "\<lambda>_ _ _ _ _. Inl Undefined" "\<lambda>_ _ _ _ _. Inl Undefined" 2 "0x80000000" "(replicate 64 0)[11 := 5]"]
    by simp
qed

lemma GET_REG_RS2S: "GET_REG (push_bit SH_RD (RVC_RS2S insn)) SH_RD = unat (RVC_RS2S insn)"
  using and_7_cases [of "drop_bit 2 insn"] unfolding RVC_RS2S_def RV_X_def GET_REG_def SHIFT_RIGHT_def
  by (elim insertE) simp_all

section \<open>Compressed loads of floating-point registers\<close>

text \<open>
  (C40) A compressed double load at a misaligned address is passed to the handler of misaligned loads without
  the address, which that handler takes from \<^verbatim>\<open>mbadaddr\<close>: when the instruction trapped as an illegal one this
  register holds the instruction, so the value comes from an address that has nothing to do with its operands.
\<close>

theorem rvc_load_address:
  assumes "insn AND 0xe003 = 0x2000" and "mstatus AND MSTATUS_FS \<noteq> 0"
    and "(regs ! GET_REG (RVC_RS1S insn) 0 + RVC_LD_IMM insn) mod 8 \<noteq> 0"
    and "get_insn env mepc (regs, write_csr env Mepc (mepc + 2) s) =
      Inr (Done (insn, mst), (regs, write_csr env Mepc (mepc + 2) s))"
    and "pages (e_uload env) 8 (csrs s Mbadaddr) = Some ps"
  shows "\<exists>s'. emulate_rvc env mcause mepc mstatus insn (regs, s) =
    Inr (Done (), (regs[32 + unat (RVC_RS2S insn) := le_word (map (m_mem s) ps)], s'))"
proof -
  note m = and_refine [OF assms(1)]
  have 3: "insn AND 3 = 0" using m [of 3] by simp
  let ?s = "write_csr env Mepc (mepc + 2) s"
  have p: "pages (e_uload env) 8 (csrs ?s Mbadaddr) = Some ps" using assms(5) by (simp add: write_csr_def)
  have "decode_load insn = Some (8, 0, True, push_bit SH_RD (RVC_RS2S insn))"
    by (simp add: decode_load_def assms(1) not_full_length 3)
  then show ?thesis
    using assms(1,2,3) load_bytes_run [OF p, of mepc "(regs, ?s)"]
    by (simp add: emulate_rvc_def rvc_load_def misaligned_load_trap_def assms(4) read_csr_def SET_F64_RD_def GET_REG_RS2S Let_def)
      (simp add: write_csr_def)
qed

theorem rvc_load_address_witness:
  "\<exists>s'. emulate_rvc call_env 2 0x3000 0x2000 0x2000
       ((replicate 64 0)[8 := 0x4001], (reset_state ((\<lambda>_. 0)(0x3001 := 0x20, 0x2002 := 7)))\<lparr>csrs := (\<lambda>_. 0)(Mbadaddr := 0x2000)\<rparr>) =
     Inr (Done (), ((replicate 64 0)[8 := 0x4001, 40 := 0x70000], s'))"
proof -
  let ?s = "(reset_state ((\<lambda>_. 0)(0x3001 := 0x20, 0x2002 := 7)))\<lparr>csrs := (\<lambda>_. 0)(Mbadaddr := 0x2000)\<rparr>"
  let ?r = "(replicate 64 0)[8 := 0x4001] :: u64 list"
  have f: "RVC_RS2S 0x2000 = 8" "RVC_RS1S 0x2000 = 8" "RVC_LD_IMM 0x2000 = 0" "GET_REG 8 0 = 8"
    by (simp_all add: RVC_RS2S_def RVC_RS1S_def RVC_LD_IMM_def RV_X_def GET_REG_def SHIFT_RIGHT_def)
  have "pages (e_ufetch call_env) 4 0x3000 = Some [0x3000, 0x3001, 0x3002, 0x3003]"
    by (simp add: call_env_def pages_def upt_rec)
  then have "get_insn call_env 0x3000 (?r, write_csr call_env Mepc (0x3000 + 2) ?s) =
      Inr (Done (0x2000, 0), (?r, write_csr call_env Mepc (0x3000 + 2) ?s))"
    by (simp add: get_insn_def fetch_u_def le_word_def reset_state_def read_csr_def write_csr_def)
  from rvc_load_address [OF _ _ _ this, of "0x2000" "[0x2000, 0x2001, 0x2002, 0x2003, 0x2004, 0x2005, 0x2006, 0x2007]" 2]
  show ?thesis by (simp add: f reset_state_def le_word_def)
qed

end
