(* ===== verification/Spinlock.thy ===== *)
theory Spinlock
  imports Prelude
begin

text \<open>
  The spinlock of \<^verbatim>\<open>machine/atomic.h\<close> with several harts. A hart that uses the lock is at one of four
  points: outside; in the inner loop of \<^verbatim>\<open>spinlock_lock\<close>, about to read the lock; about to swap it in
  \<^verbatim>\<open>spinlock_trylock\<close>; or holding it. Each access to the lock is one atomic step, and the steps of the harts
  interleave in any order. Fences order accesses that are atomic and in order here.
\<close>

section \<open>The lock\<close>

datatype spin_pc = Outside | Reading | Swapping | Holding

record spin_state =
  lock :: u32
  pcs :: "nat \<Rightarrow> spin_pc"

text \<open>\<^verbatim>\<open>res = atomic_swap(&lock->lock, -1); return res;\<close>\<close>

definition spinlock_trylock :: "u32 \<Rightarrow> u32 \<times> u32" where
  "spinlock_trylock l = (l, -1)"

definition spinlock_lock_steps :: "spin_pc \<Rightarrow> u32 \<Rightarrow> spin_pc \<times> u32" where
  "spinlock_lock_steps pc l =
     (case pc of
        Reading \<Rightarrow> (if l \<noteq> 0 then Reading else Swapping, l)
      | Swapping \<Rightarrow> (let (res, l) = spinlock_trylock l in (if res \<noteq> 0 then Reading else Holding, l))
      | _ \<Rightarrow> (Reading, l))"

definition spinlock_release :: "u32 \<Rightarrow> u32" where
  "spinlock_release l = 0"

text \<open>A step of hart \<^verbatim>\<open>i\<close>, which takes and releases the lock again and again.\<close>

definition spin_step :: "nat \<Rightarrow> spin_state \<Rightarrow> spin_state" where
  "spin_step i s =
     (if pcs s i = Holding then s\<lparr>lock := spinlock_release (lock s), pcs := (pcs s)(i := Outside)\<rparr>
      else let (pc, l) = spinlock_lock_steps (pcs s i) (lock s) in s\<lparr>lock := l, pcs := (pcs s)(i := pc)\<rparr>)"

definition spin_init :: spin_state where
  "spin_init = \<lparr>lock = 0, pcs = (\<lambda>_. Outside)\<rparr>"

inductive spin_reach :: "spin_state \<Rightarrow> bool" where
  start: "spin_reach spin_init"
| step: "spin_reach s \<Longrightarrow> spin_reach (spin_step i s)"

text \<open>The states of a run under a schedule, which says whose turn it is at each time.\<close>

fun spin_run :: "(nat \<Rightarrow> nat) \<Rightarrow> nat \<Rightarrow> spin_state" where
  "spin_run sched 0 = spin_init"
| "spin_run sched (Suc t) = spin_step (sched t) (spin_run sched t)"

lemma spin_run_reach: "spin_reach (spin_run sched t)"
  by (induction t) (auto intro: spin_reach.intros)

section \<open>Mutual exclusion\<close>

definition spin_inv :: "spin_state \<Rightarrow> bool" where
  "spin_inv s \<longleftrightarrow> (lock s \<noteq> 0 \<longleftrightarrow> (\<exists>i. pcs s i = Holding)) \<and> (\<forall>i j. pcs s i = Holding \<longrightarrow> pcs s j = Holding \<longrightarrow> i = j)"

lemma spin_step_cases:
  "spin_step i s =
     (case pcs s i of
        Outside \<Rightarrow> s\<lparr>pcs := (pcs s)(i := Reading)\<rparr>
      | Reading \<Rightarrow> if lock s \<noteq> 0 then s else s\<lparr>pcs := (pcs s)(i := Swapping)\<rparr>
      | Swapping \<Rightarrow> if lock s \<noteq> 0 then s\<lparr>lock := -1, pcs := (pcs s)(i := Reading)\<rparr> else s\<lparr>lock := -1, pcs := (pcs s)(i := Holding)\<rparr>
      | Holding \<Rightarrow> s\<lparr>lock := 0, pcs := (pcs s)(i := Outside)\<rparr>)"
  by (auto simp: spin_step_def spinlock_lock_steps_def spinlock_trylock_def spinlock_release_def fun_upd_idem
      split: spin_pc.splits intro!: spin_state.equality)

lemma spin_step_inv: "spin_inv s \<Longrightarrow> spin_inv (spin_step i s)"
  unfolding spin_inv_def spin_step_cases by (cases "pcs s i") (force split: if_splits)+

lemma spin_reach_inv: "spin_reach s \<Longrightarrow> spin_inv s"
proof (induction rule: spin_reach.induct)
  case start
  then show ?case by (simp add: spin_inv_def spin_init_def)
qed (rule spin_step_inv)

text \<open>
  (C22) In every interleaving at most one hart holds the spinlock, and the lock word is non-zero exactly while
  one does.
\<close>

theorem spinlock_exclusive:
  assumes "spin_reach s"
  shows "(\<forall>i j. pcs s i = Holding \<longrightarrow> pcs s j = Holding \<longrightarrow> i = j) \<and> (lock s \<noteq> 0 \<longleftrightarrow> (\<exists>i. pcs s i = Holding))"
  using spin_reach_inv [OF assms] by (auto simp: spin_inv_def)

lemma spinlock_exclusive_witness:
  "pcs (spin_run (\<lambda>t. t mod 2) 6) 0 = Holding \<and> pcs (spin_run (\<lambda>t. t mod 2) 6) 1 = Reading \<and> lock (spin_run (\<lambda>t. t mod 2) 6) \<noteq> 0"
proof -
  have "pcs (spin_run (\<lambda>t. t mod 2) 6) 0 = Holding" "pcs (spin_run (\<lambda>t. t mod 2) 6) 1 = Reading" by code_simp+
  with spinlock_exclusive [OF spin_run_reach, of "\<lambda>t. t mod 2" 6] show ?thesis by blast
qed

section \<open>Progress\<close>



end
