(* ===== verification/Spec2Isabelle.thy ===== *)
theory Spec2Isabelle
  imports Pk_Start User_Lib Fdt_Filter Fdt_Safe M_Boot Emu_Correct Spinlock
begin

text \<open>
  Verification of the C programs of the repository: the RISC-V proxy kernel and its machine-mode firmware
  (\<^verbatim>\<open>code/testsuits-for-oskernel/riscv-linux-rootfs/src/riscv-pk\<close>, below \<^verbatim>\<open>riscv-pk/\<close>), and the C library of the
  system-call tests (\<^verbatim>\<open>code/testsuits-for-oskernel/riscv-syscalls-testing/user\<close>, below \<^verbatim>\<open>user/\<close>).

  \<^bold>\<open>The programs.\<close> The firmware (\<^verbatim>\<open>machine/\<close>) starts every hart in machine mode, reads the flattened device tree to
  find memory, harts, timers, interrupt controllers and consoles, and then starts a payload: \<^verbatim>\<open>bbl/\<close> hands over to an
  operating system in supervisor mode, \<^verbatim>\<open>pk/\<close> is a small kernel that runs one user program and forwards its system
  calls to a host. The firmware stays resident: it serves the supervisor's calls (console, timer, interrupts
  between harts), emulates instructions the hart lacks, and redirects the other traps. The proxy kernel has a
  table of open files with reference counts, three-level page tables, a table of mapped regions that are paged
  in on demand, the system calls, a loader for ELF files and the handlers of traps. The user library is what
  the test programs of the repository are linked with.

  \<^bold>\<open>Conventions.\<close> C integers are words of their width (\<^verbatim>\<open>Prelude\<close>: \<^typ>\<open>u8\<close> to \<^typ>\<open>u64\<close>), with unsigned arithmetic as
  it wraps; a struct is a record, a pointer to an element of a table its index or its address. A run that may
  stop is a value of \<^verbatim>\<open>res\<close>, the sum of a \<^typ>\<open>fault\<close> and a result: assertions, panics, accesses outside of an object, a
  lock taken twice, an access that traps for ever, a pointer that wraps, an operation C leaves undefined, an
  exhausted bound, and the intended end. State is passed explicitly. The handlers of machine traps also may be
  abandoned for a redirected fault or stop the hart (\<^verbatim>\<open>outcome\<close> in \<^verbatim>\<open>M_Trap\<close>). The configuration is the 64-bit one
  with compressed and atomic instructions, floating point emulated, and at most eight harts.

  \<^bold>\<open>Parameters.\<close> What is not code of the repository is an argument of the definitions: the host that answers
  \<^verbatim>\<open>frontend_syscall\<close> (a function of the requests so far), the device registers, the bits a control register keeps,
  the address translation of the interrupted program as the firmware sees it, the kernel under the user library,
  and the addresses the linker and the compiler choose. Hypotheses on them are named: \<^verbatim>\<open>errno_host\<close> (a failure of
  the host is a negated error number), \<^verbatim>\<open>args_fit\<close> (it passes between 1 and 63 arguments), \<^verbatim>\<open>keeps_csrs\<close>.

  \<^bold>\<open>Theories of the proxy kernel.\<close>
  \<^item> \<^verbatim>\<open>Pk_File\<close> models \<^verbatim>\<open>pk/file.c\<close> and \<^verbatim>\<open>pk/frontend.c\<close>. The invariant \<^verbatim>\<open>file_inv\<close> says that the count of an entry is the
    number of its holders; every operation keeps it. \<^verbatim>\<open>file_dup\<close> takes the lowest free descriptor, closing the last
    reference tells the host.
  \<^item> \<^verbatim>\<open>Pk_Vm\<close> models \<^verbatim>\<open>pk/mmap.c\<close>. \<^verbatim>\<open>Pk_Paging\<close> shows that the page tables implement a map from pages to entries (the
    locale \<^verbatim>\<open>pte_store\<close> is the contract, interpreted on the tables), \<^verbatim>\<open>Pk_Regions\<close> that the regions are counted right
    (\<^verbatim>\<open>vm_inv\<close>), \<^verbatim>\<open>Pk_Fault\<close> and \<^verbatim>\<open>Pk_Mmap\<close> what a page fault and each call on mappings do, and \<^verbatim>\<open>Pk_Calls\<close> states it of
    the functions that take the lock, from a state between two calls (\<^verbatim>\<open>vm_ready\<close>) to such a state.
  \<^item> \<^verbatim>\<open>Pk_Syscall\<close> models \<^verbatim>\<open>pk/syscall.c\<close> and \<^verbatim>\<open>pk/console.c\<close>, on the memory of the program seen through the page tables;
    \<^verbatim>\<open>Pk_Safety\<close> shows that every call, for any argument and any host, returns to \<^verbatim>\<open>vm_ready\<close> or stops on purpose.
  \<^item> \<^verbatim>\<open>Pk_Boot\<close> models \<^verbatim>\<open>pk/handlers.c\<close>, \<^verbatim>\<open>pk/elf.c\<close> and \<^verbatim>\<open>pk/pk.c\<close>; \<^verbatim>\<open>Pk_Start\<close> shows the same of every trap and of the loader,
    how a trap resumes the program, and with which frame a program starts.

  \<^bold>\<open>Theories of strings and output.\<close>
  \<^item> \<^verbatim>\<open>C_Strings\<close> (byte memory), \<^verbatim>\<open>Util_String\<close> (\<^verbatim>\<open>util/string.c\<close>) and \<^verbatim>\<open>Util_Printf\<close> (\<^verbatim>\<open>util/snprintf.c\<close>): the functions do what
    their specification on the memory says; \<^verbatim>\<open>vsnprintf\<close> implements \<^verbatim>\<open>format_text\<close>, and \<^verbatim>\<open>atol\<close> reads its numbers back.
  \<^item> \<^verbatim>\<open>User_String\<close> (\<^verbatim>\<open>user/lib/string.c\<close>) and \<^verbatim>\<open>User_Lib\<close> (\<^verbatim>\<open>stdio.c\<close>, \<^verbatim>\<open>stdlib.c\<close>, \<^verbatim>\<open>main.c\<close>, \<^verbatim>\<open>syscall.c\<close>): the functions that work on
    eight bytes at a time agree with the byte loops of the kernel.

  \<^bold>\<open>Theories of the firmware.\<close>
  \<^item> \<^verbatim>\<open>M_State\<close> has the state of the firmware and the devices (\<^verbatim>\<open>uart.c\<close>, \<^verbatim>\<open>uart16550.c\<close>, \<^verbatim>\<open>htif.c\<close>, \<^verbatim>\<open>finisher.c\<close>).
  \<^item> \<^verbatim>\<open>Fdt\<close> and \<^verbatim>\<open>Fdt_Scans\<close> model \<^verbatim>\<open>fdt.c\<close> and the scans of the drivers. \<^verbatim>\<open>Fdt_Tree\<close> relates the tokens to a tree (the
    locale \<^verbatim>\<open>tree_reader\<close> is the contract of callbacks that do not write), \<^verbatim>\<open>Fdt_Filter\<close> shows which nodes \<^verbatim>\<open>filter_compat\<close>
    removes, \<^verbatim>\<open>Fdt_Safe\<close> (the locale \<^verbatim>\<open>scan_keeps\<close>) what a scan keeps on any blob.
  \<^item> \<^verbatim>\<open>M_Trap\<close> models \<^verbatim>\<open>mtrap.c\<close> and \<^verbatim>\<open>unprivileged_memory.h\<close>; \<^verbatim>\<open>M_Calls\<close> shows how a fault is delegated, whom an interrupt
    reaches, and which registers a call changes.
  \<^item> \<^verbatim>\<open>M_Boot\<close> models \<^verbatim>\<open>minit.c\<close> and \<^verbatim>\<open>bbl/bbl.c\<close> and shows how the payload is entered.
  \<^item> \<^verbatim>\<open>Emulation\<close> models \<^verbatim>\<open>emulation.c\<close>, \<^verbatim>\<open>misaligned_ldst.c\<close>, \<^verbatim>\<open>muldiv_emulation.c\<close> and \<^verbatim>\<open>fp_ldst.c\<close>; \<^verbatim>\<open>Emu_Correct\<close> compares
    them with the instruction set.
  \<^item> \<^verbatim>\<open>Spinlock\<close> models \<^verbatim>\<open>atomic.h\<close> with several harts as a step relation: exclusion in every interleaving, progress under
    a fair schedule.

  \<^bold>\<open>Bounds.\<close> \<^verbatim>\<open>walk_create\<close> runs with fuel 3: a walk meets at most two missing tables, and \<^verbatim>\<open>Pk_Paging\<close> shows that the fuel
  is never used up. \<^verbatim>\<open>handle_page_fault\<close> has fuel 2 for nested faults; it is a theorem that a fault never nests. The
  scanner of the device tree takes one unit of fuel per token, because a corrupt property length may keep it
  running for ever; for a tree that is well formed, more than the number of its tokens is enough. A loop that polls a
  device gives up after \<^verbatim>\<open>e_polls\<close> attempts. Loops over addresses end in \<^verbatim>\<open>AddrWrap\<close> where the pointer would wrap. All other
  recursion is structural or has a termination proof.

  \<^bold>\<open>Where the code does not do what it should,\<close> the theorem says what it does: descriptors whose files are never closed,
  a write-only page on which an access traps for ever, an address search whose bound wraps, a lost interrupt
  call, enable registers written out of range, control registers open to user programs, and a load from the
  wrong address.

  \<^bold>\<open>Not modelled.\<close> The floating-point arithmetic of \<^verbatim>\<open>machine/fp_emulation.c\<close> with the softfloat library (two arguments of
  the dispatcher of emulated instructions stand for it); entry and exit code in assembly; the translation and
  instruction caches; the variants of the spinlock that disable interrupts; \<^verbatim>\<open>clone\<close> of the user library, which is
  assembly; the printing of the logo. In the rest of the repository, the operating-system kernel and its file
  systems are asynchronous Rust, \<^verbatim>\<open>code/dependencies\<close> holds third-party packages, and \<^verbatim>\<open>code/libc-test\<close> and the programs in
  \<^verbatim>\<open>user/src\<close> are tests whose results are those of the kernel and the library they run on.
\<close>

end
